(* ===== verification/Prelude.thy ===== *)
theory Prelude
  imports Main "HOL-Library.Word" "HOL-Library.Monad_Syntax"
begin

text \<open>
  Shared vocabulary of the development: the reading of process-aborting
  checks (\<open>assert\<close>, \<open>CHECK\<close>, \<open>DCHECK\<close>) as an option, the parts of the C++
  standard library the connector uses on strings (\<open>substr\<close>, \<open>stoul\<close>, \<open>stoi\<close>),
  byte and hexadecimal helpers, and generic facts on lists, options, maps and
  words the component theories use.
\<close>

unbundle bit_operations_syntax

named_theorems uuid_simps \<open>unfolding rules of the uuid layout\<close>
named_theorems status_simps \<open>unfolding rules of statuses and their error codes\<close>
named_theorems inv_intros \<open>invariant preservation lemmas\<close>

type_synonym byte = "8 word"
type_synonym oid = "32 word"

text \<open>
  A computation that may abort the process: \<^term>\<open>None\<close> is a failed
  \<open>assert\<close>, \<open>CHECK\<close> or \<open>DCHECK\<close> (the build defines no \<open>NDEBUG\<close>).
\<close>
type_synonym 'a checked = "'a option"

definition check_that :: "bool \<Rightarrow> unit checked" where
  "check_that b = (if b then Some () else None)"

text \<open>
  Exceptions the connector raises or catches; \<open>Platform_exception\<close> stands for the
  exceptions of the storage platform, which derive from \<open>std::exception\<close> as well.
\<close>
datatype std_exception = Invalid_argument | Out_of_range | Logic_error | Runtime_error | Platform_exception

text \<open>A computation that may abort, throw or return, and its sequential composition.\<close>
type_synonym 'a run = "(std_exception + 'a) checked"

definition returnE :: "'a \<Rightarrow> 'a run" where
  "returnE x = Some (Inr x)"

definition throwE :: "std_exception \<Rightarrow> 'a run" where
  "throwE e = Some (Inl e)"

definition bindE :: "'a run \<Rightarrow> ('a \<Rightarrow> 'b run) \<Rightarrow> 'b run" where
  "bindE m f = (case m of None \<Rightarrow> None | Some (Inl e) \<Rightarrow> Some (Inl e) | Some (Inr x) \<Rightarrow> f x)"

lemma bindE_simps [simp]:
  "bindE None f = None" "bindE (Some (Inl e)) f = Some (Inl e)" "bindE (Some (Inr x)) f = f x"
  "bindE (returnE x) f = f x" "bindE (throwE e) f = throwE e"
  by (simp_all add: bindE_def returnE_def throwE_def)

lemma run_eqs [simp]:
  "returnE x = returnE y \<longleftrightarrow> x = y" "throwE e \<noteq> returnE x" "returnE x \<noteq> throwE e"
  "returnE x \<noteq> None" "throwE e \<noteq> None" "throwE e = throwE e' \<longleftrightarrow> e = e'"
  "None \<noteq> returnE x" "None \<noteq> throwE e"
  by (simp_all add: returnE_def throwE_def)

lemma run_cases [case_names crash throw return]:
  obtains "m = None" | e where "m = throwE e" | x where "m = returnE x"
  by (cases m) (auto simp: throwE_def returnE_def, metis sum.exhaust)

lemma bindE_return_iff [simp]: "bindE m f = returnE y \<longleftrightarrow> (\<exists>x. m = returnE x \<and> f x = returnE y)"
  by (cases m rule: run_cases) auto

lemma bindE_throw_iff: "bindE m f = throwE e \<longleftrightarrow> m = throwE e \<or> (\<exists>x. m = returnE x \<and> f x = throwE e)"
  by (cases m rule: run_cases) auto

lemma bindE_cong [fundef_cong]:
  "m = m' \<Longrightarrow> (\<And>x. m' = Some (Inr x) \<Longrightarrow> f x = g x) \<Longrightarrow> bindE m f = bindE m' g"
  by (auto simp: bindE_def split: option.split sum.split)

lemma bindE_mono [partial_function_mono]:
  assumes "mono_option m" "\<And>x. mono_option (\<lambda>f. g x f)"
  shows "mono_option (\<lambda>f. bindE (m f) (\<lambda>x. g x f))"
proof -
  have eq: "bindE n h = Option.bind n (\<lambda>r. case r of Inl e \<Rightarrow> Some (Inl e) | Inr x \<Rightarrow> h x)"
    for n :: "'c run" and h :: "'c \<Rightarrow> 'd run"
    by (auto simp: bindE_def split: option.split sum.split)
  have "mono_option (\<lambda>f. case r of Inl e \<Rightarrow> Some (Inl e) | Inr x \<Rightarrow> g x f)" for r
    using assms(2) by (cases r) (auto intro: option.const_mono)
  then show ?thesis unfolding eq by (intro bind_mono assms(1))
qed

subsection \<open>Standard library: strings and numbers\<close>

text \<open>\<open>std::string::substr (pos, count)\<close>.\<close>
definition substr :: "nat \<Rightarrow> nat \<Rightarrow> 'a list \<Rightarrow> std_exception + 'a list" where
  "substr pos n s = (if length s < pos then Inl Out_of_range else Inr (take n (drop pos s)))"

definition is_space :: "char \<Rightarrow> bool" where
  "is_space c = (let n = (of_char c :: nat) in n = 32 \<or> (9 \<le> n \<and> n \<le> 13))"

text \<open>Value of a hexadecimal digit, in either case.\<close>
definition hex_val :: "char \<Rightarrow> nat option" where
  "hex_val c = (let n = (of_char c :: nat) in
     if 48 \<le> n \<and> n \<le> 57 then Some (n - 48)
     else if 97 \<le> n \<and> n \<le> 102 then Some (n - 87)
     else if 65 \<le> n \<and> n \<le> 70 then Some (n - 55)
     else None)"

definition is_hex :: "char \<Rightarrow> bool" where
  "is_hex c = (hex_val c \<noteq> None)"

fun hex_number :: "nat \<Rightarrow> string \<Rightarrow> nat" where
  "hex_number acc [] = acc"
| "hex_number acc (c # cs) = hex_number (16 * acc + the (hex_val c)) cs"

text \<open>
  Subject sequence of \<open>strtoul\<close> and \<open>strtol\<close> in base 16: white space, an optional
  sign, an optional \<open>0x\<close> that is only consumed when a digit follows, digits.
  The result is the sign, the magnitude and the number of characters read.
\<close>
definition strto_base16 :: "string \<Rightarrow> std_exception + (bool \<times> nat \<times> nat)" where
  "strto_base16 s =
    (let ws = takeWhile is_space s;
         s1 = drop (length ws) s;
         neg = (s1 \<noteq> [] \<and> hd s1 = CHR ''-'');
         sgn = (if s1 \<noteq> [] \<and> (hd s1 = CHR ''-'' \<or> hd s1 = CHR ''+'') then 1 else 0);
         s2 = drop sgn s1;
         pre = (if 2 < length s2 \<and> hd s2 = CHR ''0'' \<and> (s2 ! 1 = CHR ''x'' \<or> s2 ! 1 = CHR ''X'')
                    \<and> is_hex (s2 ! 2)
                then 2 else 0);
         ds = takeWhile is_hex (drop pre s2)
     in if ds = [] then Inl Invalid_argument
        else Inr (neg, hex_number 0 ds, length ws + sgn + pre + length ds))"

text \<open>\<open>std::stoul (s, &pos, 16)\<close> with a 64-bit \<open>unsigned long\<close>.\<close>
definition stoul16 :: "string \<Rightarrow> std_exception + (64 word \<times> nat)" where
  "stoul16 s = (case strto_base16 s of
      Inl e \<Rightarrow> Inl e
    | Inr (neg, v, pos) \<Rightarrow>
        if 2 ^ 64 \<le> v then Inl Out_of_range
        else Inr (if neg then - of_nat v else of_nat v, pos))"

text \<open>\<open>std::stoi (s, &pos, 16)\<close> with a 32-bit \<open>int\<close>.\<close>
definition stoi16 :: "string \<Rightarrow> std_exception + (int \<times> nat)" where
  "stoi16 s = (case strto_base16 s of
      Inl e \<Rightarrow> Inl e
    | Inr (neg, v, pos) \<Rightarrow>
        (let i = (if neg then - int v else int v)
         in if i < - (2 ^ 31) \<or> 2 ^ 31 \<le> i then Inl Out_of_range else Inr (i, pos)))"

subsection \<open>Decimal printing, as the formatting library prints integers\<close>

fun digits10 :: "nat \<Rightarrow> string" where
  "digits10 n = (if n < 10 then [char_of (48 + n)]
                 else digits10 (n div 10) @ [char_of (48 + n mod 10)])"

declare digits10.simps [simp del]

definition int_to_string :: "int \<Rightarrow> string" where
  "int_to_string i = (if i < 0 then CHR ''-'' # digits10 (nat (- i)) else digits10 (nat i))"

subsection \<open>Four byte integers\<close>

definition le32 :: "32 word \<Rightarrow> byte list" where
  "le32 w = [ucast w, ucast (drop_bit 8 w), ucast (drop_bit 16 w), ucast (drop_bit 24 w)]"

fun load_le32 :: "byte list \<Rightarrow> 32 word" where
  "load_le32 (a # b # c # d # _) =
     ucast a OR push_bit 8 (ucast b) OR push_bit 16 (ucast c) OR push_bit 24 (ucast d)"
| "load_le32 _ = 0"

subsection \<open>Generic facts\<close>

lemma join_bytes32:
  "ucast (ucast w :: byte) OR push_bit 8 (ucast (ucast (drop_bit 8 w) :: byte)) OR
   push_bit 16 (ucast (ucast (drop_bit 16 w) :: byte)) OR
   push_bit 24 (ucast (ucast (drop_bit 24 w) :: byte)) = (w :: 32 word)"
proof (rule bit_word_eqI)
  fix n assume "n < LENGTH(32)"
  then consider "n < 8" | "8 \<le> n" "n < 16" | "16 \<le> n" "n < 24" | "24 \<le> n" "n < 32" by force
  then show "bit (ucast (ucast w :: byte) OR push_bit 8 (ucast (ucast (drop_bit 8 w) :: byte)) OR
     push_bit 16 (ucast (ucast (drop_bit 16 w) :: byte)) OR
     push_bit 24 (ucast (ucast (drop_bit 24 w) :: byte)) :: 32 word) n = bit w n"
    by cases (auto simp: bit_simps)
qed

lemma load_le32_le32 [simp]: "load_le32 (le32 w @ rest) = w"
  by (simp add: le32_def join_bytes32)

lemma length_le32 [simp]: "length (le32 w) = 4"
  by (simp add: le32_def)

lemma check_that_simps [simp]:
  "check_that True = Some ()" "check_that False = None"
  "(check_that b = Some u) = b" "(check_that b = None) = (\<not> b)"
  by (auto simp: check_that_def)

lemma substr_ok: "pos \<le> length s \<Longrightarrow> substr pos n s = Inr (take n (drop pos s))"
  by (simp add: substr_def)

lemma takeWhile_all: "\<forall>x \<in> set xs. P x \<Longrightarrow> takeWhile P xs = xs"
  by (simp add: takeWhile_eq_all_conv)

lemma hex_number_append:
  "hex_number acc (xs @ ys) = hex_number (hex_number acc xs) ys"
  by (induction xs arbitrary: acc) auto

lemma is_hex_not_special:
  assumes "is_hex c"
  shows "\<not> is_space c" "c \<noteq> CHR ''-''" "c \<noteq> CHR ''+''" "c \<noteq> CHR ''x''" "c \<noteq> CHR ''X''"
  using assms by (auto simp: is_hex_def hex_val_def is_space_def Let_def split: if_splits)

text \<open>On a non-empty run of digits the whole run is the subject sequence.\<close>
lemma strto_base16_digits:
  assumes ne: "s \<noteq> []" and hex: "\<forall>c \<in> set s. is_hex c"
  shows "strto_base16 s = Inr (False, hex_number 0 s, length s)"
proof -
  have h: "is_hex (hd s)" using assms by simp
  have ws: "takeWhile is_space s = []"
    using ne is_hex_not_special(1) [OF h] by (cases s) auto
  have x: "2 < length s \<Longrightarrow> s ! 1 \<noteq> CHR ''x'' \<and> s ! 1 \<noteq> CHR ''X''"
    using hex is_hex_not_special(4,5) by (metis Suc_1 nth_mem Suc_lessD)
  show ?thesis
    unfolding strto_base16_def Let_def ws
    using ne x is_hex_not_special(2,3) [OF h] by (auto simp: takeWhile_all [OF hex])
qed

lemma unat_drop_bit_div: "unat (drop_bit n w) = unat w div 2 ^ n"
  unfolding unat_drop_bit_eq by (simp only: drop_bit_eq_div)

lemma unat_and_mask: "unat (w AND mask n) = unat w mod 2 ^ n"
  unfolding take_bit_eq_mask [symmetric] unsigned_take_bit_eq by (rule take_bit_eq_mod)

lemma mask_4_8: "(0xF :: 'a::len word) = mask 4" "(0xFF :: 'a::len word) = mask 8"
  by (simp_all add: mask_eq_exp_minus_1)

lemma base256_digits:
  fixes x :: nat
  shows "16777216 * (x div 16777216) + 65536 * (x div 65536 mod 256) + 256 * (x div 256 mod 256) + x mod 256 = x"
proof -
  have a: "x div 65536 = x div 256 div 256" "x div 16777216 = x div 256 div 256 div 256"
    by (simp_all add: div_mult2_eq [symmetric])
  have "256 * (y div 256) + y mod 256 = y" for y :: nat by simp
  from this [of x] this [of "x div 256"] this [of "x div 256 div 256"]
  show ?thesis unfolding a by linarith
qed

text \<open>A sum over a list in which one element is replaced.\<close>
lemma sum_list_map_update:
  fixes f :: "'a \<Rightarrow> 'b::comm_monoid_add"
  shows "i < length xs \<Longrightarrow> sum_list (map f (xs[i := x])) + f (xs ! i) = sum_list (map f xs) + f x"
proof (induction xs arbitrary: i)
  case (Cons y ys)
  then show ?case by (cases i) (simp_all add: ac_simps)
qed simp

subsection \<open>Vector insertion and erasure\<close>

definition insert_at :: "nat \<Rightarrow> 'a \<Rightarrow> 'a list \<Rightarrow> 'a list" where
  "insert_at i x xs = take i xs @ x # drop i xs"

definition delete_at :: "nat \<Rightarrow> 'a list \<Rightarrow> 'a list" where
  "delete_at i xs = take i xs @ drop (Suc i) xs"

lemma set_insert_at [simp]: "set (insert_at i x xs) = insert x (set xs)"
  unfolding insert_at_def by (metis Un_insert_right append_take_drop_id list.simps(15) set_append)

lemma map_insert_at: "map f (insert_at i x xs) = insert_at i (f x) (map f xs)"
  by (simp add: insert_at_def take_map drop_map)

lemma distinct_insert_at [simp]: "distinct (insert_at i x xs) \<longleftrightarrow> distinct xs \<and> x \<notin> set xs"
proof -
  have *: "distinct (ys @ x # zs) \<longleftrightarrow> distinct (ys @ zs) \<and> x \<notin> set (ys @ zs)" for ys zs by auto
  show ?thesis unfolding insert_at_def * append_take_drop_id ..
qed

lemma length_insert_at [simp]: "length (insert_at i x xs) = Suc (length xs)"
  by (simp add: insert_at_def)

lemma length_delete_at: "i < length xs \<Longrightarrow> length (delete_at i xs) = length xs - 1"
  by (simp add: delete_at_def)

lemma map_delete_at: "map f (delete_at i xs) = delete_at i (map f xs)"
  by (simp add: delete_at_def take_map drop_map)

lemma set_delete_at_subset: "set (delete_at i xs) \<subseteq> set xs"
  by (auto simp: delete_at_def dest: in_set_takeD in_set_dropD)

lemma distinct_delete_at: "distinct xs \<Longrightarrow> distinct (delete_at i xs)"
  by (simp add: delete_at_def set_take_disj_set_drop_if_distinct)

lemma set_delete_at: "distinct xs \<Longrightarrow> i < length xs \<Longrightarrow> set (delete_at i xs) = set xs - {xs ! i}"
proof -
  assume d: "distinct xs" and i: "i < length xs"
  have xs: "xs = take i xs @ xs ! i # drop (Suc i) xs" by (rule id_take_nth_drop [OF i])
  have "distinct (take i xs @ xs ! i # drop (Suc i) xs)" using d xs by simp
  then have "set (take i xs @ xs ! i # drop (Suc i) xs) - {xs ! i} = set (delete_at i xs)"
    by (auto simp: delete_at_def)
  with xs show ?thesis by simp
qed

end
