(* ===== verification/K2pg_Status.thy ===== *)
theory K2pg_Status
  imports Prelude
begin

text \<open>
  Statuses (common/status.h, common/status.cc) and their C view
  (common/k2pg_util.cc).  A status is either OK (a null state pointer) or a
  state that carries a code, a message, a source position and a list of error
  codes.  The error codes are kept the way the code keeps them: a byte run of
  category bytes each followed by its payload, closed by a zero byte, ordered
  by category.  The lemmas show that walking and extending the byte run
  implements a finite map from categories to payloads.

  Outside this theory a \<open>Status\<close> is represented by its code.
\<close>

subsection \<open>Codes\<close>

datatype code =
    kOk | kNotFound | kCorruption | kNotSupported | kInvalidArgument | kIOError
  | kAlreadyPresent | kRuntimeError | kNetworkError | kIllegalState | kNotAuthorized
  | kAborted | kRemoteError | kServiceUnavailable | kTimedOut | kUninitialized
  | kConfigurationError | kIncomplete | kEndOfFile | kInvalidCommand | kQLError
  | kInternalError | kExpired | kLeaderNotReadyToServe | kLeaderHasNoLease | kTryAgain
  | kBusy | kShutdownInProgress | kMergeInProgress | kCombined | kSnapshotTooOld

text \<open>The code table as it is listed: code, value, message.\<close>
definition status_codes :: "(code \<times> nat \<times> string) list" where
  "status_codes =
    [(kOk, 0, ''OK''), (kNotFound, 1, ''Not found''), (kCorruption, 2, ''Corruption''),
     (kNotSupported, 3, ''Not implemented''), (kInvalidArgument, 4, ''Invalid argument''),
     (kIOError, 5, ''IO error''), (kAlreadyPresent, 6, ''Already present''),
     (kRuntimeError, 7, ''Runtime error''), (kNetworkError, 8, ''Network error''),
     (kIllegalState, 9, ''Illegal state''), (kNotAuthorized, 10, ''Not authorized''),
     (kAborted, 11, ''Aborted''), (kRemoteError, 12, ''Remote error''),
     (kServiceUnavailable, 13, ''Service unavailable''), (kTimedOut, 14, ''Timed out''),
     (kUninitialized, 15, ''Uninitialized''), (kConfigurationError, 16, ''Configuration error''),
     (kIncomplete, 17, ''Incomplete''), (kEndOfFile, 18, ''End of file''),
     (kInvalidCommand, 19, ''Invalid command''), (kQLError, 20, ''Query error''),
     (kInternalError, 21, ''Internal error''), (kExpired, 22, ''Operation expired''),
     (kLeaderNotReadyToServe, 23, ''Leader not ready to serve requests.''),
     (kLeaderHasNoLease, 24, ''Leader does not have a valid lease.''),
     (kTryAgain, 25, ''Operation failed. Try again.''), (kBusy, 26, ''Resource busy''),
     (kShutdownInProgress, 27, ''Shutdown in progress''),
     (kMergeInProgress, 28, ''Merge in progress''),
     (kCombined, 29, ''Combined status representing multiple status failures.''),
     (kSnapshotTooOld, 30, ''Snapshot too old'')]"

definition CodeAsCString :: "code \<Rightarrow> string" where
  "CodeAsCString c = snd (the (map_of status_codes c))"

type_synonym 'a result = "code + 'a"

subsection \<open>Error categories\<close>

record category_description =
  cd_name :: string
  cd_decode_size :: "byte list \<Rightarrow> nat"
  cd_to_string :: "byte list \<Rightarrow> string"

type_synonym categories = "byte \<Rightarrow> category_description option"

text \<open>Registration aborts when the category already has a name.\<close>
definition Register :: "byte \<Rightarrow> category_description \<Rightarrow> categories \<Rightarrow> categories checked" where
  "Register i d cats = (if cats i \<noteq> None then None else Some (cats(i \<mapsto> d)))"

definition CategoryName :: "categories \<Rightarrow> byte \<Rightarrow> string" where
  "CategoryName cats c = (case cats c of None \<Rightarrow> ''unknown error category'' | Some d \<Rightarrow> cd_name d)"

text \<open>
  The slice of the error code at the head of the given memory; the empty slice
  at a zero byte.  An unknown non-zero category aborts, and so does reading
  past the end of the memory.
\<close>
fun GetSlice :: "categories \<Rightarrow> byte list \<Rightarrow> byte list checked" where
  "GetSlice cats [] = None"
| "GetSlice cats (c # bs) = (case cats c of
      None \<Rightarrow> if c > 0 then None else Some []
    | Some d \<Rightarrow> if length bs < cd_decode_size d bs then None
               else Some (take (1 + cd_decode_size d bs) (c # bs)))"

definition category_to_string :: "categories \<Rightarrow> byte list \<Rightarrow> string checked" where
  "category_to_string cats sl = (case sl of
      [] \<Rightarrow> None
    | c # bs \<Rightarrow> (case cats c of
          None \<Rightarrow> if c > 0 then None else Some []
        | Some d \<Rightarrow> Some (cd_to_string d bs)))"

text \<open>The range of error codes from begin to end, as its list of slices.\<close>
function error_codes :: "categories \<Rightarrow> byte list \<Rightarrow> byte list list checked" where
  "error_codes cats mem = (case GetSlice cats mem of
      None \<Rightarrow> None
    | Some sl \<Rightarrow> if sl = [] then Some []
                else map_option (Cons sl) (error_codes cats (drop (length sl) mem)))"
  by pat_completeness auto

lemma GetSlice_length: "GetSlice cats mem = Some sl \<Longrightarrow> length sl \<le> length mem"
  by (cases mem) (auto split: option.splits if_splits)

termination error_codes
proof (relation "measure (\<lambda>(_, mem). length mem)")
  fix cats :: categories and mem sl :: "byte list"
  assume "GetSlice cats mem = Some sl" "sl \<noteq> []"
  then show "((cats, drop (length sl) mem), cats, mem) \<in> measure (\<lambda>(_, mem). length mem)"
    by (cases mem) auto
qed simp

declare error_codes.simps [simp del]

subsection \<open>States\<close>

record sstate =
  s_code :: code
  s_file_name :: "string option"
  s_line_number :: int
  s_message :: string
  s_errors :: "byte list"
  s_file_dup :: bool

type_synonym status = "sstate option"

record error_code =
  ec_category :: byte
  ec_size :: nat
  ec_encoded :: "byte list"

definition DoEncode :: "error_code \<Rightarrow> byte list checked" where
  "DoEncode e = (if ec_size e = length (ec_encoded e) then Some (ec_category e # ec_encoded e) else None)"

definition StoreErrors :: "error_code option \<Rightarrow> byte list checked" where
  "StoreErrors err = (case err of
      None \<Rightarrow> Some [0]
    | Some e \<Rightarrow> map_option (\<lambda>bs. bs @ [0]) (DoEncode e))"

text \<open>Creation of a state; \<open>kOk\<close> fails the assertion.\<close>
definition State_Create ::
  "code \<Rightarrow> string option \<Rightarrow> int \<Rightarrow> string \<Rightarrow> string \<Rightarrow> byte list \<Rightarrow> bool \<Rightarrow> sstate checked" where
  "State_Create c file line msg msg2 errors dup =
    (if c = kOk then None
     else Some \<lparr>s_code = c, s_file_name = file, s_line_number = line,
                s_message = msg @ (if msg2 = [] then [] else '': '' @ msg2),
                s_errors = errors, s_file_dup = dup\<rparr>)"

definition Status_make ::
  "code \<Rightarrow> string option \<Rightarrow> int \<Rightarrow> string \<Rightarrow> string \<Rightarrow> error_code option \<Rightarrow> bool \<Rightarrow> status checked" where
  "Status_make c file line msg msg2 err dup = do {
     bs \<leftarrow> StoreErrors err;
     s \<leftarrow> State_Create c file line msg msg2 bs dup;
     Some (Some s) }"

definition ErrorCodesSlice :: "categories \<Rightarrow> sstate \<Rightarrow> byte list checked" where
  "ErrorCodesSlice cats s = do {
     sls \<leftarrow> error_codes cats (s_errors s);
     Some (take (length (concat sls) + 1) (s_errors s)) }"

definition status_ok :: "status \<Rightarrow> bool" where
  "status_ok st = (st = None)"

definition status_code :: "status \<Rightarrow> code" where
  "status_code st = (case st of None \<Rightarrow> kOk | Some s \<Rightarrow> s_code s)"

definition status_message :: "status \<Rightarrow> string" where
  "status_message st = (case st of None \<Rightarrow> [] | Some s \<Rightarrow> s_message s)"

text \<open>Cloning an OK status dereferences a null state and is \<^term>\<open>None\<close>.\<close>
definition CloneAndPrepend :: "categories \<Rightarrow> status \<Rightarrow> string \<Rightarrow> status checked" where
  "CloneAndPrepend cats st msg = do {
     s \<leftarrow> st;
     es \<leftarrow> ErrorCodesSlice cats s;
     s' \<leftarrow> State_Create (s_code s) (s_file_name s) (s_line_number s) msg (s_message s) es (s_file_dup s);
     Some (Some s') }"

definition CloneAndAppend :: "categories \<Rightarrow> status \<Rightarrow> string \<Rightarrow> status checked" where
  "CloneAndAppend cats st msg = do {
     s \<leftarrow> st;
     es \<leftarrow> ErrorCodesSlice cats s;
     s' \<leftarrow> State_Create (s_code s) (s_file_name s) (s_line_number s) (s_message s) msg es (s_file_dup s);
     Some (Some s') }"

text \<open>
  The insertion loop: the slices seen so far have \<open>off\<close> bytes; the result is the
  bytes written to the buffer and the size the code computed for them.
\<close>
fun add_error_loop ::
  "nat \<Rightarrow> byte list list \<Rightarrow> byte list \<Rightarrow> byte \<Rightarrow> byte list \<Rightarrow> byte list \<times> nat" where
  "add_error_loop off [] es cat enc = (butlast es @ enc @ [0], length es + length enc)"
| "add_error_loop off (sl # sls) es cat enc =
    (if cat \<le> hd sl then
       if hd sl \<noteq> cat
       then (take off es @ enc @ drop off es, length es + length enc)
       else (take off es @ enc @ drop (off + length sl) es, length es + length enc - length sl)
     else add_error_loop (off + length sl) sls es cat enc)"

definition CloneAndAddErrorCode :: "categories \<Rightarrow> status \<Rightarrow> error_code \<Rightarrow> status checked" where
  "CloneAndAddErrorCode cats st e = do {
     s \<leftarrow> st;
     sls \<leftarrow> error_codes cats (s_errors s);
     es \<leftarrow> ErrorCodesSlice cats s;
     enc \<leftarrow> DoEncode e;
     let (out, new_size) = add_error_loop 0 sls es (ec_category e) enc in
     if length out \<noteq> new_size then None
     else do {
       s' \<leftarrow> State_Create (s_code s) (s_file_name s) (s_line_number s) (s_message s) []
               (take new_size out) (s_file_dup s);
       Some (Some s') } }"

text \<open>Payload of the first error code of the category, if there is one.\<close>
definition ErrorData :: "categories \<Rightarrow> status \<Rightarrow> byte \<Rightarrow> byte list option checked" where
  "ErrorData cats st cat = (case st of
      None \<Rightarrow> Some None
    | Some s \<Rightarrow> map_option (\<lambda>sls. map_option tl (find (\<lambda>sl. hd sl = cat) sls))
                          (error_codes cats (s_errors s)))"

text \<open>\<open>strstr\<close> for the source root: the text after the first occurrence of the pattern.\<close>
fun after_first :: "string \<Rightarrow> string \<Rightarrow> string option" where
  "after_first pat [] = (if pat = [] then Some [] else None)"
| "after_first pat (c # cs) =
    (if take (length pat) (c # cs) = pat then Some (drop (length pat) (c # cs))
     else after_first pat cs)"

definition Status_ToString :: "categories \<Rightarrow> bool \<Rightarrow> bool \<Rightarrow> status \<Rightarrow> string checked" where
  "Status_ToString cats include_file_and_line include_code st =
    (let r0 = (if include_code then CodeAsCString (status_code st) else []) in
     case st of
       None \<Rightarrow> Some r0
     | Some s \<Rightarrow>
         (let r1 = (case s_file_name s of
               Some f \<Rightarrow> if include_file_and_line \<and> s_line_number s \<noteq> 0
                 then r0 @ (if r0 = [] then ''('' else '' ('')
                   @ (case after_first ''/src/'' f of Some p \<Rightarrow> p | None \<Rightarrow> f)
                   @ '':'' @ int_to_string (s_line_number s) @ '')''
                 else r0
             | None \<Rightarrow> r0);
              r2 = (if r1 = [] then r1 else r1 @ '': '') @ s_message s;
              r3 = (if r2 = [] then CodeAsCString (status_code st) else r2)
          in do {
            sls \<leftarrow> error_codes cats (s_errors s);
            foldl (\<lambda>acc sl. do { r \<leftarrow> acc; t \<leftarrow> category_to_string cats sl;
                               Some (r @ '' ('' @ CategoryName cats (hd sl) @ '' '' @ t @ '')'') })
                  (Some r3) sls }))"

subsection \<open>Error tags\<close>

text \<open>A tag backed by a four byte integer: little endian, fixed size.\<close>
definition integral_Encode :: "32 word \<Rightarrow> byte list" where
  "integral_Encode v = le32 v"

definition integral_Decode :: "byte list option \<Rightarrow> 32 word" where
  "integral_Decode src = (case src of None \<Rightarrow> 0 | Some bs \<Rightarrow> load_le32 bs)"

definition integral_DecodeSize :: "byte list \<Rightarrow> nat" where
  "integral_DecodeSize src = 4"

definition integral_error :: "byte \<Rightarrow> 32 word \<Rightarrow> error_code" where
  "integral_error cat v = \<lparr>ec_category = cat, ec_size = 4, ec_encoded = integral_Encode v\<rparr>"

definition ErrnoTag_kCategory :: byte where "ErrnoTag_kCategory = 1"
definition PgsqlErrorTag_kCategory :: byte where "PgsqlErrorTag_kCategory = 6"
definition TransactionErrorTag_kCategory :: byte where "TransactionErrorTag_kCategory = 7"

text \<open>Enumerators of the transaction errors; any other stored value falls to the default branch.\<close>
datatype txn_error = Txn_kNone | Txn_kAborted | Txn_kReadRestartRequired | Txn_kConflict
  | Txn_kSnapshotTooOld | Txn_other "16 word"

fun txn_error_value :: "txn_error \<Rightarrow> 16 word" where
  "txn_error_value Txn_kNone = 0"
| "txn_error_value Txn_kAborted = 1"
| "txn_error_value Txn_kReadRestartRequired = 2"
| "txn_error_value Txn_kConflict = 3"
| "txn_error_value Txn_kSnapshotTooOld = 4"
| "txn_error_value (Txn_other v) = v"

definition pgsixbit :: "char \<Rightarrow> 32 word" where
  "pgsixbit ch = (of_char ch - 48) AND 0x3F"

definition make_sqlstate :: "char \<Rightarrow> char \<Rightarrow> char \<Rightarrow> char \<Rightarrow> char \<Rightarrow> 32 word" where
  "make_sqlstate c1 c2 c3 c4 c5 =
     pgsixbit c1 + push_bit 6 (pgsixbit c2) + push_bit 12 (pgsixbit c3)
       + push_bit 18 (pgsixbit c4) + push_bit 24 (pgsixbit c5)"

definition K2PG_T_R_SERIALIZATION_FAILURE :: "32 word" where
  "K2PG_T_R_SERIALIZATION_FAILURE = make_sqlstate CHR ''4'' CHR ''0'' CHR ''0'' CHR ''0'' CHR ''1''"
definition K2PG_SNAPSHOT_TOO_OLD :: "32 word" where
  "K2PG_SNAPSHOT_TOO_OLD = make_sqlstate CHR ''7'' CHR ''2'' CHR ''0'' CHR ''0'' CHR ''0''"
definition K2PG_INTERNAL_ERROR :: "32 word" where
  "K2PG_INTERNAL_ERROR = make_sqlstate CHR ''X'' CHR ''X'' CHR ''0'' CHR ''0'' CHR ''0''"

subsection \<open>The C view of a status\<close>

definition K2PgStatusIsOK :: "status \<Rightarrow> bool" where
  "K2PgStatusIsOK s = (status_code s = kOk)"

definition K2PgStatusIsNotFound :: "status \<Rightarrow> bool" where
  "K2PgStatusIsNotFound s = (status_code s = kNotFound)"

definition K2PgStatusIsDuplicateKey :: "status \<Rightarrow> bool" where
  "K2PgStatusIsDuplicateKey s = (status_code s = kAlreadyPresent)"

text \<open>
  The SQLSTATE of a status.  The decoder of the transaction error payload is a
  parameter, since the representation of that enumeration is fixed by a macro of
  the storage platform.
\<close>
definition K2PgStatusPgsqlError ::
  "(byte list \<Rightarrow> txn_error) \<Rightarrow> categories \<Rightarrow> status \<Rightarrow> 32 word checked" where
  "K2PgStatusPgsqlError txn_decode cats s = do {
     pg \<leftarrow> ErrorData cats s PgsqlErrorTag_kCategory;
     let result = (case pg of Some bs \<Rightarrow> integral_Decode (Some bs) | None \<Rightarrow> K2PG_INTERNAL_ERROR) in
     if result = K2PG_INTERNAL_ERROR then do {
       txn \<leftarrow> ErrorData cats s TransactionErrorTag_kCategory;
       Some (case txn of
          None \<Rightarrow> result
        | Some bs \<Rightarrow> (case txn_decode bs of
              Txn_kAborted \<Rightarrow> K2PG_T_R_SERIALIZATION_FAILURE
            | Txn_kReadRestartRequired \<Rightarrow> K2PG_T_R_SERIALIZATION_FAILURE
            | Txn_kConflict \<Rightarrow> K2PG_T_R_SERIALIZATION_FAILURE
            | Txn_kSnapshotTooOld \<Rightarrow> K2PG_SNAPSHOT_TOO_OLD
            | _ \<Rightarrow> K2PG_INTERNAL_ERROR)) }
     else Some result }"

definition K2PgStatusTransactionError ::
  "(byte list \<Rightarrow> txn_error) \<Rightarrow> categories \<Rightarrow> status \<Rightarrow> 16 word checked" where
  "K2PgStatusTransactionError txn_decode cats s = do {
     txn \<leftarrow> ErrorData cats s TransactionErrorTag_kCategory;
     Some (case txn of None \<Rightarrow> 0 | Some bs \<Rightarrow> txn_error_value (txn_decode bs)) }"

definition K2PgIsRestartReadError :: "16 word \<Rightarrow> bool" where
  "K2PgIsRestartReadError e = (e = txn_error_value Txn_kReadRestartRequired)"

text \<open>The duplicated message: the size passed to the allocator and the bytes written.\<close>
definition DupK2PgStatusMessage :: "status \<Rightarrow> bool \<Rightarrow> nat \<times> string" where
  "DupK2PgStatusMessage s message_only =
    (let code_str = CodeAsCString (status_code s);
         len = length (status_message s);
         sz = length code_str + len + 3;
         sz' = (if message_only then sz - (2 + length code_str) else sz)
     in (sz', (if message_only then [] else code_str @ '': '') @ status_message s @ [char_of (0::nat)]))"

subsection \<open>Abstraction: error codes as an ordered map\<close>

definition encode_errors :: "(byte \<times> byte list) list \<Rightarrow> byte list" where
  "encode_errors errs = concat (map (\<lambda>(c, p). c # p) errs) @ [0]"

text \<open>A payload the category decodes to its whole length whatever follows it.\<close>
definition registered :: "categories \<Rightarrow> byte \<times> byte list \<Rightarrow> bool" where
  "registered cats = (\<lambda>(c, p). c \<noteq> 0 \<and>
     (\<exists>d. cats c = Some d \<and> (\<forall>rest. cd_decode_size d (p @ rest) = length p)))"

definition wf_errors :: "categories \<Rightarrow> (byte \<times> byte list) list \<Rightarrow> bool" where
  "wf_errors cats errs = (cats 0 = None \<and> sorted_wrt (<) (map fst errs) \<and>
     (\<forall>e \<in> set errs. registered cats e))"

definition wf_status :: "categories \<Rightarrow> status \<Rightarrow> bool" where
  "wf_status cats st = (case st of None \<Rightarrow> True
     | Some s \<Rightarrow> s_code s \<noteq> kOk \<and> (\<exists>errs. wf_errors cats errs \<and> s_errors s = encode_errors errs))"

fun insert_error :: "byte \<Rightarrow> byte list \<Rightarrow> (byte \<times> byte list) list \<Rightarrow> (byte \<times> byte list) list" where
  "insert_error c p [] = [(c, p)]"
| "insert_error c p (x # xs) =
    (if fst x < c then x # insert_error c p xs
     else if fst x = c then (c, p) # xs
     else (c, p) # x # xs)"

subsection \<open>Lemmas\<close>

lemma error_codes_encode:
  assumes "cats 0 = None" "\<forall>e \<in> set errs. registered cats e"
  shows "error_codes cats (encode_errors errs @ rest) = Some (map (\<lambda>(c, p). c # p) errs)"
  using assms
proof (induction errs)
  case Nil
  then show ?case by (simp add: encode_errors_def error_codes.simps)
next
  case (Cons e errs)
  obtain c p where e: "e = (c, p)" by (cases e)
  from Cons.prems e obtain d where d: "cats c = Some d"
    and sz: "\<And>r. cd_decode_size d (p @ r) = length p"
    by (auto simp: registered_def)
  have "GetSlice cats (c # p @ encode_errors errs @ rest) = Some (c # p)"
    by (simp add: d sz)
  with Cons show ?case
    by (simp add: e encode_errors_def error_codes.simps [of cats "c # _"])
qed

lemmas error_codes_encode0 = error_codes_encode [where rest = "[]", simplified]

lemma map_of_insert_error:
  "sorted_wrt (<) (map fst errs) \<Longrightarrow> map_of (insert_error c p errs) = (map_of errs)(c \<mapsto> p)"
  by (induction errs) (auto simp: fun_eq_iff dest: order_less_imp_not_eq)

lemma set_insert_error: "set (insert_error c p errs) \<subseteq> insert (c, p) (set errs)"
  by (induction errs) auto

lemma sorted_insert_error:
  "sorted_wrt (<) (map fst errs) \<Longrightarrow> sorted_wrt (<) (map fst (insert_error c p errs))"
proof (induction errs)
  case (Cons x xs)
  have "\<forall>y \<in> set (insert_error c p xs). y = (c, p) \<or> y \<in> set xs"
    using set_insert_error by fastforce
  with Cons show ?case by (auto dest: less_trans)
qed simp

lemma wf_insert_error [inv_intros]:
  assumes "wf_errors cats errs" "registered cats (c, p)"
  shows "wf_errors cats (insert_error c p errs)"
  using assms set_insert_error [of c p errs]
  by (auto simp: wf_errors_def sorted_insert_error)

text \<open>The byte-level loop writes the encoding of the ordered insertion.\<close>
lemma add_error_loop_encode:
  assumes "sorted_wrt (<) (map fst (pre @ errs))" "\<forall>x \<in> set pre. fst x < c"
  shows "add_error_loop (length (concat (map (\<lambda>(c, p). c # p) pre))) (map (\<lambda>(c, p). c # p) errs)
           (encode_errors (pre @ errs)) c (c # p) =
         (encode_errors (pre @ insert_error c p errs),
          length (encode_errors (pre @ insert_error c p errs)))"
  using assms
proof (induction errs arbitrary: pre)
  case Nil
  then show ?case by (simp add: encode_errors_def)
next
  case (Cons e errs)
  obtain c' p' where e: "e = (c', p')" by (cases e)
  show ?case
  proof (cases "c' < c")
    case True
    have "sorted_wrt (<) (map fst ((pre @ [e]) @ errs))" "\<forall>x \<in> set (pre @ [e]). fst x < c"
      using Cons.prems True e by auto
    from Cons.IH [OF this] True e show ?thesis by (auto simp: not_le)
  next
    case False
    then show ?thesis by (auto simp: e encode_errors_def)
  qed
qed

lemma ErrorCodesSlice_encode:
  assumes "wf_errors cats errs" "s_errors s = encode_errors errs"
  shows "ErrorCodesSlice cats s = Some (encode_errors errs)"
  using assms error_codes_encode0 [of cats errs]
  by (simp add: ErrorCodesSlice_def wf_errors_def) (simp add: encode_errors_def)

lemma DoEncode_integral: "DoEncode (integral_error c v) = Some (c # le32 v)"
  by (simp add: DoEncode_def integral_error_def integral_Encode_def)

lemma CloneAndAddErrorCode_encode:
  assumes wf: "wf_errors cats errs" and s: "s_errors s = encode_errors errs" "s_code s \<noteq> kOk"
    and sz: "ec_size e = length (ec_encoded e)"
  shows "CloneAndAddErrorCode cats (Some s) e =
    Some (Some (s\<lparr>s_errors := encode_errors (insert_error (ec_category e) (ec_encoded e) errs)\<rparr>))"
proof -
  have "sorted_wrt (<) (map fst errs)" using wf by (simp add: wf_errors_def)
  then have loop: "add_error_loop 0 (map (\<lambda>(c, p). c # p) errs) (encode_errors errs) (ec_category e)
      (ec_category e # ec_encoded e) =
    (encode_errors (insert_error (ec_category e) (ec_encoded e) errs),
     length (encode_errors (insert_error (ec_category e) (ec_encoded e) errs)))"
    using add_error_loop_encode [where pre = "[]" and errs = errs] by simp
  show ?thesis
    using wf sz s loop error_codes_encode0 [of cats errs] ErrorCodesSlice_encode [OF wf s(1)]
    by (simp add: CloneAndAddErrorCode_def DoEncode_def wf_errors_def State_Create_def)
qed

lemma find_slice: "map_option tl (find (\<lambda>sl. hd sl = c) (map (\<lambda>(c, p). c # p) errs)) = map_of errs c"
  by (induction errs) auto

lemma ErrorData_encode:
  assumes "wf_errors cats errs" "s_errors s = encode_errors errs"
  shows "ErrorData cats (Some s) c = Some (map_of errs c)"
  using assms error_codes_encode0 [of cats errs]
  by (simp add: ErrorData_def find_slice wf_errors_def)

text \<open>
  Interface of an error tag: a category whose values encode to bytes that
  decode back, whatever follows them.  Its clients attach values to statuses
  and read them from statuses.
\<close>
locale error_tag =
  fixes kCategory :: byte
    and encode :: "'v \<Rightarrow> byte list"
    and decode :: "byte list option \<Rightarrow> 'v"
    and decode_size :: "byte list \<Rightarrow> nat"
  assumes category_nonzero: "kCategory \<noteq> 0"
    and decode_encode: "decode (Some (encode v)) = v"
    and decode_size_encode: "decode_size (encode v @ rest) = length (encode v)"
begin

definition attach :: "'v \<Rightarrow> error_code" where
  "attach v = \<lparr>ec_category = kCategory, ec_size = length (encode v), ec_encoded = encode v\<rparr>"

lemma registered_attach:
  "cats kCategory = Some d \<Longrightarrow> cd_decode_size d = decode_size \<Longrightarrow> registered cats (kCategory, encode v)"
  by (simp add: registered_def category_nonzero decode_size_encode)

text \<open>A value attached to a status is the value read back; other categories are untouched.\<close>
lemma attach_read:
  assumes wf: "wf_status cats (Some s)" and d: "cats kCategory = Some d" "cd_decode_size d = decode_size"
  obtains st where "CloneAndAddErrorCode cats (Some s) (attach v) = Some st"
    "wf_status cats st" "status_code st = s_code s" "status_message st = s_message s"
    "ErrorData cats st kCategory = Some (Some (encode v))"
    "decode (Some (encode v)) = v"
    "\<And>c. c \<noteq> kCategory \<Longrightarrow> ErrorData cats st c = ErrorData cats (Some s) c"
proof -
  from wf obtain errs where errs: "wf_errors cats errs" "s_errors s = encode_errors errs"
    and code: "s_code s \<noteq> kOk" by (auto simp: wf_status_def)
  let ?errs = "insert_error kCategory (encode v) errs"
  let ?s = "s\<lparr>s_errors := encode_errors ?errs\<rparr>"
  have wf': "wf_errors cats ?errs"
    using errs(1) registered_attach [of cats d v] d by (auto intro: inv_intros)
  have m: "map_of ?errs = (map_of errs)(kCategory \<mapsto> encode v)"
    using errs(1) by (simp add: map_of_insert_error wf_errors_def)
  have data: "ErrorData cats (Some ?s) c = Some (map_of ?errs c)" for c
    using wf' by (simp add: ErrorData_encode)
  show ?thesis
  proof (rule that)
    show "CloneAndAddErrorCode cats (Some s) (attach v) = Some (Some ?s)"
      using CloneAndAddErrorCode_encode [OF errs code] by (simp add: attach_def)
    show "wf_status cats (Some ?s)" using wf' code by (auto simp: wf_status_def)
    show "ErrorData cats (Some ?s) kCategory = Some (Some (encode v))"
      by (simp add: data m)
    show "decode (Some (encode v)) = v" by (rule decode_encode)
    show "ErrorData cats (Some ?s) c = ErrorData cats (Some s) c" if "c \<noteq> kCategory" for c
      using that by (simp add: data m ErrorData_encode [OF errs])
  qed (simp_all add: status_code_def status_message_def)
qed

end

lemma integral_Decode_Encode [simp]: "integral_Decode (Some (integral_Encode v)) = v"
  using load_le32_le32 [of v "[]"] by (simp add: integral_Decode_def integral_Encode_def)

lemma length_integral_Encode: "length (integral_Encode v) = 4"
  by (simp add: integral_Encode_def)

interpretation pgsql_tag: error_tag PgsqlErrorTag_kCategory integral_Encode integral_Decode integral_DecodeSize
  by unfold_locales (simp_all add: PgsqlErrorTag_kCategory_def integral_DecodeSize_def length_integral_Encode)

interpretation errno_tag: error_tag ErrnoTag_kCategory integral_Encode integral_Decode integral_DecodeSize
  by unfold_locales (simp_all add: ErrnoTag_kCategory_def integral_DecodeSize_def length_integral_Encode)

lemma wf_statusE:
  assumes "wf_status cats st" "st \<noteq> None"
  obtains s errs where "st = Some s" "s_code s \<noteq> kOk" "wf_errors cats errs" "s_errors s = encode_errors errs"
  using assms by (auto simp: wf_status_def split: option.splits)

lemma wf_Status_make [inv_intros]:
  assumes "cats 0 = None" "c \<noteq> kOk"
    and "\<forall>e. err = Some e \<longrightarrow> ec_size e = length (ec_encoded e) \<and> registered cats (ec_category e, ec_encoded e)"
  shows "\<exists>st. Status_make c file line msg msg2 err dup = Some st \<and> wf_status cats st"
proof (cases err)
  case None
  have "wf_errors cats []" "encode_errors [] = [0]"
    using assms(1) by (simp_all add: wf_errors_def encode_errors_def)
  with None assms(2) show ?thesis
    by (auto simp: Status_make_def StoreErrors_def State_Create_def wf_status_def)
next
  case (Some e)
  have "wf_errors cats [(ec_category e, ec_encoded e)]"
    using assms Some by (simp add: wf_errors_def)
  moreover have "encode_errors [(ec_category e, ec_encoded e)] = ec_category e # ec_encoded e @ [0]"
    by (simp add: encode_errors_def)
  ultimately show ?thesis
    using Some assms(2,3)
    by (fastforce simp: Status_make_def StoreErrors_def State_Create_def wf_status_def DoEncode_def)
qed

lemma CloneAndPrepend_wf:
  assumes "wf_status cats (Some s)"
  shows "CloneAndPrepend cats (Some s) msg =
    Some (Some (s\<lparr>s_message := msg @ (if s_message s = [] then [] else '': '' @ s_message s)\<rparr>))"
  using assms by (auto simp: wf_status_def CloneAndPrepend_def ErrorCodesSlice_encode State_Create_def)

subsection \<open>Properties\<close>

text \<open>(C22)
  Adding an error code to a failed status updates its map of error codes: the call
  never aborts, the status stays well formed, keeps its code and message, the
  category now reads as the new payload (replacing an older one) and every other
  category reads as before.
\<close>
theorem CloneAndAddErrorCode_updates:
  assumes "wf_status cats st" "st \<noteq> None" "registered cats (c, p)"
  shows "\<exists>st'. CloneAndAddErrorCode cats st \<lparr>ec_category = c, ec_size = length p, ec_encoded = p\<rparr> = Some st'
    \<and> wf_status cats st' \<and> status_code st' = status_code st \<and> status_message st' = status_message st
    \<and> (\<forall>k. ErrorData cats st' k = (if k = c then Some (Some p) else ErrorData cats st k))"
proof -
  from assms(1,2) obtain s errs where s: "st = Some s" "s_code s \<noteq> kOk"
    and errs: "wf_errors cats errs" "s_errors s = encode_errors errs" by (rule wf_statusE)
  let ?errs = "insert_error c p errs"
  have wf': "wf_errors cats ?errs" using errs(1) assms(3) by (rule inv_intros)
  have "map_of ?errs = (map_of errs)(c \<mapsto> p)"
    using errs(1) by (simp add: map_of_insert_error wf_errors_def)
  then show ?thesis
    using wf' s errs CloneAndAddErrorCode_encode [OF errs s(2)]
    by (auto simp: wf_status_def status_code_def status_message_def ErrorData_encode [OF errs]
        ErrorData_encode [OF wf'])
qed

text \<open>
  The three registered categories, with the transaction category at four bytes.
\<close>
definition example_categories :: categories where
  "example_categories =
     [ErrnoTag_kCategory \<mapsto> \<lparr>cd_name = ''system error'', cd_decode_size = integral_DecodeSize, cd_to_string = (\<lambda>_. [])\<rparr>,
      PgsqlErrorTag_kCategory \<mapsto> \<lparr>cd_name = ''pgsql error'', cd_decode_size = integral_DecodeSize, cd_to_string = (\<lambda>_. [])\<rparr>,
      TransactionErrorTag_kCategory \<mapsto> \<lparr>cd_name = ''transaction error'', cd_decode_size = integral_DecodeSize, cd_to_string = (\<lambda>_. [])\<rparr>]"

definition example_status :: status where
  "example_status = Some \<lparr>s_code = kNotFound, s_file_name = Some ''/src/a.cc'', s_line_number = 3,
     s_message = ''missing'', s_errors = encode_errors [(6, le32 7)], s_file_dup = False\<rparr>"

lemmas tag_categories = ErrnoTag_kCategory_def PgsqlErrorTag_kCategory_def TransactionErrorTag_kCategory_def

lemma example_status_wf: "wf_status example_categories example_status"
  unfolding wf_status_def example_status_def
  by (auto simp: wf_errors_def registered_def example_categories_def integral_DecodeSize_def tag_categories
      intro!: exI [of _ "[(6, le32 7)]"])

theorem CloneAndAddErrorCode_updates_witness:
  "\<exists>st'. CloneAndAddErrorCode example_categories example_status
      \<lparr>ec_category = 1, ec_size = length (le32 2), ec_encoded = le32 2\<rparr> = Some st'
    \<and> wf_status example_categories st' \<and> status_code st' = status_code example_status
    \<and> status_message st' = status_message example_status
    \<and> (\<forall>k. ErrorData example_categories st' k =
          (if k = 1 then Some (Some (le32 2)) else ErrorData example_categories example_status k))"
  by (rule CloneAndAddErrorCode_updates [OF example_status_wf])
    (auto simp: example_status_def registered_def example_categories_def integral_DecodeSize_def tag_categories)

text \<open>(C34)
  A PostgreSQL error code attached to a failed status is the SQLSTATE reported to
  the backend, unless it is the generic internal error.
\<close>
theorem K2PgStatusPgsqlError_reports:
  assumes "wf_status cats (Some s)" "cats PgsqlErrorTag_kCategory = Some d"
    "cd_decode_size d = integral_DecodeSize" "v \<noteq> K2PG_INTERNAL_ERROR"
  shows "\<exists>st. CloneAndAddErrorCode cats (Some s) (integral_error PgsqlErrorTag_kCategory v) = Some st
    \<and> K2PgStatusPgsqlError txn_decode cats st = Some v"
proof -
  have att: "pgsql_tag.attach v = integral_error PgsqlErrorTag_kCategory v"
    by (simp add: pgsql_tag.attach_def integral_error_def length_integral_Encode)
  obtain st where "CloneAndAddErrorCode cats (Some s) (pgsql_tag.attach v) = Some st"
    and "ErrorData cats st PgsqlErrorTag_kCategory = Some (Some (integral_Encode v))"
    using pgsql_tag.attach_read [OF assms(1-3)] by metis
  then show ?thesis
    using assms(4) unfolding att by (simp add: K2PgStatusPgsqlError_def)
qed

theorem K2PgStatusPgsqlError_reports_witness:
  "\<exists>st. CloneAndAddErrorCode example_categories example_status
       (integral_error PgsqlErrorTag_kCategory K2PG_SNAPSHOT_TOO_OLD) = Some st
    \<and> K2PgStatusPgsqlError (\<lambda>_. Txn_kNone) example_categories st = Some K2PG_SNAPSHOT_TOO_OLD"
proof -
  obtain s where s: "example_status = Some s" by (simp add: example_status_def)
  have "K2PG_SNAPSHOT_TOO_OLD \<noteq> K2PG_INTERNAL_ERROR"
    by (simp add: K2PG_SNAPSHOT_TOO_OLD_def K2PG_INTERNAL_ERROR_def make_sqlstate_def pgsixbit_def)
  then show ?thesis
    using K2PgStatusPgsqlError_reports [OF example_status_wf [unfolded s]] s
    by (simp add: example_categories_def tag_categories)
qed

text \<open>
  Prefixing a failed status with a message keeps its code and all its error codes.
\<close>
theorem CloneAndPrepend_keeps_errors:
  assumes "wf_status cats (Some s)"
  shows "\<exists>st. CloneAndPrepend cats (Some s) msg = Some st \<and> wf_status cats st
    \<and> status_code st = s_code s
    \<and> status_message st = msg @ (if s_message s = [] then [] else '': '' @ s_message s)
    \<and> (\<forall>c. ErrorData cats st c = ErrorData cats (Some s) c)"
  using assms by (simp add: CloneAndPrepend_wf wf_status_def status_code_def status_message_def ErrorData_def)

theorem CloneAndPrepend_keeps_errors_witness:
  "\<exists>st. CloneAndPrepend example_categories example_status ''GetTable'' = Some st
    \<and> status_code st = kNotFound \<and> status_message st = ''GetTable: missing''"
proof -
  obtain s where s: "example_status = Some s" "s_code s = kNotFound" "s_message s = ''missing''"
    by (simp add: example_status_def)
  show ?thesis
    using CloneAndPrepend_keeps_errors [OF example_status_wf [unfolded s(1)], of "''GetTable''"] s by auto
qed

text \<open>
  The duplicated message of a status exactly fills the buffer the code allocates for
  it, terminating zero included, in both forms.
\<close>
theorem DupK2PgStatusMessage_fills_buffer:
  "length (snd (DupK2PgStatusMessage st message_only)) = fst (DupK2PgStatusMessage st message_only)"
  by (simp add: DupK2PgStatusMessage_def Let_def)

end
