(* ===== verification/Entity_Ids.thy ===== *)
theory Entity_Ids
  imports K2pg_Status
begin

text \<open>
  Postgres object identifiers (entities/entity_ids.h and entity_ids.cc): the
  packing of a database oid and a table oid into a 16-byte uuid, its
  hexadecimal rendering, the parsers that read the oids back, and the row
  mark types.
\<close>

subsection \<open>Constants and types\<close>

datatype PgSystemAttrNum =
    kSelfItemPointer | kObjectId | kMinTransactionId | kMinCommandId | kMaxTransactionId
  | kMaxCommandId | kTableOid | kPgTupleId | kPgRowId | kPgIdxBaseTupleId | kPgUniqueIdxKeySuffix

fun attr_num :: "PgSystemAttrNum \<Rightarrow> int" where
  "attr_num kSelfItemPointer = -1"
| "attr_num kObjectId = -2"
| "attr_num kMinTransactionId = -3"
| "attr_num kMinCommandId = -4"
| "attr_num kMaxTransactionId = -5"
| "attr_num kMaxCommandId = -6"
| "attr_num kTableOid = -7"
| "attr_num kPgTupleId = -8"
| "attr_num kPgRowId = -100"
| "attr_num kPgIdxBaseTupleId = -101"
| "attr_num kPgUniqueIdxKeySuffix = -102"

definition kPgInvalidOid :: oid where "kPgInvalidOid = 0"
definition kPgByteArrayOid :: oid where "kPgByteArrayOid = 17"
definition kTemplate1Oid :: oid where "kTemplate1Oid = 1"
definition kPgProcTableOid :: oid where "kPgProcTableOid = 1255"
definition kUuidVersion :: int where "kUuidVersion = 3"

datatype RowMarkType =
    ROW_MARK_EXCLUSIVE | ROW_MARK_NOKEYEXCLUSIVE | ROW_MARK_SHARE | ROW_MARK_KEYSHARE
  | ROW_MARK_REFERENCE | ROW_MARK_COPY | ROW_MARK_ABSENT

fun IsValidRowMarkType :: "RowMarkType \<Rightarrow> bool" where
  "IsValidRowMarkType ROW_MARK_EXCLUSIVE = True"
| "IsValidRowMarkType ROW_MARK_NOKEYEXCLUSIVE = True"
| "IsValidRowMarkType ROW_MARK_SHARE = True"
| "IsValidRowMarkType ROW_MARK_KEYSHARE = True"
| "IsValidRowMarkType _ = False"

definition RowMarkNeedsPessimisticLock :: "RowMarkType \<Rightarrow> bool" where
  "RowMarkNeedsPessimisticLock m = (IsValidRowMarkType m \<and> m \<noteq> ROW_MARK_KEYSHARE)"

subsection \<open>Packing\<close>

text \<open>A uuid is its sixteen data bytes.\<close>
type_synonym uuid = "byte list"

definition nil_uuid :: uuid where "nil_uuid = replicate 16 0"

definition hex_chars :: string where "hex_chars = ''0123456789abcdef''"

definition UuidSetDatabaseId :: "oid \<Rightarrow> uuid \<Rightarrow> uuid" where
  "UuidSetDatabaseId database_oid d = d
     [0 := ucast (drop_bit 24 database_oid AND 0xFF),
      1 := ucast (drop_bit 16 database_oid AND 0xFF),
      2 := ucast (drop_bit 8 database_oid AND 0xFF),
      3 := ucast (database_oid AND 0xFF)]"

definition UuidSetTableIds :: "oid \<Rightarrow> uuid \<Rightarrow> uuid" where
  "UuidSetTableIds table_oid d = d
     [12 := ucast (drop_bit 24 table_oid AND 0xFF),
      13 := ucast (drop_bit 16 table_oid AND 0xFF),
      14 := ucast (drop_bit 8 table_oid AND 0xFF),
      15 := ucast (table_oid AND 0xFF)]"

fun b2a_hex :: "byte list \<Rightarrow> string" where
  "b2a_hex [] = []"
| "b2a_hex (b # bs) = hex_chars ! unat (drop_bit 4 b) # hex_chars ! unat (b AND 0xF) # b2a_hex bs"

text \<open>Sets variant and version, then prints.\<close>
definition uuid_set_version :: "uuid \<Rightarrow> uuid" where
  "uuid_set_version d =
    (let d1 = d[8 := (d ! 8 AND 0xBF) OR 0x80]
     in d1[6 := (d1 ! 6 AND 0x0F) OR push_bit 4 (word_of_int kUuidVersion)])"

definition UuidToString :: "uuid \<Rightarrow> string" where
  "UuidToString d = b2a_hex (uuid_set_version d)"

text \<open>The generator of random uuids is a parameter.\<close>
definition ObjectIdGenerator_Next :: "uuid \<Rightarrow> bool \<Rightarrow> string" where
  "ObjectIdGenerator_Next generated binary_id =
     (if binary_id then map (\<lambda>b. char_of (unat b)) generated else b2a_hex generated)"

definition GetDatabaseUuid :: "oid \<Rightarrow> string" where
  "GetDatabaseUuid database_oid = UuidToString (UuidSetDatabaseId database_oid nil_uuid)"

definition GetTableUuid :: "oid \<Rightarrow> oid \<Rightarrow> string" where
  "GetTableUuid database_oid table_oid =
     UuidToString (UuidSetTableIds table_oid (UuidSetDatabaseId database_oid nil_uuid))"

definition GetTableId :: "oid \<Rightarrow> string" where
  "GetTableId table_oid = GetTableUuid kPgInvalidOid table_oid"

definition kPgProcTableId :: string where
  "kPgProcTableId = GetTableUuid kTemplate1Oid kPgProcTableOid"

subsection \<open>Parsing\<close>

text \<open>A two digit field of the uuid text; an exception is caught by the caller.\<close>
definition byte_field :: "nat \<Rightarrow> string \<Rightarrow> std_exception + (int \<times> nat)" where
  "byte_field i uuid = (case substr (i * 2) 2 uuid of Inl e \<Rightarrow> Inl e | Inr s \<Rightarrow> stoi16 s)"

text \<open>Aborts (\<^term>\<open>None\<close>) when the variant check fails.\<close>
definition IsPgsqlId :: "string \<Rightarrow> bool checked" where
  "IsPgsqlId uuid =
    (if length uuid \<noteq> 32 then Some False
     else case byte_field 8 uuid of
       Inl _ \<Rightarrow> Some False
     | Inr (variant, pos) \<Rightarrow>
         if \<not> (pos = 2 \<and> variant AND 0xC0 = 0x80) then None
         else case byte_field 6 uuid of
           Inl _ \<Rightarrow> Some False
         | Inr (version, pos) \<Rightarrow> Some (pos = 2 \<and> drop_bit 4 (version AND 0xF0) = kUuidVersion))"

text \<open>An eight digit field at the given offset, when all eight digits are read.\<close>
definition oid_field :: "nat \<Rightarrow> string \<Rightarrow> oid option" where
  "oid_field off uuid = (case substr off 8 uuid of
      Inl _ \<Rightarrow> None
    | Inr s \<Rightarrow> (case stoul16 s of
        Inl _ \<Rightarrow> None
      | Inr (v, pos) \<Rightarrow> if pos = 8 then Some (ucast v) else None))"

definition dcheck_pgsql_id :: "string \<Rightarrow> unit checked" where
  "dcheck_pgsql_id uuid = do { b \<leftarrow> IsPgsqlId uuid; check_that b }"

definition GetDatabaseOidByUuid :: "string \<Rightarrow> oid result checked" where
  "GetDatabaseOidByUuid database_uuid = do {
     dcheck_pgsql_id database_uuid;
     Some (Inr (case oid_field 0 database_uuid of Some v \<Rightarrow> v | None \<Rightarrow> kPgInvalidOid)) }"

definition GetTableOidByTableUuid :: "string \<Rightarrow> oid checked" where
  "GetTableOidByTableUuid table_uuid = do {
     dcheck_pgsql_id table_uuid;
     Some (case oid_field (12 * 2) table_uuid of Some v \<Rightarrow> v | None \<Rightarrow> kPgInvalidOid) }"

definition GetDatabaseOidByTableUuid :: "string \<Rightarrow> oid result checked" where
  "GetDatabaseOidByTableUuid table_uuid = do {
     dcheck_pgsql_id table_uuid;
     Some (case oid_field 0 table_uuid of Some v \<Rightarrow> Inr v | None \<Rightarrow> Inl kInvalidArgument) }"

subsection \<open>Object ids\<close>

record PgObjectId =
  obj_database_oid :: oid
  obj_object_oid :: oid

text \<open>The constructor from a table uuid.\<close>
definition PgObjectId_of_uuid :: "string \<Rightarrow> PgObjectId checked" where
  "PgObjectId_of_uuid table_uuid = do {
     db \<leftarrow> GetDatabaseOidByTableUuid table_uuid;
     tab \<leftarrow> GetTableOidByTableUuid table_uuid;
     Some \<lparr>obj_database_oid = (case db of Inr v \<Rightarrow> v | Inl _ \<Rightarrow> kPgInvalidOid), obj_object_oid = tab\<rparr> }"

definition PgObjectId_ToString :: "PgObjectId \<Rightarrow> string" where
  "PgObjectId_ToString i = ''('' @ digits10 (unat (obj_database_oid i)) @ '', ''
     @ digits10 (unat (obj_object_oid i)) @ '')''"

definition PgObjectId_IsValid :: "PgObjectId \<Rightarrow> bool" where
  "PgObjectId_IsValid i = (obj_database_oid i \<noteq> kPgInvalidOid \<and> obj_object_oid i \<noteq> kPgInvalidOid)"

subsection \<open>Lemmas\<close>

lemma hex_nibble:
  assumes "n < 16"
  shows "hex_val (hex_chars ! n) = Some n"
proof -
  have "\<forall>n \<in> set [0..<16]. hex_val (hex_chars ! n) = Some n" by code_simp
  with assms show ?thesis by simp
qed

lemma nibbles_bounds: "unat (drop_bit 4 (b :: byte)) < 16" "unat (b AND 0xF) < 16"
proof -
  show "unat (drop_bit 4 b) < 16"
    using unsigned_less [of b, where ?'a = nat] by (simp only: unat_drop_bit_div) simp
  show "unat (b AND 0xF) < 16" by (simp only: mask_4_8 unat_and_mask) simp
qed

lemma length_b2a_hex [simp]: "length (b2a_hex bs) = 2 * length bs"
  by (induction bs) auto

lemma b2a_hex_is_hex: "c \<in> set (b2a_hex bs) \<Longrightarrow> is_hex c"
  by (induction bs) (auto simp: is_hex_def hex_nibble nibbles_bounds)

lemma b2a_hex_append: "b2a_hex (xs @ ys) = b2a_hex xs @ b2a_hex ys"
  by (induction xs) auto

lemma take_b2a_hex: "take (2 * n) (b2a_hex bs) = b2a_hex (take n bs)"
proof (induction bs arbitrary: n)
  case (Cons b bs)
  then show ?case by (cases n) simp_all
qed simp

lemma drop_b2a_hex: "drop (2 * n) (b2a_hex bs) = b2a_hex (drop n bs)"
proof (induction bs arbitrary: n)
  case (Cons b bs)
  then show ?case by (cases n) simp_all
qed simp


lemma byte_nibbles: "16 * unat (drop_bit 4 b) + unat (b AND 0xF) = unat (b :: byte)"
  by (simp only: mask_4_8 unat_and_mask unat_drop_bit_div) simp

lemma hex_number_b2a_hex: "hex_number acc (b2a_hex bs) = foldl (\<lambda>a b. 256 * a + unat b) acc bs"
proof (induction bs arbitrary: acc)
  case (Cons b bs)
  have "16 * (16 * acc + unat (drop_bit 4 b)) + unat (b AND 0xF) = 256 * acc + unat b"
    using byte_nibbles [of b] by simp
  with Cons show ?case by (simp add: hex_nibble nibbles_bounds del: distrib_left_numeral)
qed simp

lemma strto_b2a_hex:
  "bs \<noteq> [] \<Longrightarrow> strto_base16 (b2a_hex bs) =
     Inr (False, foldl (\<lambda>a b. 256 * a + unat b) 0 bs, 2 * length bs)"
  by (subst strto_base16_digits) (auto simp: hex_number_b2a_hex dest: b2a_hex_is_hex, cases bs, auto)

definition be32 :: "oid \<Rightarrow> byte list" where
  "be32 w = [ucast (drop_bit 24 w AND 0xFF), ucast (drop_bit 16 w AND 0xFF),
             ucast (drop_bit 8 w AND 0xFF), ucast (w AND 0xFF)]"

lemma unat_ucast_byte: "unat (ucast (w AND 0xFF) :: byte) = unat (w :: oid) mod 256"
  by (simp only: unsigned_ucast_eq mask_4_8 unat_and_mask) (simp add: take_bit_eq_mod)

lemma be32_value: "foldl (\<lambda>a b. 256 * a + unat b) 0 (be32 w) = unat w"
proof -
  have "unat w < 2 ^ 32" using unsigned_less [of w, where ?'a = nat] by simp
  then show ?thesis
    by (simp only: be32_def unat_ucast_byte unat_drop_bit_div foldl.simps) (simp add: base256_digits)
qed

lemma length_be32 [simp]: "length (be32 w) = 4"
  by (simp add: be32_def)

text \<open>The uuid bytes of a table and of a database.\<close>
lemma table_uuid_layout [uuid_simps]:
  "GetTableUuid d t = b2a_hex (be32 d @ [0, 0, 0x30, 0, 0x80, 0, 0, 0] @ be32 t)"
  by (simp add: GetTableUuid_def UuidToString_def uuid_set_version_def UuidSetTableIds_def
      UuidSetDatabaseId_def nil_uuid_def be32_def kUuidVersion_def numeral_eq_Suc)

lemma database_uuid_layout [uuid_simps]:
  "GetDatabaseUuid d = GetTableUuid d 0"
  by (simp add: GetDatabaseUuid_def GetTableUuid_def UuidToString_def uuid_set_version_def UuidSetTableIds_def
      UuidSetDatabaseId_def nil_uuid_def numeral_eq_Suc)

lemma oid_field_b2a_hex:
  assumes "n + 4 \<le> length bs" "take 4 (drop n bs) = be32 w"
  shows "oid_field (2 * n) (b2a_hex bs) = Some w"
proof -
  have sub: "substr (2 * n) 8 (b2a_hex bs) = Inr (b2a_hex (be32 w))"
    using assms take_b2a_hex [of 4 "drop n bs"] by (simp add: substr_def drop_b2a_hex)
  have "be32 w \<noteq> []" by (simp add: be32_def)
  then have "strto_base16 (b2a_hex (be32 w)) = Inr (False, unat w, 8)"
    by (simp add: strto_b2a_hex be32_value)
  moreover have "unat w < 2 ^ 64" using unsigned_less [of w, where ?'a = nat] by simp
  ultimately show ?thesis by (simp add: oid_field_def sub stoul16_def unsigned_ucast_eq take_bit_word_eq_self)
qed

lemma byte_field_b2a_hex:
  assumes "n < length bs"
  shows "byte_field n (b2a_hex bs) = Inr (uint (bs ! n), 2)"
proof -
  have sub: "substr (n * 2) 2 (b2a_hex bs) = Inr (b2a_hex [bs ! n])"
    using assms drop_b2a_hex [of n bs] Cons_nth_drop_Suc [OF assms, symmetric]
    by (simp add: substr_def mult.commute)
  have "strto_base16 (b2a_hex [bs ! n]) = Inr (False, unat (bs ! n), 2)"
    by (subst strto_b2a_hex) simp_all
  moreover have "unat (bs ! n) < 2 ^ 8" using unsigned_less [of "bs ! n", where ?'a = nat] by simp
  ultimately show ?thesis by (simp add: byte_field_def sub stoi16_def)
qed

lemma IsPgsqlId_table_uuid: "IsPgsqlId (GetTableUuid d t) = Some True"
proof -
  let ?bs = "be32 d @ [0, 0, 0x30, 0, 0x80, 0, 0, 0] @ be32 t"
  have "byte_field 8 (b2a_hex ?bs) = Inr (0x80, 2)" "byte_field 6 (b2a_hex ?bs) = Inr (0x30, 2)"
    by (subst byte_field_b2a_hex; simp add: nth_append)+
  then show ?thesis by (simp add: IsPgsqlId_def table_uuid_layout kUuidVersion_def)
qed

lemma table_uuid_fields:
  "oid_field 0 (GetTableUuid d t) = Some d" "oid_field 24 (GetTableUuid d t) = Some t"
  using oid_field_b2a_hex [of 0 "be32 d @ [0, 0, 0x30, 0, 0x80, 0, 0, 0] @ be32 t" d]
    oid_field_b2a_hex [of 12 "be32 d @ [0, 0, 0x30, 0, 0x80, 0, 0, 0] @ be32 t" t]
  by (simp_all add: table_uuid_layout)

lemma table_uuid_parses:
  "GetDatabaseOidByTableUuid (GetTableUuid d t) = Some (Inr d)"
  "GetTableOidByTableUuid (GetTableUuid d t) = Some t"
  "GetDatabaseOidByUuid (GetTableUuid d t) = Some (Inr d)"
  by (simp_all add: GetDatabaseOidByTableUuid_def GetTableOidByTableUuid_def GetDatabaseOidByUuid_def
      dcheck_pgsql_id_def IsPgsqlId_table_uuid table_uuid_fields)

lemma GetTableUuid_inject [simp]: "GetTableUuid d t = GetTableUuid d' t' \<longleftrightarrow> d = d' \<and> t = t'"
  using table_uuid_fields by (metis option.inject)

lemma GetTableId_inject [simp]: "GetTableId t = GetTableId t' \<longleftrightarrow> t = t'"
  by (simp add: GetTableId_def)

lemma GetDatabaseUuid_inject [simp]: "GetDatabaseUuid d = GetDatabaseUuid d' \<longleftrightarrow> d = d'"
  by (simp add: database_uuid_layout)

text \<open>
  Interface of object names: an encoding of oid pairs as strings and the reading
  of an object id from a string, as the catalog and the sessions rely on it.
\<close>
locale object_naming =
  fixes name_of :: "oid \<Rightarrow> oid \<Rightarrow> string"
    and read_name :: "string \<Rightarrow> PgObjectId checked"
  assumes read_name_of: "read_name (name_of d t) = Some \<lparr>obj_database_oid = d, obj_object_oid = t\<rparr>"
begin

lemma name_of_eq_iff: "name_of d t = name_of d' t' \<longleftrightarrow> d = d' \<and> t = t'"
  using read_name_of by (metis PgObjectId.ext_inject option.inject)

text \<open>A registry keyed by names holds at most one entry per object.\<close>
lemma lookup_other:
  "(d, t) \<noteq> (d', t') \<Longrightarrow> (m(name_of d t \<mapsto> v)) (name_of d' t') = m (name_of d' t')"
  by (auto simp: name_of_eq_iff)

end

interpretation table_names: object_naming GetTableUuid PgObjectId_of_uuid
  by unfold_locales (simp add: PgObjectId_of_uuid_def table_uuid_parses)

subsection \<open>Properties\<close>

text \<open>(C12)
  Every table uuid the code generates is recognised as a PostgreSQL id, has 32
  characters, and reads back to exactly the pair of oids it was made from; so
  distinct pairs have distinct uuids.
\<close>
theorem table_uuid_round_trip:
  "IsPgsqlId (GetTableUuid d t) = Some True \<and> length (GetTableUuid d t) = 32
   \<and> GetDatabaseOidByTableUuid (GetTableUuid d t) = Some (Inr d)
   \<and> GetTableOidByTableUuid (GetTableUuid d t) = Some t
   \<and> PgObjectId_of_uuid (GetTableUuid d t) = Some \<lparr>obj_database_oid = d, obj_object_oid = t\<rparr>
   \<and> (GetTableUuid d t = GetTableUuid d' t' \<longleftrightarrow> d = d' \<and> t = t')"
  by (simp add: IsPgsqlId_table_uuid table_uuid_parses table_names.read_name_of)
    (simp add: table_uuid_layout)

text \<open>
  A table id carries no database: it reads back with the invalid database oid and
  the table's oid, and the uuid of a database is the uuid of its invalid table.
\<close>
theorem table_id_and_database_uuid:
  "PgObjectId_of_uuid (GetTableId t) = Some \<lparr>obj_database_oid = kPgInvalidOid, obj_object_oid = t\<rparr>
   \<and> GetDatabaseOidByUuid (GetDatabaseUuid d) = Some (Inr d)
   \<and> GetDatabaseUuid d = GetTableUuid d kPgInvalidOid"
  by (simp add: GetTableId_def table_names.read_name_of database_uuid_layout table_uuid_parses kPgInvalidOid_def)

end
