(* ===== verification/K2_Codes.thy ===== *)
theory K2_Codes
  imports K2pg_Status
begin

text \<open>
  Translation of storage statuses to connector statuses and to response
  statuses (the end of pggate/k2_adapter.cc).  A storage status is represented
  by its numeric code.
\<close>

type_synonym k2_status = int

text \<open>The response statuses of an SQL operation (pggate/pg_op_api.h).\<close>
datatype RequestStatus =
    PGSQL_STATUS_OK | PGSQL_STATUS_SCHEMA_VERSION_MISMATCH | PGSQL_STATUS_RUNTIME_ERROR
  | PGSQL_STATUS_USAGE_ERROR | PGSQL_STATUS_RESTART_REQUIRED_ERROR
  | PGSQL_STATUS_DUPLICATE_KEY_ERROR

definition K2StatusToK2PgStatus :: "k2_status \<Rightarrow> code" where
  "K2StatusToK2PgStatus c =
    (if c = 200 \<or> c = 201 \<or> c = 202 then kOk
     else if c = 400 then kInvalidCommand
     else if c = 403 then kAborted
     else if c = 404 then kNotFound
     else if c = 405 \<or> c = 406 then kInvalidArgument
     else if c = 408 then kTimedOut
     else if c = 409 then kAborted
     else if c = 410 then kServiceUnavailable
     else if c = 412 then kAlreadyPresent
     else if c = 422 then kInvalidArgument
     else if c = 500 then kCorruption
     else if c = 503 then kServiceUnavailable
     else kCorruption)"

definition K2StatusToPGStatus :: "k2_status \<Rightarrow> RequestStatus" where
  "K2StatusToPGStatus c =
    (if c = 200 \<or> c = 201 \<or> c = 202 then PGSQL_STATUS_OK
     else if c = 400 then PGSQL_STATUS_USAGE_ERROR
     else if c = 403 then PGSQL_STATUS_RESTART_REQUIRED_ERROR
     else if c = 404 then PGSQL_STATUS_OK
     else if c = 405 \<or> c = 406 then PGSQL_STATUS_USAGE_ERROR
     else if c = 408 then PGSQL_STATUS_RUNTIME_ERROR
     else if c = 409 then PGSQL_STATUS_RESTART_REQUIRED_ERROR
     else if c = 410 then PGSQL_STATUS_RUNTIME_ERROR
     else if c = 412 then PGSQL_STATUS_DUPLICATE_KEY_ERROR
     else if c = 422 then PGSQL_STATUS_USAGE_ERROR
     else if c = 500 then PGSQL_STATUS_RUNTIME_ERROR
     else if c = 503 then PGSQL_STATUS_RUNTIME_ERROR
     else PGSQL_STATUS_RUNTIME_ERROR)"

lemma K2StatusToK2PgStatus_ok [simp]:
  "K2StatusToK2PgStatus c = kOk \<longleftrightarrow> c \<in> {200, 201, 202}"
  by (simp add: K2StatusToK2PgStatus_def)

lemma K2StatusToPGStatus_ok [simp]:
  "K2StatusToPGStatus c = PGSQL_STATUS_OK \<longleftrightarrow> c \<in> {200, 201, 202, 404}"
  by (simp add: K2StatusToPGStatus_def)

text \<open>
  The two translations agree: they report success for the same storage codes with
  the single exception of "not found", a duplicate key is reported by both exactly
  for a failed precondition, and the codes that require a restart are exactly those
  reported as aborted.
\<close>
theorem status_translations_agree:
  "(K2StatusToPGStatus c = PGSQL_STATUS_OK \<longleftrightarrow>
      K2StatusToK2PgStatus c = kOk \<or> K2StatusToK2PgStatus c = kNotFound)
   \<and> (K2StatusToPGStatus c = PGSQL_STATUS_DUPLICATE_KEY_ERROR \<longleftrightarrow> K2StatusToK2PgStatus c = kAlreadyPresent)
   \<and> (K2StatusToPGStatus c = PGSQL_STATUS_RESTART_REQUIRED_ERROR \<longleftrightarrow> K2StatusToK2PgStatus c = kAborted)"
  by (simp add: K2StatusToPGStatus_def K2StatusToK2PgStatus_def)

end
