(* ===== verification/Pg_Txn.thy ===== *)
theory Pg_Txn
  imports K2_Codes
begin

text \<open>
  The transaction handler (pggate/pg_txn_handler.h, pg_txn_handler.cc): the
  session's view of the storage transaction.  Its adapter is a parameter: the
  calls that begin and end a storage transaction, whose futures may be
  exceptional, and the two status predicates of the storage platform.  The
  properties are an invariant over all sequences of calls, the behaviour of
  commit and abort on every branch, and a protocol on the requests sent to
  storage.
\<close>

subsection \<open>State and adapter\<close>

record ('t, 'w) adapter =
  ad_begin :: "'w \<Rightarrow> 't option \<times> 'w"
  ad_end :: "'t \<Rightarrow> bool \<Rightarrow> 'w \<Rightarrow> k2_status option \<times> 'w"
  ad_is2xxOK :: "k2_status \<Rightarrow> bool"
  ad_OperationNotAllowed :: "k2_status \<Rightarrow> bool"

record 't handler =
  txn :: "'t option"
  txn_in_progress :: bool
  isolation_level :: int
  read_only :: bool
  deferrable :: bool
  txn_already_aborted :: bool
  can_restart :: bool

definition initial_handler :: "'t handler" where
  "initial_handler = \<lparr>txn = None, txn_in_progress = False, isolation_level = 2, read_only = False,
     deferrable = False, txn_already_aborted = False, can_restart = True\<rparr>"

text \<open>
  How a call ends: with a status, with an exception that leaves the handler as it
  is, or in undefined behaviour or an aborted process.
\<close>
datatype outcome = Returned code | Threw | Crashed

type_synonym ('t, 'w) hstate = "'t handler \<times> 'w"

subsection \<open>Operations\<close>

definition ResetTransaction :: "'t handler \<Rightarrow> 't handler" where
  "ResetTransaction h = h\<lparr>read_only := False, txn_in_progress := False,
     txn_already_aborted := False, txn := None, can_restart := True\<rparr>"

definition BeginTransaction :: "('t, 'w) adapter \<Rightarrow> ('t, 'w) hstate \<Rightarrow> outcome \<times> ('t, 'w) hstate" where
  "BeginTransaction ad = (\<lambda>(h, w).
     if txn_in_progress h then (Returned kIllegalState, h, w)
     else let h1 = (ResetTransaction h)\<lparr>txn_in_progress := True\<rparr> in
       case ad_begin ad w of
         (None, w') \<Rightarrow> (Threw, h1, w')
       | (Some t, w') \<Rightarrow> (Returned kOk, h1\<lparr>txn := Some t\<rparr>, w'))"

definition AbortTransaction :: "('t, 'w) adapter \<Rightarrow> ('t, 'w) hstate \<Rightarrow> outcome \<times> ('t, 'w) hstate" where
  "AbortTransaction ad = (\<lambda>(h, w).
     if \<not> txn_in_progress h then (Returned kOk, h, w)
     else if txn_already_aborted h \<or> (txn h \<noteq> None \<and> read_only h)
     then (Returned kOk, ResetTransaction h, w)
     else case txn h of
       None \<Rightarrow> (Crashed, h, w)
     | Some t \<Rightarrow>
        (case ad_end ad t False w of
           (None, w') \<Rightarrow> (Threw, h, w')
         | (Some s, w') \<Rightarrow> (Returned (K2StatusToK2PgStatus s), ResetTransaction h, w')))"

definition CommitTransaction :: "('t, 'w) adapter \<Rightarrow> ('t, 'w) hstate \<Rightarrow> outcome \<times> ('t, 'w) hstate" where
  "CommitTransaction ad = (\<lambda>(h, w).
     if \<not> txn_in_progress h then (Returned kOk, h, w)
     else if txn h \<noteq> None \<and> read_only h then AbortTransaction ad (h, w)
     else case txn h of
       None \<Rightarrow> (Crashed, h, w)
     | Some t \<Rightarrow>
        (case ad_end ad t True w of
           (None, w') \<Rightarrow> (Threw, h, w')
         | (Some s, w') \<Rightarrow>
             (Returned (K2StatusToK2PgStatus s),
              if \<not> ad_is2xxOK ad s
              then (if ad_OperationNotAllowed ad s then h\<lparr>txn_already_aborted := True\<rparr> else h)
              else ResetTransaction h, w')))"

definition RestartTransaction :: "('t, 'w) adapter \<Rightarrow> ('t, 'w) hstate \<Rightarrow> outcome \<times> ('t, 'w) hstate" where
  "RestartTransaction ad = (\<lambda>(h, w).
     if txn h \<noteq> None then
       (case AbortTransaction ad (h, w) of
          (Returned c, s) \<Rightarrow> if c \<noteq> kOk then (Returned c, s) else BeginTransaction ad s
        | (out, s) \<Rightarrow> (out, s))
     else BeginTransaction ad (h, w))"

definition SetIsolationLevel :: "int \<Rightarrow> 't handler \<Rightarrow> 't handler" where
  "SetIsolationLevel level h = h\<lparr>isolation_level := level\<rparr>"

definition SetReadOnly :: "bool \<Rightarrow> 't handler \<Rightarrow> 't handler" where
  "SetReadOnly ro h = h\<lparr>read_only := ro\<rparr>"

definition SetDeferrable :: "bool \<Rightarrow> 't handler \<Rightarrow> 't handler" where
  "SetDeferrable d h = h\<lparr>deferrable := d\<rparr>"

definition EnterSeparateDdlTxnMode :: "'t handler \<Rightarrow> 't handler" where
  "EnterSeparateDdlTxnMode h = h"

definition ExitSeparateDdlTxnMode :: "bool \<Rightarrow> 't handler \<Rightarrow> 't handler" where
  "ExitSeparateDdlTxnMode success h = h"

text \<open>
  The handle for storage operations; starts a transaction when there is none.  A
  failed begin is turned into an exception, and the final check aborts when the
  transaction is not in progress.
\<close>
definition GetTxn :: "('t, 'w) adapter \<Rightarrow> ('t, 'w) hstate \<Rightarrow> outcome \<times> ('t, 'w) hstate" where
  "GetTxn ad = (\<lambda>(h, w).
     if txn h = None then
       (case BeginTransaction ad (h, w) of
          (Returned c, h', w') \<Rightarrow>
             if c \<noteq> kOk then (Threw, h', w')
             else if txn_in_progress h' then (Returned kOk, h', w') else (Crashed, h', w')
        | (out, s) \<Rightarrow> (out, s))
     else if txn_in_progress h then (Returned kOk, h, w) else (Crashed, h, w))"

text \<open>
  The destructor aborts a live transaction; a bad status is only logged, and an
  exception that leaves a destructor ends the process.
\<close>
definition destroy :: "('t, 'w) adapter \<Rightarrow> ('t, 'w) hstate \<Rightarrow> outcome \<times> ('t, 'w) hstate" where
  "destroy ad = (\<lambda>(h, w).
     if txn h \<noteq> None then
       (case AbortTransaction ad (h, w) of
          (Threw, s) \<Rightarrow> (Crashed, s)
        | (Crashed, s) \<Rightarrow> (Crashed, s)
        | (Returned _, s) \<Rightarrow> (Returned kOk, s))
     else (Returned kOk, h, w))"

datatype op = Begin | Commit | Abort | Restart | Set_isolation int | Set_read_only bool
  | Set_deferrable bool | Enter_ddl | Exit_ddl bool | Get_txn | Destroy

fun run_op :: "('t, 'w) adapter \<Rightarrow> op \<Rightarrow> ('t, 'w) hstate \<Rightarrow> outcome \<times> ('t, 'w) hstate" where
  "run_op ad Begin s = BeginTransaction ad s"
| "run_op ad Commit s = CommitTransaction ad s"
| "run_op ad Abort s = AbortTransaction ad s"
| "run_op ad Restart s = RestartTransaction ad s"
| "run_op ad (Set_isolation l) s = (Returned kOk, SetIsolationLevel l (fst s), snd s)"
| "run_op ad (Set_read_only b) s = (Returned kOk, SetReadOnly b (fst s), snd s)"
| "run_op ad (Set_deferrable b) s = (Returned kOk, SetDeferrable b (fst s), snd s)"
| "run_op ad Enter_ddl s = (Returned kOk, EnterSeparateDdlTxnMode (fst s), snd s)"
| "run_op ad (Exit_ddl b) s = (Returned kOk, ExitSeparateDdlTxnMode b (fst s), snd s)"
| "run_op ad Get_txn s = GetTxn ad s"
| "run_op ad Destroy s = destroy ad s"

text \<open>
  States reachable by any sequence of calls, with the outcomes seen on the way;
  a crashed process makes no further call.
\<close>
inductive reach :: "('t, 'w) adapter \<Rightarrow> 'w \<Rightarrow> (op \<times> outcome) list \<Rightarrow> ('t, 'w) hstate \<Rightarrow> bool"
  for ad :: "('t, 'w) adapter" and w0 :: 'w where
  reach_init: "reach ad w0 [] (initial_handler, w0)"
| reach_step: "reach ad w0 tr s \<Longrightarrow> Crashed \<notin> snd ` set tr \<Longrightarrow> run_op ad op s = (out, s') \<Longrightarrow>
    reach ad w0 (tr @ [(op, out)]) s'"

lemmas handler_ops = BeginTransaction_def CommitTransaction_def AbortTransaction_def
  RestartTransaction_def GetTxn_def destroy_def ResetTransaction_def SetIsolationLevel_def
  SetReadOnly_def SetDeferrable_def EnterSeparateDdlTxnMode_def ExitSeparateDdlTxnMode_def


subsection \<open>Requests sent to storage\<close>

datatype 't event = Began 't | Ended 't bool bool | End_threw 't bool

text \<open>An adapter that also records its calls, newest first.\<close>
definition logged :: "('t, 'w) adapter \<Rightarrow> ('t, 'w \<times> 't event list) adapter" where
  "logged ad = \<lparr>
     ad_begin = (\<lambda>(w, l). case ad_begin ad w of
        (None, w') \<Rightarrow> (None, w', l)
      | (Some t, w') \<Rightarrow> (Some t, w', Began t # l)),
     ad_end = (\<lambda>t commit (w, l). case ad_end ad t commit w of
        (None, w') \<Rightarrow> (None, w', End_threw t commit # l)
      | (Some s, w') \<Rightarrow> (Some s, w', Ended t commit (ad_is2xxOK ad s) # l)),
     ad_is2xxOK = ad_is2xxOK ad,
     ad_OperationNotAllowed = ad_OperationNotAllowed ad\<rparr>"

text \<open>The transaction that may still be ended: a failed commit leaves it open.\<close>
fun open_txn :: "'t event list \<Rightarrow> 't option" where
  "open_txn [] = None"
| "open_txn (Began t # l) = Some t"
| "open_txn (Ended t commit ok # l) = (if commit \<and> \<not> ok then open_txn l else None)"
| "open_txn (End_threw t commit # l) = open_txn l"

fun wf_log :: "'t event list \<Rightarrow> bool" where
  "wf_log [] = True"
| "wf_log (Began t # l) = wf_log l"
| "wf_log (Ended t _ _ # l) = (open_txn l = Some t \<and> wf_log l)"
| "wf_log (End_threw t _ # l) = (open_txn l = Some t \<and> wf_log l)"



subsection \<open>Invariants\<close>

definition handler_inv :: "'t handler \<Rightarrow> bool" where
  "handler_inv h = ((txn h \<noteq> None \<longrightarrow> txn_in_progress h) \<and> (txn_already_aborted h \<longrightarrow> txn h \<noteq> None))"

definition settled :: "'t handler \<Rightarrow> bool" where
  "settled h = (handler_inv h \<and> (txn_in_progress h \<longrightarrow> txn h \<noteq> None))"

definition log_inv :: "'t handler \<Rightarrow> 't event list \<Rightarrow> bool" where
  "log_inv h l = (wf_log l \<and> (\<forall>t. txn h = Some t \<longrightarrow> open_txn l = Some t))"


lemmas outcome_splits = if_splits option.splits prod.splits outcome.splits

lemmas primitive_ops = BeginTransaction_def AbortTransaction_def CommitTransaction_def ResetTransaction_def Let_def

text \<open>
  Contract of a state predicate that the primitive calls keep; the composed calls
  and every run then keep it.
\<close>
locale handler_predicate =
  fixes ad :: "('t, 'w) adapter" and P :: "('t, 'w) hstate \<Rightarrow> bool"
  assumes begin_keeps: "P s \<Longrightarrow> BeginTransaction ad s = (out, s') \<Longrightarrow> P s'"
    and abort_keeps: "P s \<Longrightarrow> AbortTransaction ad s = (out, s') \<Longrightarrow> P s'"
    and commit_keeps: "P s \<Longrightarrow> CommitTransaction ad s = (out, s') \<Longrightarrow> P s'"
    and flags_keep: "P (h, w) \<Longrightarrow> P (h\<lparr>read_only := ro, isolation_level := i, deferrable := d\<rparr>, w)"
begin

lemma setters_keep:
  assumes "P (h, w)"
  shows "P (SetIsolationLevel i h, w)" "P (SetReadOnly ro h, w)" "P (SetDeferrable d h, w)"
proof -
  have *: "h\<lparr>isolation_level := i\<rparr> = h\<lparr>read_only := read_only h, isolation_level := i, deferrable := deferrable h\<rparr>"
    "h\<lparr>read_only := ro\<rparr> = h\<lparr>read_only := ro, isolation_level := isolation_level h, deferrable := deferrable h\<rparr>"
    "h\<lparr>deferrable := d\<rparr> = h\<lparr>read_only := read_only h, isolation_level := isolation_level h, deferrable := d\<rparr>"
    by simp_all
  show "P (SetIsolationLevel i h, w)" "P (SetReadOnly ro h, w)" "P (SetDeferrable d h, w)"
    unfolding SetIsolationLevel_def SetReadOnly_def SetDeferrable_def
    by (subst *, rule flags_keep [OF assms])+
qed

lemma restart_keeps: "P s \<Longrightarrow> RestartTransaction ad s = (out, s') \<Longrightarrow> P s'"
  by (auto simp: RestartTransaction_def intro: begin_keeps abort_keeps split: outcome_splits)

lemma get_keeps: "P s \<Longrightarrow> GetTxn ad s = (out, s') \<Longrightarrow> P s'"
  by (auto simp: GetTxn_def intro: begin_keeps split: outcome_splits)

lemma destroy_keeps: "P s \<Longrightarrow> destroy ad s = (out, s') \<Longrightarrow> P s'"
  by (auto simp: destroy_def intro: abort_keeps split: outcome_splits)

lemma run_op_keeps: "P s \<Longrightarrow> run_op ad op s = (out, s') \<Longrightarrow> P s'"
  using setters_keep by (cases op; cases s)
    (auto simp: EnterSeparateDdlTxnMode_def ExitSeparateDdlTxnMode_def
      intro: begin_keeps abort_keeps commit_keeps restart_keeps get_keeps destroy_keeps)

lemma reach_keeps: "reach ad w0 tr s \<Longrightarrow> P (initial_handler, w0) \<Longrightarrow> P s"
  by (induction rule: reach.induct) (auto intro: run_op_keeps)

end

interpretation inv: handler_predicate ad "\<lambda>(h, w). handler_inv h" for ad
  by unfold_locales (auto simp: handler_inv_def primitive_ops split: outcome_splits)

interpretation log: handler_predicate "logged ad" "\<lambda>(h, w, l). log_inv h l" for ad
  by unfold_locales (auto simp: log_inv_def primitive_ops logged_def split: outcome_splits)


lemma settled_begin:
  "settled h \<Longrightarrow> BeginTransaction ad (h, w) = (out, h', w') \<Longrightarrow> out \<noteq> Threw \<Longrightarrow> settled h' \<and> out \<noteq> Crashed"
  by (auto simp: settled_def handler_inv_def primitive_ops split: outcome_splits)

lemma settled_abort:
  "settled h \<Longrightarrow> AbortTransaction ad (h, w) = (out, h', w') \<Longrightarrow> settled h' \<and> out \<noteq> Crashed"
  by (auto simp: settled_def handler_inv_def primitive_ops split: outcome_splits)

lemma settled_commit:
  "settled h \<Longrightarrow> CommitTransaction ad (h, w) = (out, h', w') \<Longrightarrow> settled h' \<and> out \<noteq> Crashed"
  by (auto simp: settled_def handler_inv_def primitive_ops split: outcome_splits)

lemma settled_setters:
  "settled (SetIsolationLevel i h) = settled h" "settled (SetReadOnly ro h) = settled h"
  "settled (SetDeferrable d h) = settled h" "settled (EnterSeparateDdlTxnMode h) = settled h"
  "settled (ExitSeparateDdlTxnMode b h) = settled h"
  by (simp_all add: settled_def handler_inv_def SetIsolationLevel_def SetReadOnly_def SetDeferrable_def
      EnterSeparateDdlTxnMode_def ExitSeparateDdlTxnMode_def)

lemma settled_restart:
  "settled h \<Longrightarrow> RestartTransaction ad (h, w) = (out, h', w') \<Longrightarrow> out \<noteq> Threw \<Longrightarrow> settled h' \<and> out \<noteq> Crashed"
  by (auto simp: RestartTransaction_def dest: settled_abort settled_begin split: outcome_splits)

lemma begun_in_progress:
  "BeginTransaction ad (h, w) = (Returned kOk, h', w') \<Longrightarrow> txn_in_progress h' \<and> txn h' \<noteq> None"
  by (auto simp: BeginTransaction_def Let_def split: outcome_splits)

lemma settled_get:
  assumes "settled h" "GetTxn ad (h, w) = (out, h', w')" "out \<noteq> Threw"
  shows "settled h' \<and> out = Returned kOk \<and> txn h' \<noteq> None"
proof (cases "txn h")
  case None
  with assms show ?thesis
    by (auto simp: GetTxn_def dest: settled_begin begun_in_progress split: outcome_splits)
next
  case (Some t)
  with assms show ?thesis by (auto simp: GetTxn_def settled_def handler_inv_def)
qed

lemma settled_destroy:
  "settled h \<Longrightarrow> destroy ad (h, w) = (out, h', w') \<Longrightarrow> settled h'"
  by (auto simp: destroy_def dest: settled_abort split: outcome_splits)

lemma settled_run_op:
  assumes "settled h" "run_op ad op (h, w) = (out, h', w')" "out \<noteq> Threw"
  shows "settled h' \<and> (out = Crashed \<longrightarrow> op = Destroy)"
  using assms by (cases op)
    (auto simp: settled_setters dest: settled_begin settled_abort settled_commit settled_restart
      settled_get settled_destroy)

lemma settled_initial: "settled initial_handler"
  by (simp add: settled_def handler_inv_def initial_handler_def)

lemma reach_settled:
  "reach ad w0 tr s \<Longrightarrow> Threw \<notin> snd ` set tr \<Longrightarrow>
     settled (fst s) \<and> (\<forall>op. (op, Crashed) \<in> set tr \<longrightarrow> op = Destroy)"
proof (induction rule: reach.induct)
  case (reach_step tr s op out s')
  then show ?case
    using settled_run_op [of "fst s" ad op "snd s" out "fst s'" "snd s'"] by (auto simp: image_iff)
qed (simp add: settled_initial)











subsection \<open>Properties\<close>

text \<open>(C15)
  Over any sequence of calls in which no storage future is exceptional, the handler
  is in progress exactly when it holds a storage transaction, an already aborted
  transaction is still held, and no call crashes except possibly the destructor.
\<close>
theorem handler_runs_settled:
  assumes "reach ad w0 tr (h, w)" "Threw \<notin> snd ` set tr"
  shows "(txn_in_progress h \<longleftrightarrow> txn h \<noteq> None) \<and> (txn_already_aborted h \<longrightarrow> txn h \<noteq> None)
    \<and> (\<forall>op. (op, Crashed) \<in> set tr \<longrightarrow> op = Destroy)"
  using reach_settled [OF assms] by (auto simp: settled_def handler_inv_def)

text \<open>An adapter over a counter: begins number the transactions, ends answer with the world's status.\<close>
definition counter_adapter :: "k2_status \<Rightarrow> (nat, nat) adapter" where
  "counter_adapter answer = \<lparr>ad_begin = (\<lambda>n. (Some n, n + 1)), ad_end = (\<lambda>t commit n. (Some answer, n)),
     ad_is2xxOK = (\<lambda>s. 200 \<le> s \<and> s < 300), ad_OperationNotAllowed = (\<lambda>s. s = 405)\<rparr>"

lemma reach_run: "reach ad w0 tr s \<Longrightarrow> Crashed \<notin> snd ` set tr \<Longrightarrow>
    reach ad w0 (tr @ [(op, fst (run_op ad op s))]) (snd (run_op ad op s))"
  by (cases "run_op ad op s") (auto intro: reach.intros)

lemma counter_run:
  "reach (counter_adapter 405) 7 [(Get_txn, Returned kOk), (Commit, Returned kInvalidArgument)]
     (initial_handler\<lparr>txn := Some 7, txn_in_progress := True, txn_already_aborted := True\<rparr>, 8)"
proof -
  note r1 = reach_run [OF reach_init [of "counter_adapter 405" 7], of Get_txn]
  note r2 = reach_run [OF r1, of Commit]
  show ?thesis
    using r2 by (simp add: counter_adapter_def initial_handler_def GetTxn_def primitive_ops K2StatusToK2PgStatus_def)
qed

theorem handler_runs_settled_witness:
  "txn_in_progress (initial_handler\<lparr>txn := Some (7::nat), txn_in_progress := True, txn_already_aborted := True\<rparr>)
   \<and> txn (initial_handler\<lparr>txn := Some (7::nat), txn_in_progress := True, txn_already_aborted := True\<rparr>) \<noteq> None"
  using handler_runs_settled [OF counter_run] by simp

text \<open>(C1)
  Protocol towards storage, over any sequence of calls and any adapter behaviour: an
  end request is only ever sent for the transaction begun last, and never again once
  storage has answered an abort request for it, with whatever status, or a commit request
  with success.  After a commit that storage refused, and after an end request whose
  future was exceptional, a further end request for the same transaction may be sent.  The
  handle the handler holds, if any, is that open transaction.
\<close>
theorem end_requests_only_for_open_txn:
  assumes "reach (logged ad) (w0, []) tr (h, w, l)"
  shows "wf_log l \<and> (\<forall>t. txn h = Some t \<longrightarrow> open_txn l = Some t)"
  using log.reach_keeps [OF assms] by (simp add: log_inv_def initial_handler_def)

theorem end_requests_only_for_open_txn_witness:
  "wf_log [Ended (3::nat) True False, Began 3] \<and> open_txn [Ended (3::nat) True False, Began 3] = Some 3"
proof -
  let ?ad = "logged (counter_adapter 409)"
  note r1 = reach_run [OF reach_init [of ?ad "(3, [])"], of Get_txn]
  note r2 = reach_run [OF r1, of Commit]
  have "reach ?ad (3, []) [(Get_txn, Returned kOk), (Commit, Returned kAborted)]
     (initial_handler\<lparr>txn := Some 3, txn_in_progress := True\<rparr>, 4, [Ended 3 True False, Began 3])"
    using r2 by (simp add: counter_adapter_def logged_def initial_handler_def GetTxn_def primitive_ops
        K2StatusToK2PgStatus_def)
  from end_requests_only_for_open_txn [OF this] show ?thesis by simp
qed



text \<open>(C37)
  A read-only transaction is never ended in storage: commit and abort only forget the
  handle, whatever the adapter, although the source says the transaction is aborted.
\<close>
theorem read_only_txn_never_ended:
  assumes "txn_in_progress h" "txn h = Some t" "read_only h"
  shows "CommitTransaction (logged ad) (h, w, l) = (Returned kOk, ResetTransaction h, w, l)
   \<and> AbortTransaction (logged ad) (h, w, l) = (Returned kOk, ResetTransaction h, w, l)"
  using assms by (simp add: primitive_ops)

theorem read_only_txn_never_ended_witness:
  "CommitTransaction (logged (counter_adapter 200))
     (initial_handler\<lparr>txn := Some 1, txn_in_progress := True, read_only := True\<rparr>, 2, [Began 1])
   = (Returned kOk, ResetTransaction (initial_handler\<lparr>txn := Some 1, txn_in_progress := True, read_only := True\<rparr>),
      2, [Began 1])"
  using read_only_txn_never_ended
    [of "initial_handler\<lparr>txn := Some 1, txn_in_progress := True, read_only := True\<rparr>" 1 "counter_adapter 200" 2 "[Began 1]"]
  by (simp add: initial_handler_def)

text \<open>(C38)
  When the future of a begin is exceptional the handler is left in progress without a
  transaction, and no later call recovers it: begin, restart and the request for a
  handle fail without touching storage, commit and abort dereference the missing
  transaction.
\<close>
theorem failed_begin_wedges_handler:
  assumes "BeginTransaction ad (h, w) = (Threw, h', w')"
  shows "txn_in_progress h' \<and> txn h' = None
   \<and> BeginTransaction ad' (h', v) = (Returned kIllegalState, h', v)
   \<and> RestartTransaction ad' (h', v) = (Returned kIllegalState, h', v)
   \<and> GetTxn ad' (h', v) = (Threw, h', v)
   \<and> fst (CommitTransaction ad' (h', v)) = Crashed
   \<and> fst (AbortTransaction ad' (h', v)) = Crashed"
  using assms by (auto simp: primitive_ops RestartTransaction_def GetTxn_def split: outcome_splits)

theorem failed_begin_wedges_handler_witness:
  "GetTxn (counter_adapter 200) (initial_handler\<lparr>txn_in_progress := True\<rparr>, 5)
     = (Threw, initial_handler\<lparr>txn_in_progress := True\<rparr>, 5)"
proof -
  let ?broken = "counter_adapter 200\<lparr>ad_begin := (\<lambda>n. (None, n))\<rparr>"
  have "BeginTransaction ?broken (initial_handler, 0) = (Threw, initial_handler\<lparr>txn_in_progress := True\<rparr>, 0)"
    by (simp add: primitive_ops initial_handler_def)
  from failed_begin_wedges_handler [OF this, of "counter_adapter 200" 5] show ?thesis by simp
qed

end
