(* ===== verification/Thread_Pool.thy ===== *)
theory Thread_Pool
  imports Prelude "HOL-Library.Multiset"
begin

text \<open>
  The thread pool of the storage adapter (pggate/k2_thread_pool.h) as a
  transition system: the workers' loop, enqueue, wait and the destructor, with
  the queue mutex and the two condition variables.  Each step is the code
  between two points where another thread can interfere.  The lemmas show the
  queue discipline and that no queued task is left without a worker or a
  notification on its way; two counterexample runs show where the comments and
  the shutdown promise more than the code does.
\<close>

subsection \<open>State\<close>

text \<open>Where a worker is in its loop; \<open>W_wait\<close> is blocked on the queue's condition variable.\<close>
datatype 'a worker =
    W_check           \<comment> \<open>about to test the stop flag\<close>
  | W_lock            \<comment> \<open>about to take the mutex at the top of the body\<close>
  | W_body            \<comment> \<open>holds the mutex, about to look at the queue\<close>
  | W_run 'a          \<comment> \<open>released the mutex and runs a task\<close>
  | W_wait
  | W_woken           \<comment> \<open>notified, about to take the mutex again\<close>
  | W_exit

text \<open>A thread that calls \<open>wait\<close>; \<open>C_wait\<close> is blocked on the second condition variable.\<close>
datatype client = C_idle | C_lock | C_wait | C_returned

text \<open>
  Progress of the destructor: flag set, then all notified, then blocked in the join of
  worker \<open>k\<close>, and at its end with the vector of workers cleared.
\<close>
datatype dtor = D_none | D_flagged | D_join nat | D_done

record 'a pool =
  tasks :: "'a list"
  stop :: bool
  workers :: "'a worker list"
  client :: client
  dtor :: dtor
  pending :: nat             \<comment> \<open>enqueue calls that have pushed but not yet notified\<close>
  enqueued :: "'a list"      \<comment> \<open>history of pushed tasks\<close>
  started :: "'a list"       \<comment> \<open>history of tasks handed to workers\<close>
  finished :: "'a list"      \<comment> \<open>history of tasks completed\<close>

definition initial_pool :: "nat \<Rightarrow> 'a pool" where
  "initial_pool threadCount = \<lparr>tasks = [], stop = False, workers = replicate threadCount W_check,
     client = C_idle, dtor = D_none, pending = 0, enqueued = [], started = [], finished = []\<rparr>"

fun holds_lock :: "'a worker \<Rightarrow> bool" where
  "holds_lock W_body = True"
| "holds_lock _ = False"

definition lock_free :: "'a pool \<Rightarrow> bool" where
  "lock_free s = (\<forall>w \<in> set (workers s). \<not> holds_lock w)"

fun wake :: "'a worker \<Rightarrow> 'a worker" where
  "wake W_wait = W_woken"
| "wake w = w"

subsection \<open>Steps\<close>

text \<open>
  The worker's loop: test of the flag, mutex, a task taken from the front, or
  notification of the waiters and sleep.  A task that throws is caught, so running
  a task always completes.
\<close>
inductive worker_step :: "nat \<Rightarrow> 'a pool \<Rightarrow> 'a pool \<Rightarrow> bool" for i :: nat where
  w_continue: "i < length (workers s) \<Longrightarrow> workers s ! i = W_check \<Longrightarrow> \<not> stop s \<Longrightarrow>
     worker_step i s (s\<lparr>workers := (workers s)[i := W_lock]\<rparr>)"
| w_exit: "i < length (workers s) \<Longrightarrow> workers s ! i = W_check \<Longrightarrow> stop s \<Longrightarrow>
     worker_step i s (s\<lparr>workers := (workers s)[i := W_exit]\<rparr>)"
| w_acquire: "i < length (workers s) \<Longrightarrow> workers s ! i = W_lock \<Longrightarrow> lock_free s \<Longrightarrow>
     worker_step i s (s\<lparr>workers := (workers s)[i := W_body]\<rparr>)"
| w_take: "i < length (workers s) \<Longrightarrow> workers s ! i = W_body \<Longrightarrow> tasks s = t # ts \<Longrightarrow>
     worker_step i s (s\<lparr>tasks := ts, started := started s @ [t], workers := (workers s)[i := W_run t]\<rparr>)"
| w_finish: "i < length (workers s) \<Longrightarrow> workers s ! i = W_run t \<Longrightarrow>
     worker_step i s (s\<lparr>finished := finished s @ [t], workers := (workers s)[i := W_check]\<rparr>)"
| w_sleep: "i < length (workers s) \<Longrightarrow> workers s ! i = W_body \<Longrightarrow> tasks s = [] \<Longrightarrow>
     worker_step i s (s\<lparr>workers := (workers s)[i := W_wait],
        client := (if client s = C_wait then C_lock else client s)\<rparr>)"
| w_resume: "i < length (workers s) \<Longrightarrow> workers s ! i = W_woken \<Longrightarrow> lock_free s \<Longrightarrow>
     worker_step i s (s\<lparr>workers := (workers s)[i := W_check]\<rparr>)"

text \<open>Enqueue: push under the mutex, then notify one sleeper, if there is one.\<close>
inductive enqueue_step :: "'a pool \<Rightarrow> 'a pool \<Rightarrow> bool" where
  e_push: "lock_free s \<Longrightarrow>
     enqueue_step s (s\<lparr>tasks := tasks s @ [t], enqueued := enqueued s @ [t], pending := pending s + 1\<rparr>)"
| e_notify: "0 < pending s \<Longrightarrow> i < length (workers s) \<Longrightarrow> workers s ! i = W_wait \<Longrightarrow>
     enqueue_step s (s\<lparr>pending := pending s - 1, workers := (workers s)[i := W_woken]\<rparr>)"
| e_notify_none: "0 < pending s \<Longrightarrow> W_wait \<notin> set (workers s) \<Longrightarrow>
     enqueue_step s (s\<lparr>pending := pending s - 1\<rparr>)"

text \<open>Wait: under the mutex, return when the queue is empty, else sleep.\<close>
inductive wait_step :: "'a pool \<Rightarrow> 'a pool \<Rightarrow> bool" where
  c_call: "client s = C_idle \<Longrightarrow> wait_step s (s\<lparr>client := C_lock\<rparr>)"
| c_return: "client s = C_lock \<Longrightarrow> lock_free s \<Longrightarrow> tasks s = [] \<Longrightarrow> wait_step s (s\<lparr>client := C_returned\<rparr>)"
| c_sleep: "client s = C_lock \<Longrightarrow> lock_free s \<Longrightarrow> tasks s \<noteq> [] \<Longrightarrow> wait_step s (s\<lparr>client := C_wait\<rparr>)"

text \<open>
  The destructor: the flag and the notification are set without the mutex; then the
  workers are joined in order, each join returning only once that worker has left its
  loop, and the vector is cleared.
\<close>
inductive dtor_step :: "'a pool \<Rightarrow> 'a pool \<Rightarrow> bool" where
  d_flag: "dtor s = D_none \<Longrightarrow> dtor_step s (s\<lparr>stop := True, dtor := D_flagged\<rparr>)"
| d_notify: "dtor s = D_flagged \<Longrightarrow>
     dtor_step s (s\<lparr>dtor := D_join 0, workers := map wake (workers s)\<rparr>)"
| d_join: "dtor s = D_join k \<Longrightarrow> k < length (workers s) \<Longrightarrow> workers s ! k = W_exit \<Longrightarrow>
     dtor_step s (s\<lparr>dtor := D_join (Suc k)\<rparr>)"
| d_clear: "dtor s = D_join (length (workers s)) \<Longrightarrow>
     dtor_step s (s\<lparr>dtor := D_done, workers := []\<rparr>)"

definition pool_step :: "'a pool \<Rightarrow> 'a pool \<Rightarrow> bool" where
  "pool_step s s' = ((\<exists>i. worker_step i s s') \<or> enqueue_step s s' \<or> wait_step s s' \<or> dtor_step s s')"

text \<open>Wake-ups without a notification, which condition variables permit.\<close>
inductive spurious_step :: "'a pool \<Rightarrow> 'a pool \<Rightarrow> bool" where
  s_worker: "i < length (workers s) \<Longrightarrow> workers s ! i = W_wait \<Longrightarrow>
     spurious_step s (s\<lparr>workers := (workers s)[i := W_woken]\<rparr>)"
| s_client: "client s = C_wait \<Longrightarrow> spurious_step s (s\<lparr>client := C_lock\<rparr>)"

inductive pool_reach :: "nat \<Rightarrow> 'a pool \<Rightarrow> bool" for n :: nat where
  pool_init: "pool_reach n (initial_pool n)"
| pool_next: "pool_reach n s \<Longrightarrow> pool_step s s' \<or> spurious_step s s' \<Longrightarrow> pool_reach n s'"

subsection \<open>Invariants\<close>

fun running :: "'a worker \<Rightarrow> 'a multiset" where
  "running (W_run t) = {#t#}"
| "running _ = {#}"

definition running_of :: "'a worker list \<Rightarrow> 'a multiset" where
  "running_of ws = sum_list (map running ws)"

definition owners_of :: "'a worker list \<Rightarrow> nat" where
  "owners_of ws = sum_list (map (\<lambda>w. if holds_lock w then 1 else 0) ws)"

text \<open>The workers the destructor has joined are out of their loop.\<close>
definition joined_inv :: "'a pool \<Rightarrow> bool" where
  "joined_inv s = (\<forall>k. dtor s = D_join k \<longrightarrow> k \<le> length (workers s) \<and> (\<forall>i < k. workers s ! i = W_exit))"

text \<open>Queue discipline and mutual exclusion; the workers exist until the destructor clears them.\<close>
definition queue_inv :: "nat \<Rightarrow> 'a pool \<Rightarrow> bool" where
  "queue_inv n s = ((dtor s = D_done \<or> length (workers s) = n) \<and> enqueued s = started s @ tasks s
     \<and> mset (started s) = mset (finished s) + running_of (workers s) \<and> owners_of (workers s) \<le> 1)"

text \<open>A queued task has an awake worker or a notification on its way.\<close>
definition awake_inv :: "nat \<Rightarrow> 'a pool \<Rightarrow> bool" where
  "awake_inv n s = ((stop s \<or> length (workers s) = n)
     \<and> (\<not> stop s \<and> tasks s \<noteq> [] \<and> 0 < n \<longrightarrow> 0 < pending s \<or> (\<exists>w \<in> set (workers s). w \<noteq> W_wait))
     \<and> (W_exit \<in> set (workers s) \<longrightarrow> stop s))"

lemma lock_free_owners: "lock_free s \<longleftrightarrow> owners_of (workers s) = 0"
  by (auto simp: lock_free_def owners_of_def sum_list_eq_0_iff)

lemma running_of_set:
  "i < length ws \<Longrightarrow> running (ws ! i) = {#} \<Longrightarrow> running_of (ws[i := w]) = running_of ws + running w"
  using sum_list_map_update [of i ws running w] by (simp add: running_of_def)

lemma running_of_unset:
  "i < length ws \<Longrightarrow> ws ! i = W_run t \<Longrightarrow> running w = {#} \<Longrightarrow>
     running_of ws = add_mset t (running_of (ws[i := w]))"
  using sum_list_map_update [of i ws running w] by (simp add: running_of_def)

lemma owners_of_set:
  "i < length ws \<Longrightarrow> \<not> holds_lock (ws ! i) \<Longrightarrow>
     owners_of (ws[i := w]) = owners_of ws + (if holds_lock w then 1 else 0)"
  using sum_list_map_update [of i ws "\<lambda>w. if holds_lock w then 1 else (0::nat)" w] by (simp add: owners_of_def)

lemma owners_of_unset:
  "i < length ws \<Longrightarrow> ws ! i = W_body \<Longrightarrow> \<not> holds_lock w \<Longrightarrow> owners_of ws = Suc (owners_of (ws[i := w]))"
  using sum_list_map_update [of i ws "\<lambda>w. if holds_lock w then 1 else (0::nat)" w] by (simp add: owners_of_def)

lemmas worker_updates = running_of_set owners_of_set

lemma queue_inv_worker [inv_intros]: "worker_step i s s' \<Longrightarrow> queue_inv n s \<Longrightarrow> queue_inv n s'"
proof (induction rule: worker_step.induct)
  case (w_take s t ts)
  then show ?case
    using owners_of_unset [of i "workers s" "W_run t"] by (simp add: queue_inv_def running_of_set)
next
  case (w_finish s t)
  then show ?case
    using running_of_unset [of i "workers s" t W_check] by (simp add: queue_inv_def owners_of_set)
next
  case (w_sleep s)
  then show ?case
    using owners_of_unset [of i "workers s" W_wait] by (simp add: queue_inv_def running_of_set)
qed (simp_all add: queue_inv_def worker_updates lock_free_owners)

lemma queue_inv_enqueue [inv_intros]: "enqueue_step s s' \<Longrightarrow> queue_inv n s \<Longrightarrow> queue_inv n s'"
  by (induction rule: enqueue_step.induct) (simp_all add: queue_inv_def worker_updates)

lemma wake_measures [simp]: "running (wake w) = running w" "holds_lock (wake w) = holds_lock w"
  by (cases w; simp)+

lemma wake_all [simp]: "running_of (map wake ws) = running_of ws" "owners_of (map wake ws) = owners_of ws"
  by (simp_all add: running_of_def owners_of_def comp_def)

lemma queue_inv_wait [inv_intros]: "wait_step s s' \<Longrightarrow> queue_inv n s \<Longrightarrow> queue_inv n s'"
  by (induction rule: wait_step.induct) (simp_all add: queue_inv_def)

lemma exited_measures: "\<forall>i < length ws. ws ! i = W_exit \<Longrightarrow> running_of ws = {#} \<and> owners_of ws = 0"
proof -
  assume "\<forall>i < length ws. ws ! i = W_exit"
  then have "ws = replicate (length ws) W_exit" by (simp add: list_eq_iff_nth_eq)
  moreover have "running_of (replicate n W_exit) = {#} \<and> owners_of (replicate n W_exit) = 0" for n
    by (induction n) (simp_all add: running_of_def owners_of_def)
  ultimately show ?thesis by metis
qed

lemma queue_inv_dtor: "dtor_step s s' \<Longrightarrow> joined_inv s \<Longrightarrow> queue_inv n s \<Longrightarrow> queue_inv n s'"
proof (induction rule: dtor_step.induct)
  case (d_clear s)
  then show ?case using exited_measures [of "workers s"]
    by (simp add: joined_inv_def queue_inv_def) (simp add: running_of_def owners_of_def)
qed (simp_all add: queue_inv_def)

lemma joined_inv_worker: "worker_step i s s' \<Longrightarrow> joined_inv s \<Longrightarrow> joined_inv s'"
  by (induction rule: worker_step.induct) (auto simp: joined_inv_def nth_list_update)

lemma joined_inv_enqueue: "enqueue_step s s' \<Longrightarrow> joined_inv s \<Longrightarrow> joined_inv s'"
  by (induction rule: enqueue_step.induct) (auto simp: joined_inv_def nth_list_update)

lemma joined_inv_wait: "wait_step s s' \<Longrightarrow> joined_inv s \<Longrightarrow> joined_inv s'"
  by (induction rule: wait_step.induct) (auto simp: joined_inv_def)

lemma joined_inv_dtor: "dtor_step s s' \<Longrightarrow> joined_inv s \<Longrightarrow> joined_inv s'"
  by (induction rule: dtor_step.induct) (auto simp: joined_inv_def less_Suc_eq)

lemma joined_inv_spurious: "spurious_step s s' \<Longrightarrow> joined_inv s \<Longrightarrow> joined_inv s'"
  by (induction rule: spurious_step.induct) (auto simp: joined_inv_def nth_list_update)

lemmas joined_inv_steps = joined_inv_worker joined_inv_enqueue joined_inv_wait joined_inv_dtor joined_inv_spurious

lemma reach_joined_inv: "pool_reach n s \<Longrightarrow> joined_inv s"
proof (induction rule: pool_reach.induct)
  case (pool_next s s')
  then show ?case by (auto simp: pool_step_def intro: joined_inv_steps)
qed (simp add: joined_inv_def initial_pool_def)

lemma queue_inv_spurious [inv_intros]: "spurious_step s s' \<Longrightarrow> queue_inv n s \<Longrightarrow> queue_inv n s'"
  by (induction rule: spurious_step.induct) (simp_all add: queue_inv_def worker_updates)

lemma replicate_measures [simp]: "running_of (replicate n W_check) = {#}" "owners_of (replicate n W_check) = 0"
  by (induction n) (simp_all add: running_of_def owners_of_def)

lemma queue_inv_initial: "queue_inv n (initial_pool n)"
  by (simp add: queue_inv_def initial_pool_def)

lemma reach_queue_inv: "pool_reach n s \<Longrightarrow> queue_inv n s"
proof (induction rule: pool_reach.induct)
  case (pool_next s s')
  then show ?case
    using reach_joined_inv [OF pool_next.hyps(1)]
    by (auto simp: pool_step_def intro: inv_intros queue_inv_dtor)
qed (rule queue_inv_initial)


text \<open>Replacing a worker by one that is awake and has not left keeps the second invariant.\<close>
lemma awake_update:
  assumes "i < length ws" "w \<noteq> W_wait"
  shows "\<exists>w \<in> set (ws[i := w]). w \<noteq> W_wait"
  using set_update_memI [OF assms(1), of w] assms(2) by blast

lemma exit_update: "W_exit \<in> set (ws[i := w]) \<Longrightarrow> w \<noteq> W_exit \<Longrightarrow> W_exit \<in> set ws"
  using set_update_subset_insert [of ws i w] by auto

lemma awake_inv_worker [inv_intros]: "worker_step i s s' \<Longrightarrow> awake_inv n s \<Longrightarrow> awake_inv n s'"
  by (induction rule: worker_step.induct)
    (auto simp: awake_inv_def awake_update dest!: exit_update)

lemma awake_inv_enqueue [inv_intros]: "enqueue_step s s' \<Longrightarrow> awake_inv n s \<Longrightarrow> awake_inv n s'"
proof (induction rule: enqueue_step.induct)
  case (e_notify_none s)
  then have "0 < n \<Longrightarrow> \<not> stop s \<Longrightarrow> \<exists>w \<in> set (workers s). w \<noteq> W_wait"
    by (metis awake_inv_def length_pos_if_in_set nth_mem)
  with e_notify_none show ?case by (auto simp: awake_inv_def)
qed (auto simp: awake_inv_def awake_update dest!: exit_update)

lemma awake_inv_wait [inv_intros]: "wait_step s s' \<Longrightarrow> awake_inv n s \<Longrightarrow> awake_inv n s'"
  by (induction rule: wait_step.induct) (auto simp: awake_inv_def)

lemma awake_inv_spurious [inv_intros]: "spurious_step s s' \<Longrightarrow> awake_inv n s \<Longrightarrow> awake_inv n s'"
  by (induction rule: spurious_step.induct) (auto simp: awake_inv_def awake_update dest!: exit_update)

lemma stop_iff_dtor: "pool_reach n s \<Longrightarrow> stop s \<longleftrightarrow> dtor s \<noteq> D_none"
proof (induction rule: pool_reach.induct)
  case (pool_next s s')
  then show ?case
    by (auto simp: pool_step_def elim!: worker_step.cases enqueue_step.cases wait_step.cases
        dtor_step.cases spurious_step.cases)
qed (simp add: initial_pool_def)

lemma awake_inv_dtor: "dtor_step s s' \<Longrightarrow> stop s \<longleftrightarrow> dtor s \<noteq> D_none \<Longrightarrow> awake_inv n s \<Longrightarrow> awake_inv n s'"
  by (induction rule: dtor_step.induct) (auto simp: awake_inv_def)

lemma reach_awake_inv: "pool_reach n s \<Longrightarrow> awake_inv n s"
proof (induction rule: pool_reach.induct)
  case pool_init
  then show ?case by (simp add: awake_inv_def initial_pool_def)
next
  case (pool_next s s')
  then show ?case
    using stop_iff_dtor [OF pool_next.hyps(1)]
    by (auto simp: pool_step_def intro: inv_intros awake_inv_dtor)
qed

subsection \<open>Properties\<close>

text \<open>(C21)
  In every interleaving the tasks are handed to workers exactly once and in the order
  they were enqueued, every started task is either finished or running, and at most
  one worker holds the mutex.
\<close>
theorem pool_runs_tasks_in_order:
  assumes "pool_reach n s"
  shows "enqueued s = started s @ tasks s
    \<and> mset (started s) = mset (finished s) + running_of (workers s) \<and> owners_of (workers s) \<le> 1"
  using reach_queue_inv [OF assms] by (simp add: queue_inv_def)

text \<open>One worker takes the only task.\<close>
lemma run_worker: "pool_reach n s \<Longrightarrow> worker_step i s s' \<Longrightarrow> pool_reach n s'"
  by (rule pool_next) (auto simp: pool_step_def)

lemma run_enqueue: "pool_reach n s \<Longrightarrow> enqueue_step s s' \<Longrightarrow> pool_reach n s'"
  by (rule pool_next) (auto simp: pool_step_def)

lemma run_wait: "pool_reach n s \<Longrightarrow> wait_step s s' \<Longrightarrow> pool_reach n s'"
  by (rule pool_next) (auto simp: pool_step_def)

lemma run_dtor: "pool_reach n s \<Longrightarrow> dtor_step s s' \<Longrightarrow> pool_reach n s'"
  by (rule pool_next) (auto simp: pool_step_def)

abbreviation one_worker :: "nat list \<Rightarrow> nat worker \<Rightarrow> client \<Rightarrow> nat list \<Rightarrow> nat pool" where
  "one_worker ts w c ss \<equiv> \<lparr>tasks = ts, stop = False, workers = [w], client = c, dtor = D_none,
     pending = 1, enqueued = [5], started = ss, finished = []\<rparr>"

lemma reach_queued: "pool_reach 1 (one_worker [5] W_check C_idle [])"
proof -
  have "enqueue_step (initial_pool 1) (one_worker [5] W_check C_idle [])"
    using e_push [of "initial_pool 1 :: nat pool" 5] by (simp add: initial_pool_def lock_free_def)
  then show ?thesis by (rule run_enqueue [OF pool_init])
qed

lemma reach_running: "pool_reach 1 (one_worker [] (W_run 5) C_idle [5])"
proof -
  have "worker_step 0 (one_worker [5] W_check C_idle []) (one_worker [5] W_lock C_idle [])"
    using w_continue [of 0 "one_worker [5] W_check C_idle []"] by simp
  from run_worker [OF reach_queued this] have r: "pool_reach 1 (one_worker [5] W_lock C_idle [])" .
  have "worker_step 0 (one_worker [5] W_lock C_idle []) (one_worker [5] W_body C_idle [])"
    using w_acquire [of 0 "one_worker [5] W_lock C_idle []"] by (simp add: lock_free_def)
  from run_worker [OF r this] have r: "pool_reach 1 (one_worker [5] W_body C_idle [])" .
  have "worker_step 0 (one_worker [5] W_body C_idle []) (one_worker [] (W_run 5) C_idle [5])"
    using w_take [of 0 "one_worker [5] W_body C_idle []" 5 "[]"] by simp
  from run_worker [OF r this] show ?thesis .
qed

theorem pool_runs_tasks_in_order_witness:
  "enqueued (one_worker [] (W_run 5) C_idle [5]) = started (one_worker [] (W_run 5) C_idle [5])
   \<and> mset [5::nat] = running_of [W_run 5]"
  using pool_runs_tasks_in_order [OF reach_running] by simp

text \<open>(C30)
  No lost wake-up for tasks: while the pool is not being destroyed, a queued task
  always finds a worker that is awake or a notification still to be delivered.
\<close>
theorem queued_task_not_forgotten:
  assumes "pool_reach n s" "0 < n" "\<not> stop s" "tasks s \<noteq> []"
  shows "0 < pending s \<or> (\<exists>w \<in> set (workers s). w \<noteq> W_wait \<and> w \<noteq> W_exit)"
  using reach_awake_inv [OF assms(1)] assms(2-) by (auto simp: awake_inv_def)

theorem queued_task_not_forgotten_witness:
  "0 < pending (one_worker [5] W_check C_idle [])
   \<or> (\<exists>w \<in> set (workers (one_worker [5] W_check C_idle [])). w \<noteq> W_wait \<and> w \<noteq> W_exit)"
  by (rule queued_task_not_forgotten [OF reach_queued]) simp_all

text \<open>
  \<open>wait\<close> can return while a task is still running: it waits for the queue to be empty,
  not for the tasks to complete, although its comment promises the latter.
\<close>
theorem wait_returns_with_task_running:
  "\<exists>s :: nat pool. pool_reach 1 s \<and> client s = C_returned \<and> W_run 5 \<in> set (workers s)
     \<and> 5 \<in> set (enqueued s) \<and> 5 \<notin> set (finished s)"
proof -
  have "wait_step (one_worker [] (W_run 5) C_idle [5]) (one_worker [] (W_run 5) C_lock [5])"
    using c_call [of "one_worker [] (W_run 5) C_idle [5]"] by simp
  from run_wait [OF reach_running this] have r: "pool_reach 1 (one_worker [] (W_run 5) C_lock [5])" .
  have "wait_step (one_worker [] (W_run 5) C_lock [5]) (one_worker [] (W_run 5) C_returned [5])"
    using c_return [of "one_worker [] (W_run 5) C_lock [5]"] by (simp add: lock_free_def)
  from run_wait [OF r this] show ?thesis
    by (intro exI [of _ "one_worker [] (W_run 5) C_returned [5]"]) simp
qed

text \<open>The steps left when nothing is enqueued any more and no sleeper wakes up by itself.\<close>
definition quiet_step :: "'a pool \<Rightarrow> 'a pool \<Rightarrow> bool" where
  "quiet_step s s' = ((\<exists>i. worker_step i s s') \<or> wait_step s s' \<or> dtor_step s s')"

lemma quiet_reach: "quiet_step\<^sup>*\<^sup>* s s' \<Longrightarrow> P s \<Longrightarrow> (\<And>a b. P a \<Longrightarrow> quiet_step a b \<Longrightarrow> P b) \<Longrightarrow> P s'"
  by (induction rule: rtranclp.induct) auto

lemma sleeper_never_joined:
  "quiet_step\<^sup>*\<^sup>* s s' \<Longrightarrow> dtor s = D_join 0 \<Longrightarrow> workers s = [W_wait] \<Longrightarrow> dtor s' = D_join 0 \<and> workers s' = [W_wait]"
  by (erule quiet_reach)
    (auto simp: quiet_step_def elim!: worker_step.cases wait_step.cases dtor_step.cases)

abbreviation idle_pool :: "bool \<Rightarrow> dtor \<Rightarrow> nat worker list \<Rightarrow> nat pool" where
  "idle_pool st d ws \<equiv> \<lparr>tasks = [], stop = st, workers = ws, client = C_idle, dtor = d,
     pending = 0, enqueued = [], started = [], finished = []\<rparr>"

text \<open>The worker has tested the flag and holds the mutex when the destructor sets and notifies.\<close>
lemma reach_missed_notification: "pool_reach 1 (idle_pool True (D_join 0) [W_wait])"
proof -
  have "pool_reach 1 (idle_pool False D_none [W_check])"
    using pool_init [of 1] by (simp add: initial_pool_def)
  moreover have "worker_step 0 (idle_pool False D_none [W_check]) (idle_pool False D_none [W_lock])"
    using w_continue [of 0 "idle_pool False D_none [W_check]"] by simp
  ultimately have "pool_reach 1 (idle_pool False D_none [W_lock])" by (rule run_worker)
  moreover have "worker_step 0 (idle_pool False D_none [W_lock]) (idle_pool False D_none [W_body])"
    using w_acquire [of 0 "idle_pool False D_none [W_lock]"] by (simp add: lock_free_def)
  ultimately have "pool_reach 1 (idle_pool False D_none [W_body])" by (rule run_worker)
  moreover have "dtor_step (idle_pool False D_none [W_body]) (idle_pool True D_flagged [W_body])"
    using d_flag [of "idle_pool False D_none [W_body]"] by simp
  ultimately have "pool_reach 1 (idle_pool True D_flagged [W_body])" by (rule run_dtor)
  moreover have "dtor_step (idle_pool True D_flagged [W_body]) (idle_pool True (D_join 0) [W_body])"
    using d_notify [of "idle_pool True D_flagged [W_body]"] by simp
  ultimately have "pool_reach 1 (idle_pool True (D_join 0) [W_body])" by (rule run_dtor)
  moreover have "worker_step 0 (idle_pool True (D_join 0) [W_body]) (idle_pool True (D_join 0) [W_wait])"
    using w_sleep [of 0 "idle_pool True (D_join 0) [W_body]"] by simp
  ultimately show ?thesis by (rule run_worker)
qed

text \<open>A worker that wakes up leaves its loop, and the destructor completes.\<close>
lemma woken_worker_joined: "quiet_step\<^sup>*\<^sup>* (idle_pool True (D_join 0) [W_woken]) (idle_pool True D_done [])"
proof -
  have "worker_step 0 (idle_pool True (D_join 0) [W_woken]) (idle_pool True (D_join 0) [W_check])"
    using w_resume [of 0 "idle_pool True (D_join 0) [W_woken]"] by (simp add: lock_free_def)
  moreover have "worker_step 0 (idle_pool True (D_join 0) [W_check]) (idle_pool True (D_join 0) [W_exit])"
    using w_exit [of 0 "idle_pool True (D_join 0) [W_check]"] by simp
  moreover have "dtor_step (idle_pool True (D_join 0) [W_exit]) (idle_pool True (D_join 1) [W_exit])"
    using d_join [of "idle_pool True (D_join 0) [W_exit]" 0] by simp
  moreover have "dtor_step (idle_pool True (D_join 1) [W_exit]) (idle_pool True D_done [])"
    using d_clear [of "idle_pool True (D_join 1) [W_exit]"] by simp
  ultimately show ?thesis by (meson quiet_step_def converse_rtranclp_into_rtranclp rtranclp.rtrancl_refl)
qed

text \<open>(C39)
  The destructor of a pool with one worker can hang: it sets the flag and notifies without
  the mutex, so a worker between its test of the flag and its sleep misses the
  notification.  From the state reached then, whatever steps of the worker, of a thread in
  wait and of the destructor follow, the destructor stays in the join of that worker and
  the worker asleep.  Only a wake-up from outside frees it: after a spurious wake-up of the
  condition variable (which the standard permits and does not promise) the worker leaves
  its loop, the join returns and the destructor can complete; a notification by a later
  enqueue would wake it as well.
\<close>
theorem destructor_can_hang:
  "\<exists>s :: nat pool. pool_reach 1 s \<and> dtor s = D_join 0 \<and> workers s = [W_wait]
     \<and> {s'. quiet_step\<^sup>*\<^sup>* s s'} \<subseteq> {s'. dtor s' = D_join 0 \<and> workers s' = [W_wait]}
     \<and> (\<exists>s1 s2. spurious_step s s1 \<and> quiet_step\<^sup>*\<^sup>* s1 s2 \<and> dtor s2 = D_done \<and> workers s2 = [])"
proof -
  let ?s = "idle_pool True (D_join 0) [W_wait]"
  have "{s'. quiet_step\<^sup>*\<^sup>* ?s s'} \<subseteq> {s'. dtor s' = D_join 0 \<and> workers s' = [W_wait]}"
    using sleeper_never_joined [of ?s] by auto
  moreover have "spurious_step ?s (idle_pool True (D_join 0) [W_woken])"
    using s_worker [of 0 ?s] by simp
  ultimately show ?thesis
    using reach_missed_notification woken_worker_joined
    by (intro exI [of _ ?s] conjI exI [of _ "idle_pool True (D_join 0) [W_woken]"] exI [of _ "idle_pool True D_done []"]) simp_all
qed

end
