(* ===== verification/Sql_Types.thy ===== *)
theory Sql_Types
  imports K2pg_Status
begin

text \<open>
  The SQL type system (entities/data_type.h, type.h, type.cc, types.h,
  types.cc): data type codes, parametric types, type traits with their
  comparison functions, and the variant that holds a default value.
  Constructors \<open>DT_X\<close> stand for \<open>K2SQL_DATA_TYPE_X\<close>.
\<close>

subsection \<open>Data types\<close>

datatype DataType =
    DT_NOT_SUPPORTED | DT_UNKNOWN_DATA | DT_NULL_VALUE_TYPE | DT_INT8 | DT_INT16 | DT_INT32
  | DT_INT64 | DT_STRING | DT_BOOL | DT_FLOAT | DT_DOUBLE | DT_BINARY | DT_TIMESTAMP | DT_DECIMAL
  | DT_LIST | DT_MAP | DT_SET | DT_DATE | DT_TIME | DT_UINT8 | DT_UINT16 | DT_UINT32 | DT_UINT64

fun DataType_value :: "DataType \<Rightarrow> int" where
  "DataType_value DT_NOT_SUPPORTED = -1"
| "DataType_value DT_UNKNOWN_DATA = 999"
| "DataType_value DT_NULL_VALUE_TYPE = 0"
| "DataType_value DT_INT8 = 1"
| "DataType_value DT_INT16 = 2"
| "DataType_value DT_INT32 = 3"
| "DataType_value DT_INT64 = 4"
| "DataType_value DT_STRING = 5"
| "DataType_value DT_BOOL = 6"
| "DataType_value DT_FLOAT = 7"
| "DataType_value DT_DOUBLE = 8"
| "DataType_value DT_BINARY = 9"
| "DataType_value DT_TIMESTAMP = 10"
| "DataType_value DT_DECIMAL = 11"
| "DataType_value DT_LIST = 14"
| "DataType_value DT_MAP = 15"
| "DataType_value DT_SET = 16"
| "DataType_value DT_DATE = 23"
| "DataType_value DT_TIME = 24"
| "DataType_value DT_UINT8 = 100"
| "DataType_value DT_UINT16 = 101"
| "DataType_value DT_UINT32 = 102"
| "DataType_value DT_UINT64 = 103"

text \<open>The enumerator of a stored number, if there is one.\<close>
definition all_data_types :: "DataType list" where
  "all_data_types = [DT_NOT_SUPPORTED, DT_UNKNOWN_DATA, DT_NULL_VALUE_TYPE, DT_INT8, DT_INT16, DT_INT32,
     DT_INT64, DT_STRING, DT_BOOL, DT_FLOAT, DT_DOUBLE, DT_BINARY, DT_TIMESTAMP, DT_DECIMAL,
     DT_LIST, DT_MAP, DT_SET, DT_DATE, DT_TIME, DT_UINT8, DT_UINT16, DT_UINT32, DT_UINT64]"

definition DataType_of_value :: "int \<Rightarrow> DataType option" where
  "DataType_of_value v = find (\<lambda>t. DataType_value t = v) all_data_types"

fun ToDataTypeString :: "DataType \<Rightarrow> string" where
  "ToDataTypeString DT_UNKNOWN_DATA = ''unknown''"
| "ToDataTypeString DT_NULL_VALUE_TYPE = ''anytype''"
| "ToDataTypeString DT_INT8 = ''tinyint''"
| "ToDataTypeString DT_INT16 = ''smallint''"
| "ToDataTypeString DT_INT32 = ''int''"
| "ToDataTypeString DT_INT64 = ''bigint''"
| "ToDataTypeString DT_UINT32 = ''uint32''"
| "ToDataTypeString DT_STRING = ''text''"
| "ToDataTypeString DT_BOOL = ''boolean''"
| "ToDataTypeString DT_FLOAT = ''float''"
| "ToDataTypeString DT_DOUBLE = ''double''"
| "ToDataTypeString DT_BINARY = ''blob''"
| "ToDataTypeString DT_TIMESTAMP = ''timestamp''"
| "ToDataTypeString DT_DECIMAL = ''decimal''"
| "ToDataTypeString DT_LIST = ''list''"
| "ToDataTypeString DT_MAP = ''map''"
| "ToDataTypeString DT_SET = ''set''"
| "ToDataTypeString DT_DATE = ''date''"
| "ToDataTypeString DT_TIME = ''time''"
| "ToDataTypeString _ = ''unknown''"

text \<open>Enumerators compare by their values, as in the source.\<close>
lemma DataType_of_value_inverse: "DataType_of_value (DataType_value t) = Some t"
  by (cases t) (simp_all add: DataType_of_value_def all_data_types_def)

lemma DataType_value_inject: "DataType_value t = DataType_value u \<longleftrightarrow> t = u"
  using DataType_of_value_inverse by (metis option.inject)

instantiation DataType :: linorder
begin

definition less_eq_DataType :: "DataType \<Rightarrow> DataType \<Rightarrow> bool" where
  "less_eq_DataType t u = (DataType_value t \<le> DataType_value u)"

definition less_DataType :: "DataType \<Rightarrow> DataType \<Rightarrow> bool" where
  "less_DataType t u = (DataType_value t < DataType_value u)"

instance
  by standard (auto simp: less_eq_DataType_def less_DataType_def DataType_value_inject)

end

definition IsInteger :: "DataType \<Rightarrow> bool" where
  "IsInteger t = (DT_INT8 \<le> t \<and> t \<le> DT_INT64)"

definition IsNumeric :: "DataType \<Rightarrow> bool" where
  "IsNumeric t = (IsInteger t \<or> t = DT_FLOAT \<or> t = DT_DOUBLE \<or> t = DT_DECIMAL)"

definition IsNull :: "DataType \<Rightarrow> bool" where
  "IsNull t = (t = DT_NULL_VALUE_TYPE)"

definition IsUnknown :: "DataType \<Rightarrow> bool" where
  "IsUnknown t = (t = DT_UNKNOWN_DATA)"

fun IsValidPrimaryType :: "DataType \<Rightarrow> bool" where
  "IsValidPrimaryType DT_MAP = False"
| "IsValidPrimaryType DT_SET = False"
| "IsValidPrimaryType DT_LIST = False"
| "IsValidPrimaryType _ = True"

subsection \<open>Parametric types\<close>

datatype SQLType = SQLType (type_id: DataType) (params: "SQLType list")

definition CreateTypeMap :: "SQLType \<Rightarrow> SQLType \<Rightarrow> SQLType" where
  "CreateTypeMap key_type value_type = SQLType DT_MAP [key_type, value_type]"

definition CreateTypeList :: "SQLType \<Rightarrow> SQLType" where
  "CreateTypeList value_type = SQLType DT_LIST [value_type]"

definition CreateTypeSet :: "SQLType \<Rightarrow> SQLType" where
  "CreateTypeSet value_type = SQLType DT_SET [value_type]"

text \<open>Default parametric types range over the unknown type.\<close>
definition unknown_type :: SQLType where "unknown_type = SQLType DT_UNKNOWN_DATA []"

fun Create :: "DataType \<Rightarrow> SQLType checked" where
  "Create DT_LIST = Some (CreateTypeList unknown_type)"
| "Create DT_MAP = Some (CreateTypeMap unknown_type unknown_type)"
| "Create DT_SET = Some (CreateTypeSet unknown_type)"
| "Create DT_NOT_SUPPORTED = None"
| "Create t = Some (SQLType t [])"

definition Create_params :: "DataType \<Rightarrow> SQLType list \<Rightarrow> SQLType checked" where
  "Create_params t ps = (case t of
      DT_LIST \<Rightarrow> if length ps = 1 then Some (SQLType DT_LIST ps) else None
    | DT_MAP \<Rightarrow> if length ps = 2 then Some (SQLType DT_MAP ps) else None
    | DT_SET \<Rightarrow> if length ps = 1 then Some (SQLType DT_SET ps) else None
    | _ \<Rightarrow> if length ps = 0 then Create t else None)"

definition IsCollection :: "DataType \<Rightarrow> bool" where
  "IsCollection t = (t = DT_MAP \<or> t = DT_SET \<or> t = DT_LIST)"

text \<open>Type of the keys and of the values; \<^term>\<open>Some None\<close> is a null pointer.\<close>
definition keys_type :: "SQLType \<Rightarrow> SQLType option checked" where
  "keys_type ty = (case type_id ty of
      DT_MAP \<Rightarrow> if 0 < length (params ty) then Some (Some (params ty ! 0)) else None
    | DT_LIST \<Rightarrow> map_option Some (Create DT_INT32)
    | _ \<Rightarrow> Some None)"

definition values_type :: "SQLType \<Rightarrow> SQLType option checked" where
  "values_type ty = (case type_id ty of
      DT_MAP \<Rightarrow> if 1 < length (params ty) then Some (Some (params ty ! 1)) else None
    | DT_LIST \<Rightarrow> if 0 < length (params ty) then Some (Some (params ty ! 0)) else None
    | DT_SET \<Rightarrow> if 0 < length (params ty) then Some (Some (params ty ! 0)) else None
    | _ \<Rightarrow> Some None)"

fun IsValid :: "SQLType \<Rightarrow> bool" where
  "IsValid (SQLType t ps) =
    (if \<not> IsCollection t then ps = []
     else if t = DT_MAP \<and> length ps \<noteq> 2 then False
     else if (t = DT_SET \<or> t = DT_LIST) \<and> length ps \<noteq> 1 then False
     else (\<forall>p \<in> set ps. IsValid p))"

fun Contains :: "DataType \<Rightarrow> SQLType \<Rightarrow> bool" where
  "Contains i (SQLType t ps) = ((\<exists>p \<in> set ps. Contains i p) \<or> t = i)"

text \<open>The equality operator: ids, number of parameters, then parameter by parameter.\<close>
fun SQLType_eq :: "SQLType \<Rightarrow> SQLType \<Rightarrow> bool"
  and SQLType_eq_list :: "SQLType list \<Rightarrow> SQLType list \<Rightarrow> bool" where
  "SQLType_eq (SQLType t ps) (SQLType u qs) =
    (if t = u \<and> length ps = length qs then SQLType_eq_list ps qs else False)"
| "SQLType_eq_list (p # ps) (q # qs) = (if SQLType_eq p q then SQLType_eq_list ps qs else False)"
| "SQLType_eq_list _ _ = True"

text \<open>Printing: the id, and the parameters in angle brackets separated by commas.\<close>
fun SQLType_print :: "SQLType \<Rightarrow> string" and print_params :: "bool \<Rightarrow> SQLType list \<Rightarrow> string" where
  "SQLType_print (SQLType t ps) =
     ToDataTypeString t @ (if ps = [] then [] else ''<'' @ print_params True ps @ ''>'')"
| "print_params first [] = []"
| "print_params first (p # ps) = (if first then [] else '', '') @ SQLType_print p @ print_params False ps"

subsection \<open>Type traits\<close>

text \<open>
  A cell of the row format.  Integers keep their width, floating point numbers
  their bit pattern, slices their bytes.
\<close>
datatype cell =
    C_bool bool | C_i8 "8 word" | C_i16 "16 word" | C_i32 "32 word" | C_i64 "64 word"
  | C_u8 "8 word" | C_u16 "16 word" | C_u32 "32 word" | C_u64 "64 word"
  | C_float "32 word" | C_double "64 word" | C_slice string

text \<open>IEEE order on bit patterns: sign and magnitude, zeros equal, not-a-number unordered.\<close>
definition float_num :: "'a::len word \<Rightarrow> int" where
  "float_num w = (let m = uint (take_bit (LENGTH('a) - 1) w) in if bit w (LENGTH('a) - 1) then - m else m)"

definition float_nan :: "nat \<Rightarrow> 'a::len word \<Rightarrow> bool" where
  "float_nan mant w = (uint (take_bit (LENGTH('a) - 1) w) > (2 ^ (LENGTH('a) - 1 - mant) - 1) * 2 ^ mant)"

definition float_lt :: "nat \<Rightarrow> 'a::len word \<Rightarrow> 'a word \<Rightarrow> bool" where
  "float_lt mant a b = (\<not> float_nan mant a \<and> \<not> float_nan mant b \<and> float_num a < float_num b)"

definition float_eq :: "nat \<Rightarrow> 'a::len word \<Rightarrow> 'a word \<Rightarrow> bool" where
  "float_eq mant a b = (\<not> float_nan mant a \<and> \<not> float_nan mant b \<and> float_num a = float_num b)"

definition three_way :: "bool \<Rightarrow> bool \<Rightarrow> int" where
  "three_way lt gt = (if lt then -1 else if gt then 1 else 0)"

text \<open>
  Byte-wise comparison, a proper prefix is smaller.  The C++ standard fixes only the sign
  of what \<open>std::string::compare\<close> and \<open>memcmp\<close> return; the model returns that sign, and
  every caller in the code only compares the result with zero.
\<close>
fun slice_compare :: "string \<Rightarrow> string \<Rightarrow> int" where
  "slice_compare [] [] = 0"
| "slice_compare [] (y # ys) = -1"
| "slice_compare (x # xs) [] = 1"
| "slice_compare (x # xs) (y # ys) =
    (if (of_char x :: nat) < of_char y then -1
     else if (of_char y :: nat) < of_char x then 1
     else slice_compare xs ys)"

text \<open>Generic comparison of two cells of one physical type; other pairs are not comparable.\<close>
definition cell_compare :: "cell \<Rightarrow> cell \<Rightarrow> int option" where
  "cell_compare l r = (case l of
      C_bool a \<Rightarrow> (case r of C_bool b \<Rightarrow> Some (three_way (a < b) (b < a)) | _ \<Rightarrow> None)
    | C_i8 a \<Rightarrow> (case r of C_i8 b \<Rightarrow> Some (three_way (sint a < sint b) (sint b < sint a)) | _ \<Rightarrow> None)
    | C_i16 a \<Rightarrow> (case r of C_i16 b \<Rightarrow> Some (three_way (sint a < sint b) (sint b < sint a)) | _ \<Rightarrow> None)
    | C_i32 a \<Rightarrow> (case r of C_i32 b \<Rightarrow> Some (three_way (sint a < sint b) (sint b < sint a)) | _ \<Rightarrow> None)
    | C_i64 a \<Rightarrow> (case r of C_i64 b \<Rightarrow> Some (three_way (sint a < sint b) (sint b < sint a)) | _ \<Rightarrow> None)
    | C_u8 a \<Rightarrow> (case r of C_u8 b \<Rightarrow> Some (three_way (a < b) (b < a)) | _ \<Rightarrow> None)
    | C_u16 a \<Rightarrow> (case r of C_u16 b \<Rightarrow> Some (three_way (a < b) (b < a)) | _ \<Rightarrow> None)
    | C_u32 a \<Rightarrow> (case r of C_u32 b \<Rightarrow> Some (three_way (a < b) (b < a)) | _ \<Rightarrow> None)
    | C_u64 a \<Rightarrow> (case r of C_u64 b \<Rightarrow> Some (three_way (a < b) (b < a)) | _ \<Rightarrow> None)
    | C_float a \<Rightarrow> (case r of C_float b \<Rightarrow> Some (three_way (float_lt 23 a b) (float_lt 23 b a)) | _ \<Rightarrow> None)
    | C_double a \<Rightarrow> (case r of C_double b \<Rightarrow> Some (three_way (float_lt 52 a b) (float_lt 52 b a)) | _ \<Rightarrow> None)
    | C_slice a \<Rightarrow> (case r of C_slice b \<Rightarrow> Some (slice_compare a b) | _ \<Rightarrow> None))"

record TypeInfo =
  ti_type :: DataType
  ti_physical :: DataType
  ti_name :: string
  ti_size :: nat

text \<open>Physical type, printed name and size of the C++ type, for the registered types.\<close>
definition type_traits :: "(DataType \<times> DataType \<times> string \<times> nat) list" where
  "type_traits =
    [(DT_UINT8, DT_UINT8, ''uint8'', 1), (DT_INT8, DT_INT8, ''int8'', 1),
     (DT_UINT16, DT_UINT16, ''uint16'', 2), (DT_INT16, DT_INT16, ''int16'', 2),
     (DT_UINT32, DT_UINT32, ''uint32'', 4), (DT_INT32, DT_INT32, ''int32'', 4),
     (DT_UINT64, DT_UINT64, ''uint64'', 8), (DT_INT64, DT_INT64, ''int64'', 8),
     (DT_TIMESTAMP, DT_INT64, ''timestamp'', 8), (DT_DATE, DT_INT32, ''date'', 4),
     (DT_TIME, DT_INT64, ''time'', 8), (DT_STRING, DT_BINARY, ''string'', 16),
     (DT_BOOL, DT_BOOL, ''bool'', 1), (DT_FLOAT, DT_FLOAT, ''float'', 4),
     (DT_DOUBLE, DT_DOUBLE, ''double'', 8), (DT_BINARY, DT_BINARY, ''binary'', 16),
     (DT_MAP, DT_BINARY, ''map'', 16), (DT_SET, DT_BINARY, ''set'', 16),
     (DT_LIST, DT_BINARY, ''list'', 16), (DT_DECIMAL, DT_BINARY, ''decimal'', 16)]"

text \<open>The resolver; an unregistered type fails the check.\<close>
definition GetTypeInfo :: "DataType \<Rightarrow> TypeInfo checked" where
  "GetTypeInfo t = map_option (\<lambda>(ph, nm, sz). \<lparr>ti_type = t, ti_physical = ph, ti_name = nm, ti_size = sz\<rparr>)
     (map_of type_traits t)"

subsection \<open>Variants\<close>

record variant =
  v_type :: DataType
  v_cell :: cell

text \<open>Cells a variant of the given type reads from its untyped value pointer.\<close>
definition cell_fits :: "DataType \<Rightarrow> cell \<Rightarrow> bool" where
  "cell_fits t v = (case v of
      C_bool _ \<Rightarrow> t = DT_BOOL
    | C_i8 _ \<Rightarrow> t = DT_INT8
    | C_i16 _ \<Rightarrow> t = DT_INT16
    | C_i32 _ \<Rightarrow> t = DT_INT32
    | C_u32 _ \<Rightarrow> t = DT_DATE
    | C_i64 _ \<Rightarrow> t = DT_TIMESTAMP \<or> t = DT_TIME \<or> t = DT_INT64
    | C_float _ \<Rightarrow> t = DT_FLOAT
    | C_double _ \<Rightarrow> t = DT_DOUBLE
    | C_slice _ \<Rightarrow> t = DT_STRING \<or> t = DT_BINARY
    | _ \<Rightarrow> False)"

text \<open>Reset of a variant: a date is stored in the signed member; unsupported types abort.\<close>
definition Variant_Reset :: "DataType \<Rightarrow> cell \<Rightarrow> variant checked" where
  "Variant_Reset t v = (if \<not> cell_fits t v then None
     else Some \<lparr>v_type = t, v_cell = (case v of C_u32 w \<Rightarrow> C_i32 w | _ \<Rightarrow> v)\<rparr>)"

text \<open>Reading a variant: only the types listed there are supported.\<close>
definition Variant_value :: "variant \<Rightarrow> cell checked" where
  "Variant_value v = (if v_type v \<in> {DT_BOOL, DT_INT8, DT_INT16, DT_INT32, DT_INT64, DT_FLOAT, DT_DOUBLE,
       DT_STRING, DT_BINARY} then Some (v_cell v) else None)"

definition Variant_Equals :: "variant \<Rightarrow> variant option \<Rightarrow> bool checked" where
  "Variant_Equals v other = (case other of
      None \<Rightarrow> Some False
    | Some u \<Rightarrow> if v_type v \<noteq> v_type u then Some False
        else do { GetTypeInfo (v_type v); a \<leftarrow> Variant_value v; b \<leftarrow> Variant_value u;
                  c \<leftarrow> cell_compare a b; Some (c = 0) })"


subsection \<open>Lemmas\<close>

lemma IsInteger_iff: "IsInteger t \<longleftrightarrow> t \<in> {DT_INT8, DT_INT16, DT_INT32, DT_INT64}"
  by (cases t) (simp_all add: IsInteger_def less_eq_DataType_def)

lemma SQLType_eq_iff: "SQLType_eq x y \<longleftrightarrow> x = y"
  and SQLType_eq_list_iff: "length xs = length ys \<Longrightarrow> SQLType_eq_list xs ys \<longleftrightarrow> xs = ys"
  by (induction x y and xs ys rule: SQLType_eq_SQLType_eq_list.induct) auto

lemma Create_valid: "Create t = Some ty \<Longrightarrow> IsValid ty \<and> type_id ty = t"
  by (cases t) (auto simp: CreateTypeList_def CreateTypeMap_def CreateTypeSet_def unknown_type_def IsCollection_def)

lemma Create_defined: "Create t = None \<longleftrightarrow> t = DT_NOT_SUPPORTED"
  by (cases t) simp_all

lemma Create_params_valid:
  assumes "Create_params t ps = Some ty" "\<forall>p \<in> set ps. IsValid p"
  shows "IsValid ty \<and> type_id ty = t"
  using assms Create_valid [of t ty]
  by (cases t) (auto simp: Create_params_def IsCollection_def split: if_splits)

lemma valid_types_have_parts:
  assumes "IsValid ty"
  shows "keys_type ty \<noteq> None \<and> values_type ty \<noteq> None"
proof (cases ty)
  case (SQLType t ps)
  with assms show ?thesis
    by (cases t) (auto simp: keys_type_def values_type_def IsCollection_def split: if_splits)
qed

lemma GetTypeInfo_None:
  "GetTypeInfo t = None \<longleftrightarrow> t \<in> {DT_NOT_SUPPORTED, DT_UNKNOWN_DATA, DT_NULL_VALUE_TYPE}"
  by (cases t) (simp_all add: GetTypeInfo_def type_traits_def)

text \<open>Interface of a three-way comparison that is a total order.\<close>
locale three_way_order =
  fixes cmp :: "'a \<Rightarrow> 'a \<Rightarrow> int"
  assumes cmp_zero: "cmp x y = 0 \<longleftrightarrow> x = y"
    and cmp_flip: "cmp y x = - cmp x y"
    and cmp_trans: "cmp x y < 0 \<Longrightarrow> cmp y z < 0 \<Longrightarrow> cmp x z < 0"
begin

lemma cmp_pos: "0 < cmp x y \<longleftrightarrow> cmp y x < 0"
  using cmp_flip [of x y] by linarith

lemma cmp_le_trans:
  assumes "cmp x y \<le> 0" "cmp y z \<le> 0"
  shows "cmp x z \<le> 0"
proof (cases "cmp x y = 0 \<or> cmp y z = 0")
  case True
  with assms show ?thesis by (auto simp: cmp_zero)
next
  case False
  with assms cmp_trans [of x y z] show ?thesis by simp
qed

lemma cmp_antisym: "cmp x y \<le> 0 \<Longrightarrow> cmp y x \<le> 0 \<Longrightarrow> x = y"
  using cmp_zero [of x y] cmp_flip [of x y] by linarith

end

lemma slice_compare_zero: "slice_compare xs ys = 0 \<longleftrightarrow> xs = ys"
  by (induction xs ys rule: slice_compare.induct) auto

lemma slice_compare_flip: "slice_compare ys xs = - slice_compare xs ys"
  by (induction xs ys rule: slice_compare.induct) auto

lemma slice_compare_trans: "slice_compare xs ys < 0 \<Longrightarrow> slice_compare ys zs < 0 \<Longrightarrow> slice_compare xs zs < 0"
proof (induction xs ys arbitrary: zs rule: slice_compare.induct)
  case (2 y ys)
  then show ?case by (cases zs) simp_all
next
  case (4 x xs y ys)
  from 4(3) obtain z zs' where z: "zs = z # zs'" by (cases zs) auto
  show ?case
  proof (cases "(of_char x :: nat) < of_char z")
    case True
    then show ?thesis by (simp add: z)
  next
    case False
    with 4(2,3) have eq: "(of_char x :: nat) = of_char y" "(of_char y :: nat) = of_char z"
      unfolding z by (simp_all split: if_splits)
    with 4(2,3) have "slice_compare xs ys < 0" "slice_compare ys zs' < 0"
      unfolding z by (simp_all split: if_splits)
    with 4(1) eq show ?thesis unfolding z by simp
  qed
qed simp_all

interpretation slice_order: three_way_order slice_compare
  by unfold_locales (auto simp: slice_compare_zero intro: slice_compare_flip slice_compare_trans)

definition int_compare :: "int \<Rightarrow> int \<Rightarrow> int" where
  "int_compare a b = three_way (a < b) (b < a)"

interpretation int_order: three_way_order int_compare
  by unfold_locales (auto simp: int_compare_def three_way_def split: if_splits)

subsection \<open>Properties\<close>

text \<open>
  The type constructors are total and sound: creating a type fails only for the
  unsupported code, what is created is valid and has the requested code, so its key
  and value types can be read; and the hand-written equality is structural equality.
\<close>
theorem created_types_valid:
  "(Create t = None \<longleftrightarrow> t = DT_NOT_SUPPORTED)
   \<and> (\<forall>ty. Create t = Some ty \<longrightarrow> IsValid ty \<and> type_id ty = t \<and> keys_type ty \<noteq> None \<and> values_type ty \<noteq> None)
   \<and> (SQLType_eq x y \<longleftrightarrow> x = y)"
  by (auto simp: Create_defined SQLType_eq_iff dest: Create_valid valid_types_have_parts [OF conjunct1 [OF Create_valid]])

theorem created_types_valid_witness:
  "Create DT_MAP = Some (CreateTypeMap unknown_type unknown_type)
   \<and> IsValid (CreateTypeMap unknown_type unknown_type)"
  using created_types_valid [of DT_MAP unknown_type unknown_type] by simp

text \<open>
  A variant gives back the value it was set to for every type but dates, times and
  timestamps: these can be set, but reading them, and so comparing two of them,
  aborts the process.
\<close>
theorem variant_round_trip:
  assumes "Variant_Reset t c = Some v"
  shows "v_type v = t
   \<and> (t \<notin> {DT_DATE, DT_TIME, DT_TIMESTAMP} \<longrightarrow> Variant_value v = Some c \<and> Variant_Equals v (Some v) = Some True)
   \<and> (t \<in> {DT_DATE, DT_TIME, DT_TIMESTAMP} \<longrightarrow> Variant_value v = None \<and> Variant_Equals v (Some v) = None)"
  using assms unfolding Variant_Reset_def
  by (cases c) (auto simp: Variant_value_def Variant_Equals_def cell_fits_def GetTypeInfo_def
      type_traits_def cell_compare_def three_way_def slice_compare_zero float_lt_def split: if_split_asm)

theorem variant_round_trip_witness:
  "Variant_value \<lparr>v_type = DT_TIMESTAMP, v_cell = C_i64 5\<rparr> = None"
  using variant_round_trip [of DT_TIMESTAMP "C_i64 5" "\<lparr>v_type = DT_TIMESTAMP, v_cell = C_i64 5\<rparr>"]
  by (simp add: Variant_Reset_def cell_fits_def)

end
