(* ===== verification/Byte_Lists.thy ===== *)
theory Byte_Lists
  imports Prelude
begin

text \<open>
  Byte strings as numbers and their order: the big-endian value of a byte list, the
  strict byte-wise comparison of two strings that differ before either ends, and the
  effect of complementing, masking and merging bytes on the value.  Shared by the
  encodings of integers and decimals.
\<close>

fun be_val :: "byte list \<Rightarrow> nat" where
  "be_val [] = 0"
| "be_val (b # bs) = unat b * 256 ^ length bs + be_val bs"

text \<open>Byte-wise comparison of strings; a proper prefix is smaller.\<close>
fun bytes_less :: "byte list \<Rightarrow> byte list \<Rightarrow> bool" where
  "bytes_less (x # xs) (y # ys) = (x < y \<or> x = y \<and> bytes_less xs ys)"
| "bytes_less xs ys = (xs = [] \<and> ys \<noteq> [])"

text \<open>The first difference is inside both strings and decides; stable under appending.\<close>
fun below :: "byte list \<Rightarrow> byte list \<Rightarrow> bool" where
  "below (x # xs) (y # ys) = (x < y \<or> x = y \<and> below xs ys)"
| "below _ _ = False"

lemma unat_byte: "unat (b :: byte) < 256"
  using unsigned_less [of b, where ?'a = nat] by simp

lemma be_val_less: "be_val bs < 256 ^ length bs"
proof (induction bs)
  case (Cons b bs)
  have "unat b * 256 ^ length bs + be_val bs < (unat b + 1) * 256 ^ length bs"
    using Cons by simp
  also have "\<dots> \<le> 256 * 256 ^ length bs" using unat_byte [of b] by (intro mult_right_mono) simp_all
  finally show ?case by simp
qed simp

lemma be_val_append: "be_val (xs @ ys) = be_val xs * 256 ^ length ys + be_val ys"
  by (induction xs) (simp_all add: algebra_simps power_add)

lemma be_val_replicate0 [simp]: "be_val (replicate n 0 @ bs) = be_val bs"
  by (induction n) simp_all

lemma be_val_take: "n \<le> length bs \<Longrightarrow> be_val (take n bs) = be_val bs div 256 ^ (length bs - n)"
  using be_val_append [of "take n bs" "drop n bs"] be_val_less [of "drop n bs"] by simp

lemma be_val_hd: "bs \<noteq> [] \<Longrightarrow> unat (hd bs) = be_val bs div 256 ^ (length bs - 1)"
  using be_val_less [of "tl bs"] by (cases bs) simp_all

lemma be_val_Cons_split:
  "be_val (b # bs) = n \<Longrightarrow> unat b = n div 256 ^ length bs \<and> be_val bs = n mod 256 ^ length bs"
  using be_val_less [of bs] by auto

lemma be_val_inj: "length xs = length ys \<Longrightarrow> be_val xs = be_val ys \<Longrightarrow> xs = ys"
proof (induction xs ys rule: list_induct2)
  case (Cons x xs y ys)
  from be_val_Cons_split [OF Cons(3)] be_val_Cons_split [OF refl, of y ys] Cons(1)
  have "unat x = unat y" "be_val xs = be_val ys" by (simp_all only:)
  with Cons(2) show ?case by (simp add: word_unat_eq_iff)
qed simp

lemma below_be_val: "length xs = length ys \<Longrightarrow> below xs ys \<longleftrightarrow> be_val xs < be_val ys"
proof (induction xs ys rule: list_induct2)
  case (Cons x xs y ys)
  have *: "unat u * p + a < unat v * p + b" if "unat u < unat v" "a < p" for u v :: byte and a b p :: nat
  proof -
    have "unat u * p + a < Suc (unat u) * p" using that(2) by simp
    also have "\<dots> \<le> unat v * p" using that(1) by (intro mult_right_mono) simp_all
    finally show ?thesis by simp
  qed
  consider "unat x < unat y" | "unat y < unat x" | "x = y" by (metis linorder_neqE_nat word_unat_eq_iff)
  then show ?case
  proof cases
    case 1
    then show ?thesis using * [OF 1 be_val_less, of xs "be_val ys"] Cons(1) by (simp add: word_less_nat_alt)
  next
    case 2
    then show ?thesis using * [OF 2 be_val_less, of ys "be_val xs"] Cons(1) by (auto simp: word_less_nat_alt)
  next
    case 3
    then show ?thesis using Cons by simp
  qed
qed simp

lemma below_append: "below xs ys \<Longrightarrow> below (xs @ us) (ys @ vs)"
  by (induction xs ys rule: below.induct) auto

lemma below_prefix [simp]: "below (ps @ xs) (ps @ ys) \<longleftrightarrow> below xs ys"
  by (induction ps) auto

lemma below_take: "below (take n xs) ys \<Longrightarrow> below xs ys" "below xs (take n ys) \<Longrightarrow> below xs ys"
  using below_append [of "take n xs" ys "drop n xs" "[]"] below_append [of xs "take n ys" "[]" "drop n ys"] by simp_all

lemma below_bytes_less: "below xs ys \<Longrightarrow> bytes_less xs ys"
  by (induction xs ys rule: below.induct) auto

lemma below_irrefl: "\<not> below xs xs"
  by (induction xs) auto

lemma below_asym: "below xs ys \<Longrightarrow> \<not> bytes_less ys xs \<and> xs \<noteq> ys"
  by (induction xs ys rule: below.induct) auto

lemma bytes_less_prefix [simp]: "bytes_less (ps @ xs) (ps @ ys) \<longleftrightarrow> bytes_less xs ys"
  by (induction ps) simp_all

text \<open>Comparing the value of one string with that of the other's prefix.\<close>
lemma below_longer:
  assumes "length xs \<le> length ys" "(be_val xs + 1) * 256 ^ (length ys - length xs) \<le> be_val ys"
  shows "below xs ys"
proof -
  have "be_val xs + 1 \<le> be_val ys div 256 ^ (length ys - length xs)"
    using assms(2) by (simp only: less_eq_div_iff_mult_less_eq zero_less_power zero_less_numeral)
  then have "below xs (take (length xs) ys)" using assms(1) by (simp add: below_be_val be_val_take)
  then show ?thesis by (rule below_take)
qed

lemma below_shorter:
  assumes "length ys \<le> length xs" "be_val xs < be_val ys * 256 ^ (length xs - length ys)"
  shows "below xs ys"
proof -
  have "be_val xs div 256 ^ (length xs - length ys) < be_val ys"
    using assms(2) by (simp add: div_less_iff_less_mult)
  then have "below (take (length ys) xs) ys" using assms(1) by (simp add: below_be_val be_val_take)
  then show ?thesis by (rule below_take)
qed

lemma below_first:
  assumes "xs \<noteq> []" "ys \<noteq> []" "be_val xs < p * 256 ^ (length xs - 1)" "p * 256 ^ (length ys - 1) \<le> be_val ys"
  shows "below xs ys"
proof -
  have "unat (hd xs) < p" using assms(1,3) by (simp add: be_val_hd div_less_iff_less_mult)
  moreover have "p \<le> unat (hd ys)"
    using assms(2,4) by (simp add: be_val_hd less_eq_div_iff_mult_less_eq)
  ultimately show ?thesis using assms(1,2) by (cases xs; cases ys) (simp_all add: word_less_nat_alt)
qed

subsection \<open>Bit operations on bytes\<close>

lemma unat_not_byte: "unat (NOT b :: byte) = 255 - unat b"
proof -
  have "NOT b = - b - 1" by (rule not_eq_complement)
  then have "NOT b = 255 - b" by simp
  moreover have "b \<le> 255" using unat_byte [of b] by (simp add: word_le_nat_alt)
  ultimately show ?thesis by (simp add: unat_sub)
qed

lemma be_val_not: "be_val (map (\<lambda>b. NOT b) bs) = 256 ^ length bs - 1 - be_val bs"
proof (induction bs)
  case (Cons b bs)
  have "unat b * 256 ^ length bs + be_val bs + ((255 - unat b) * 256 ^ length bs + (256 ^ length bs - 1 - be_val bs))
      = (unat b + (255 - unat b)) * 256 ^ length bs + (256 ^ length bs - 1)"
    using be_val_less [of bs] by (simp add: algebra_simps)
  also have "\<dots> = 256 ^ length (b # bs) - 1" using unat_byte [of b] by simp
  finally show ?case using Cons by (simp add: unat_not_byte)
qed simp

lemma below_not: "below xs ys \<Longrightarrow> below (map (\<lambda>b. NOT b) ys) (map (\<lambda>b. NOT b) xs)"
proof (induction xs ys rule: below.induct)
  case (1 x xs y ys)
  have "NOT y < NOT x" if "x < y"
    using that unat_byte [of x] unat_byte [of y] by (simp add: word_less_nat_alt unat_not_byte)
  with 1 show ?case by auto
qed simp_all

lemma mask_forms: "push_bit k (1 :: byte) - 1 = mask k" "(2 :: byte) ^ k - 1 = mask k"
  by (simp_all add: mask_eq_exp_minus_1 push_bit_eq_mult)

lemma unat_mask_byte: "k \<le> 8 \<Longrightarrow> unat (mask k :: byte) = 2 ^ k - 1"
proof -
  assume "k \<le> 8"
  then have "k \<in> {0, 1, 2, 3, 4, 5, 6, 7, 8}" by auto
  then have "(255 :: nat) mod 2 ^ k = 2 ^ k - 1" by auto
  moreover have "unat (255 AND mask k :: byte) = 255 mod 2 ^ k" using unat_and_mask [of "255 :: byte" k] by simp
  moreover have "255 AND mask k = (mask k :: byte)" 
    by (rule bit_word_eqI) (auto simp: bit_simps mask_4_8)
  ultimately show ?thesis by simp
qed

text \<open>Setting the leading bits of a byte above its value.\<close>
lemma unat_or_leading:
  assumes "unat (b :: byte) < 2 ^ k" "k \<le> 8"
  shows "unat (b OR NOT (mask k)) = unat b + (256 - 2 ^ k)"
proof -
  have "unat (take_bit k b) = unat b" using assms by (simp add: unsigned_take_bit_eq take_bit_nat_eq_self)
  then have "take_bit k b = b" by (simp add: word_unat_eq_iff)
  then have "b = b AND mask k" by (simp add: take_bit_eq_mask)
  then have "b AND NOT (mask k) = 0" by (metis and.assoc bit.conj_cancel_right bit.conj_zero_right)
  then have eq: "b OR NOT (mask k) = b + NOT (mask k)" by (simp add: disjunctive_add_eq_or)
  have n: "unat (NOT (mask k) :: byte) = 256 - 2 ^ k"
    using assms(2) by (simp add: unat_not_byte unat_mask_byte)
  have "unat b + unat (NOT (mask k) :: byte) < 256"
    using assms(1) n power_increasing [OF assms(2), of "2 :: nat"] by simp
  then show ?thesis by (simp add: eq n unat_add_lem [THEN iffD1])
qed

lemma ff_xor: "(0xFF :: byte) XOR b = NOT b"
  by (rule bit_word_eqI) (auto simp: bit_simps mask_4_8)

lemma pow256: "(256 :: nat) ^ n = 2 ^ (8 * n)"
  by (simp add: power_mult)

lemma div_mod_pair:
  fixes a p q v :: nat
  assumes "v < p"
  shows "a mod q * p + v = (a * p + v) mod (q * p)"
proof -
  have "(a * p + v) div p = a" "(a * p + v) mod p = v" using assms by simp_all
  then have "(a * p + v) mod (p * q) = p * (a mod q) + v" by (simp only: mod_mult2_eq)
  then show ?thesis by (metis mult.commute)
qed

text \<open>Changing the leading bits of the first byte.\<close>
definition update_hd :: "(byte \<Rightarrow> byte) \<Rightarrow> byte list \<Rightarrow> byte list" where
  "update_hd f bs = (case bs of [] \<Rightarrow> [] | b # rest \<Rightarrow> f b # rest)"

lemma length_update_hd [simp]: "length (update_hd f bs) = length bs"
  by (simp add: update_hd_def split: list.split)

lemma be_val_mask_hd:
  assumes "bs \<noteq> []" "k \<le> 8"
  shows "be_val (update_hd (\<lambda>b. b AND mask k) bs) = be_val bs mod 2 ^ (k + 8 * (length bs - 1))"
proof -
  obtain b rest where bs: "bs = b # rest" using assms(1) by (cases bs) auto
  have "unat (b AND mask k) * 256 ^ length rest + be_val rest = (unat b * 256 ^ length rest + be_val rest) mod (2 ^ k * 256 ^ length rest)"
    using div_mod_pair [OF be_val_less] by (simp add: unat_and_mask)
  then show ?thesis by (simp add: bs update_hd_def pow256 power_add)
qed

lemma be_val_or_hd:
  assumes "bs \<noteq> []" "k \<le> 8" "be_val bs < 2 ^ (k + 8 * (length bs - 1))"
  shows "be_val (update_hd (\<lambda>b. b OR NOT (mask k)) bs) + 2 ^ (k + 8 * (length bs - 1)) = be_val bs + 2 ^ (8 * length bs)"
proof -
  obtain b rest where bs: "bs = b # rest" using assms(1) by (cases bs) auto
  let ?p = "256 ^ length rest :: nat"
  have "unat b * ?p \<le> be_val bs" by (simp add: bs)
  also have "\<dots> < 2 ^ k * ?p" using assms(3) by (simp add: bs pow256 power_add)
  finally have "unat b * ?p < 2 ^ k * ?p" .
  then have "unat b < 2 ^ k" by simp
  then have u: "unat (b OR NOT (mask k)) = unat b + (256 - 2 ^ k)" using assms(2) by (rule unat_or_leading)
  have "(2 :: nat) ^ k \<le> 256" using power_increasing [OF assms(2), of "2 :: nat"] by simp
  then have "(256 - 2 ^ k) * ?p + 2 ^ k * ?p = 256 * ?p" by (simp flip: add_mult_distrib)
  then show ?thesis by (simp add: bs update_hd_def u pow256 power_add algebra_simps)
qed

end
