(* ===== verification/Varint.thy ===== *)
theory Varint
  imports Byte_Lists K2pg_Status
begin

text \<open>
  Integers of arbitrary size and their encodings (common/type/varint.h and varint.cc).
  A \<open>VarInt\<close> is the integer its big number holds.  The big number functions of the
  cryptography library are the parameter \<open>bignum\<close>; \<open>bn_laws\<close> states what they are
  documented to compute.  Byte strings are lists of bytes.  The comparable encoding is
  shown to be total, to decode to the number it was made from whatever follows it, and
  to order byte strings as the numbers; the two's complement encoding round trips.
\<close>

subsection \<open>The big number library\<close>

record bignum =
  BN_set_word :: "64 word \<Rightarrow> int"
  BN_set_negative :: "int \<Rightarrow> bool \<Rightarrow> int"
  BN_is_zero :: "int \<Rightarrow> bool"
  BN_is_negative :: "int \<Rightarrow> bool"
  BN_get_word :: "int \<Rightarrow> 64 word"
  BN_cmp :: "int \<Rightarrow> int \<Rightarrow> int"
  BN_add :: "int \<Rightarrow> int \<Rightarrow> int"
  BN_sub :: "int \<Rightarrow> int \<Rightarrow> int"
  BN_num_bits :: "int \<Rightarrow> nat"
  BN_bn2bin :: "int \<Rightarrow> byte list"
  BN_bin2bn :: "byte list \<Rightarrow> int"
  BN_dec2bn :: "string \<Rightarrow> int \<times> nat"
  BN_bn2dec :: "int \<Rightarrow> string"

definition is_digit :: "char \<Rightarrow> bool" where
  "is_digit c = (48 \<le> (of_char c :: nat) \<and> (of_char c :: nat) \<le> 57)"

definition digit_val :: "char \<Rightarrow> nat" where
  "digit_val c = of_char c - 48"

definition decimal_val :: "string \<Rightarrow> nat" where
  "decimal_val s = foldl (\<lambda>n c. 10 * n + digit_val c) 0 s"

definition bn_laws :: "bignum \<Rightarrow> bool" where
  "bn_laws B \<longleftrightarrow>
     (\<forall>w. BN_set_word B w = int (unat w))
   \<and> (\<forall>z neg. BN_set_negative B z neg = (if neg then - \<bar>z\<bar> else \<bar>z\<bar>))
   \<and> (\<forall>z. BN_is_zero B z \<longleftrightarrow> z = 0) \<and> (\<forall>z. BN_is_negative B z \<longleftrightarrow> z < 0)
   \<and> (\<forall>z. BN_get_word B z = (if \<bar>z\<bar> < 2 ^ 64 then of_int \<bar>z\<bar> else - 1))
   \<and> (\<forall>x y. BN_cmp B x y = sgn (x - y))
   \<and> (\<forall>x y. BN_add B x y = x + y) \<and> (\<forall>x y. BN_sub B x y = x - y)
   \<and> (\<forall>z. \<bar>z\<bar> < 2 ^ BN_num_bits B z \<and> (z \<noteq> 0 \<longrightarrow> 2 ^ BN_num_bits B z \<le> 2 * \<bar>z\<bar>) \<and> (z = 0 \<longrightarrow> BN_num_bits B z = 0))
   \<and> (\<forall>z. be_val (BN_bn2bin B z) = nat \<bar>z\<bar> \<and> length (BN_bn2bin B z) = (BN_num_bits B z + 7) div 8)
   \<and> (\<forall>bs. BN_bin2bn B bs = int (be_val bs))
   \<and> (\<forall>s rest. s \<noteq> [] \<and> list_all is_digit s \<and> (rest = [] \<or> \<not> is_digit (hd rest)) \<longrightarrow>
        BN_dec2bn B (s @ rest) = (int (decimal_val s), length s)
        \<and> BN_dec2bn B (CHR ''-'' # s @ rest) = (- int (decimal_val s), Suc (length s)))
   \<and> (\<forall>s. (s = [] \<or> \<not> is_digit (hd s)) \<longrightarrow> snd (BN_dec2bn B (CHR ''-'' # s)) = 0
        \<and> (s = [] \<or> hd s \<noteq> CHR ''-'' \<longrightarrow> snd (BN_dec2bn B s) = 0))
   \<and> (\<forall>z. BN_bn2dec B z = int_to_string z)"

subsection \<open>Operations\<close>

text \<open>The absolute value of the least number is taken with wrap-around.\<close>
definition VarInt_of_int64 :: "bignum \<Rightarrow> 64 word \<Rightarrow> int" where
  "VarInt_of_int64 B v = (if 0 \<le> sint v then BN_set_word B v else BN_set_negative B (BN_set_word B (- v)) True)"

definition VarInt_ToString :: "bignum \<Rightarrow> int \<Rightarrow> string" where
  "VarInt_ToString B z = BN_bn2dec B z"

text \<open>The bound is signed and is converted to the unsigned type for the comparison.\<close>
definition ToInt64 :: "bignum \<Rightarrow> int \<Rightarrow> 64 word result" where
  "ToInt64 B z = (let value = BN_get_word B z; negative = BN_is_negative B z;
      bound = (if negative then 2 ^ 63 else 2 ^ 63 - 1)
    in if value > bound then Inl kInvalidArgument else Inr (if negative then - value else value))"

definition VarInt_FromString :: "bignum \<Rightarrow> string \<Rightarrow> int result" where
  "VarInt_FromString B s = (let t = (if s \<noteq> [] \<and> hd s = CHR ''+'' then tl s else s); (z, parsed) = BN_dec2bn B t
    in if parsed = 0 \<or> parsed \<noteq> length t then Inl kInvalidArgument else Inr z)"

definition VarInt_CompareTo :: "bignum \<Rightarrow> int \<Rightarrow> int \<Rightarrow> int" where
  "VarInt_CompareTo B x y = BN_cmp B x y"

definition FlipBits :: "byte list \<Rightarrow> byte list" where
  "FlipBits = map (\<lambda>b. NOT b)"

text \<open>Whole bytes of ones, then the last of them merged with what is there; outside the buffer the write is undefined.\<close>
fun fill_ones :: "nat \<Rightarrow> byte list \<Rightarrow> byte list checked" where
  "fill_ones n [] = None"
| "fill_ones n (b # bs) =
    (if n > 8 then map_option ((#) 0xFF) (fill_ones (n - 8) bs)
     else Some ((b OR (0xFF XOR (push_bit (8 - n) 1 - 1))) # bs))"

definition EncodeToComparable :: "bignum \<Rightarrow> nat \<Rightarrow> int \<Rightarrow> byte list checked" where
  "EncodeToComparable B num_reserved_bits z = do {
     check_that (num_reserved_bits < 8);
     if BN_is_zero B z then Some [drop_bit num_reserved_bits 0x80]
     else let num_bits = BN_num_bits B z;
              total_num_bits = num_bits + 1 + num_reserved_bits;
              num_bytes = (total_num_bits + 6) div 7;
              rounding_padding = num_bytes * 7 - total_num_bits;
              header_length = 1 + num_bytes + rounding_padding;
              words_count = (num_bits + header_length + 7) div 8;
              offset = words_count - (num_bits + 7) div 8
          in do {
            data \<leftarrow> fill_ones (num_bytes + num_reserved_bits) (replicate offset 0 @ BN_bn2bin B z);
            let flipped = (if BN_is_negative B z then FlipBits data else data) in
            Some (if num_reserved_bits > 0
                  then update_hd (\<lambda>b. b AND (push_bit (8 - num_reserved_bits) 1 - 1)) flipped else flipped) } }"

text \<open>The number of leading bytes of ones; \<^term>\<open>None\<close> when there is no other byte.\<close>
fun count_full :: "byte list \<Rightarrow> nat option" where
  "count_full [] = None"
| "count_full (b # bs) = (if b = 0xFF then map_option Suc (count_full bs) else Some 0)"

text \<open>Clears the leading ones of a byte and counts them; \<open>k\<close> bits of the mask are left.\<close>
primrec strip_ones :: "nat \<Rightarrow> byte \<Rightarrow> nat \<Rightarrow> byte \<times> nat" where
  "strip_ones 0 b n = (b, n)"
| "strip_ones (Suc k) b n = (if b AND push_bit k 1 \<noteq> 0 then strip_ones k (b XOR push_bit k 1) (Suc n) else (b, n))"

text \<open>The number and how many bytes it took.\<close>
definition DecodeFromComparable :: "bignum \<Rightarrow> nat \<Rightarrow> byte list \<Rightarrow> (int \<times> nat) result checked" where
  "DecodeFromComparable B num_reserved_bits bytes = do {
     check_that (num_reserved_bits < 8);
     if bytes = [] then Some (Inl kCorruption)
     else let negative = (hd bytes AND drop_bit num_reserved_bits 0x80 = 0);
              flipped = (if negative then FlipBits bytes else bytes);
              buffer = (if num_reserved_bits > 0
                then update_hd (\<lambda>b. b OR NOT (push_bit (8 - num_reserved_bits) 1 - 1)) flipped else flipped)
          in case count_full buffer of
               None \<Rightarrow> Some (Inl kCorruption)
             | Some idx \<Rightarrow> (let (b, ones) = strip_ones 8 (buffer ! idx) (8 * idx);
                               num_ones = ones - num_reserved_bits
                 in if num_ones > length bytes then Some (Inl kCorruption)
                    else do {
                      check_that (idx \<le> num_ones);
                      let z = BN_bin2bn B (take (num_ones - idx) (drop idx (buffer[idx := b])));
                      Some (Inr (if negative then BN_set_negative B z True else z, num_ones)) }) }"

text \<open>
  Adding and subtracting one at the end of a byte string, on the reversed string: the
  new string and the distance of the last byte changed from the end; running off the
  front is undefined.
\<close>
fun add_one :: "byte list \<Rightarrow> (byte list \<times> nat) checked" where
  "add_one [] = None"
| "add_one (b # bs) = (if b = 0xFF then map_option (\<lambda>(r, k). (0 # r, Suc k)) (add_one bs) else Some ((b + 1) # bs, 0))"

fun sub_one :: "byte list \<Rightarrow> (byte list \<times> nat) checked" where
  "sub_one [] = None"
| "sub_one (b # bs) = (if b = 0 then map_option (\<lambda>(r, k). (0xFF # r, Suc k)) (sub_one bs) else Some ((b - 1) # bs, 0))"

definition EncodeToTwosComplement :: "bignum \<Rightarrow> int \<Rightarrow> byte list checked" where
  "EncodeToTwosComplement B z =
    (if BN_is_zero B z then Some [0]
     else let num_bits = BN_num_bits B z; offset = (if num_bits mod 8 = 0 then 1 else 0);
              data = replicate offset 0 @ BN_bn2bin B z
          in if \<not> BN_is_negative B z then Some data
             else do {
               (r, k) \<leftarrow> add_one (rev (FlipBits data));
               let result = rev r;
               Some (if offset = 1 \<and> k < length data - 1 \<and> result ! 1 AND 0x80 \<noteq> 0 then tl result else result) })"

definition DecodeFromTwosComplement :: "bignum \<Rightarrow> byte list \<Rightarrow> int result checked" where
  "DecodeFromTwosComplement B bs =
    (if bs = [] then Some (Inl kCorruption)
     else if hd bs AND 0x80 = 0 then Some (Inr (BN_bin2bn B bs))
     else do {
       (r, k) \<leftarrow> sub_one (rev bs);
       Some (Inr (BN_set_negative B (BN_bin2bn B (FlipBits (rev r))) True)) })"

definition Negate :: "bignum \<Rightarrow> int \<Rightarrow> int" where
  "Negate B z = BN_set_negative B z (\<not> BN_is_negative B z)"

definition Sign :: "bignum \<Rightarrow> int \<Rightarrow> int" where
  "Sign B z = (if BN_is_zero B z then 0 else if BN_is_negative B z then -1 else 1)"

subsection \<open>The library's laws as rules\<close>

lemma bn_rules:
  assumes "bn_laws B"
  shows "BN_set_word B w = int (unat w)" "BN_set_negative B z neg = (if neg then - \<bar>z\<bar> else \<bar>z\<bar>)"
    "BN_is_zero B z \<longleftrightarrow> z = 0" "BN_is_negative B z \<longleftrightarrow> z < 0" "BN_cmp B x y = sgn (x - y)"
    "BN_add B x y = x + y" "BN_sub B x y = x - y" "BN_bin2bn B bs = int (be_val bs)"
    "be_val (BN_bn2bin B z) = nat \<bar>z\<bar>" "length (BN_bn2bin B z) = (BN_num_bits B z + 7) div 8"
    "BN_bn2dec B z = int_to_string z" "BN_get_word B z = (if \<bar>z\<bar> < 2 ^ 64 then of_int \<bar>z\<bar> else - 1)"
    "BN_num_bits B 0 = 0" "\<bar>z\<bar> < 2 ^ BN_num_bits B z" "z \<noteq> 0 \<Longrightarrow> 2 ^ BN_num_bits B z \<le> 2 * \<bar>z\<bar>"
  using assms unfolding bn_laws_def by (elim conjE; simp)+

lemma bn_bits:
  assumes "bn_laws B"
  shows "nat \<bar>z\<bar> < 2 ^ BN_num_bits B z" "z \<noteq> 0 \<Longrightarrow> 2 ^ BN_num_bits B z \<le> 2 * nat \<bar>z\<bar>"
    "z \<noteq> 0 \<Longrightarrow> 0 < BN_num_bits B z"
proof -
  have "int (nat \<bar>z\<bar>) < int (2 ^ BN_num_bits B z)" using bn_rules(14) [OF assms, of z] by simp
  then show "nat \<bar>z\<bar> < 2 ^ BN_num_bits B z" by (simp only: of_nat_less_iff)
  assume z: "z \<noteq> 0"
  have "int (2 ^ BN_num_bits B z) \<le> int (2 * nat \<bar>z\<bar>)" using bn_rules(15) [OF assms z] by simp
  then show "2 ^ BN_num_bits B z \<le> 2 * nat \<bar>z\<bar>" by (simp only: of_nat_le_iff)
  show "0 < BN_num_bits B z"
  proof (rule ccontr)
    assume "\<not> 0 < BN_num_bits B z"
    with bn_rules(14) [OF assms, of z] z show False by simp
  qed
qed

lemma bn_bits_mono:
  assumes "bn_laws B" "\<bar>x\<bar> \<le> \<bar>y\<bar>"
  shows "BN_num_bits B x \<le> BN_num_bits B y"
proof (cases "x = 0")
  case False
  have "2 ^ BN_num_bits B x \<le> 2 * nat \<bar>x\<bar>" by (rule bn_bits(2) [OF assms(1) False])
  also have "\<dots> \<le> 2 * nat \<bar>y\<bar>" using assms(2) by simp
  also have "\<dots> < 2 * 2 ^ BN_num_bits B y" using bn_bits(1) [OF assms(1), of y] by simp
  finally have "(2 :: nat) ^ BN_num_bits B x < 2 ^ Suc (BN_num_bits B y)" by simp
  then have "BN_num_bits B x < Suc (BN_num_bits B y)" by (rule power_less_imp_less_exp [rotated]) simp
  then show ?thesis by simp
qed (simp add: bn_rules [OF assms(1)])

subsection \<open>The comparable encoding as a number\<close>

lemma fill_ones_val:
  assumes "be_val bs < 2 ^ (8 * length bs - n)" "n \<le> 8 * length bs" "bs \<noteq> []"
  shows "\<exists>r. fill_ones n bs = Some r \<and> length r = length bs
    \<and> be_val r + 2 ^ (8 * length bs - n) = be_val bs + 2 ^ (8 * length bs)"
  using assms
proof (induction bs arbitrary: n)
  case (Cons b bs)
  let ?L = "length bs"
  show ?case
  proof (cases "n > 8")
    case True
    have "unat b * 2 ^ (8 * ?L) \<le> be_val (b # bs)" by (simp add: pow256)
    also have "\<dots> < 2 ^ (8 * ?L - (n - 8))" using Cons.prems(1) True by (simp add: add.commute)
    also have "\<dots> \<le> 2 ^ (8 * ?L)" by (rule power_increasing) simp_all
    finally have b: "unat b = 0" by simp
    have "bs \<noteq> []" "n - 8 \<le> 8 * ?L" using Cons.prems(2) True by auto
    moreover have "be_val bs < 2 ^ (8 * ?L - (n - 8))" using Cons.prems(1) True b by (simp add: add.commute)
    ultimately obtain r where r: "fill_ones (n - 8) bs = Some r" "length r = ?L"
        "be_val r + 2 ^ (8 * ?L - (n - 8)) = be_val bs + 2 ^ (8 * ?L)"
      using Cons.IH [of "n - 8"] by blast
    have e: "8 * length (b # bs) - n = 8 * ?L - (n - 8)" using True by simp
    have "be_val (0xFF # r) + 2 ^ (8 * ?L - (n - 8)) = be_val (b # bs) + 2 ^ (8 * length (b # bs))"
      using r(2,3) b by (simp add: pow256 power_add)
    then show ?thesis using True r(1,2) unfolding e by simp
  next
    case False
    then have n: "n \<le> 8" by simp
    have e: "8 * length (b # bs) - n = (8 - n) + 8 * ?L" using n by simp
    have "be_val (update_hd (\<lambda>x. x OR NOT (mask (8 - n))) (b # bs)) + 2 ^ ((8 - n) + 8 * (length (b # bs) - 1))
        = be_val (b # bs) + 2 ^ (8 * length (b # bs))"
      by (rule be_val_or_hd) (use Cons.prems(1) e in simp_all)
    then show ?thesis using False e by (simp add: update_hd_def ff_xor mask_forms)
  qed
qed simp

definition comp_len :: "bignum \<Rightarrow> nat \<Rightarrow> int \<Rightarrow> nat" where
  "comp_len B r z = (BN_num_bits B z + 7 + r) div 7"

definition comp_val :: "bignum \<Rightarrow> nat \<Rightarrow> int \<Rightarrow> nat" where
  "comp_val B r z = (let n = comp_len B r z in
     if z < 0 then 2 ^ (7 * n - r) - 1 - nat \<bar>z\<bar> else 2 ^ (8 * n - r) - 2 ^ (7 * n - r) + nat \<bar>z\<bar>)"

lemma comp_len_bounds:
  assumes "bn_laws B" "r < 7"
  shows "0 < comp_len B r z" "nat \<bar>z\<bar> < 2 ^ (7 * comp_len B r z - r - 1)" "BN_num_bits B z + 1 + r \<le> 7 * comp_len B r z"
    "7 * comp_len B r z \<le> BN_num_bits B z + 7 + r"
proof -
  show 1: "0 < comp_len B r z" "BN_num_bits B z + 1 + r \<le> 7 * comp_len B r z"
      "7 * comp_len B r z \<le> BN_num_bits B z + 7 + r"
    unfolding comp_len_def by auto
  have "nat \<bar>z\<bar> < 2 ^ BN_num_bits B z" by (rule bn_bits [OF assms(1)])
  also have "\<dots> \<le> 2 ^ (7 * comp_len B r z - r - 1)" using 1 by (intro power_increasing) simp_all
  finally show "nat \<bar>z\<bar> < 2 ^ (7 * comp_len B r z - r - 1)" .
qed

text \<open>The two numbers between which the steps of the encoder move: with the reserved bits set, and without.\<close>
lemma leading_ones_mod:
  fixes n r a :: nat
  assumes "0 < n" "r < 7" "a < 2 ^ (7 * n - r - 1)" "full + 2 ^ (7 * n - r) = a + 2 ^ (8 * n)"
  shows "full mod 2 ^ (8 * n - r) = 2 ^ (8 * n - r) - 2 ^ (7 * n - r) + a"
    "2 ^ (8 * n) - 1 - full = 2 ^ (7 * n - r) - 1 - a"
    "2 ^ (7 * n - r) - 1 - a < 2 ^ (8 * n - r)"
    "2 ^ (8 * n - r) - 2 ^ (7 * n - r) + a < 2 ^ (8 * n - r)" "(2::nat) ^ (7 * n - r) \<le> 2 ^ (8 * n - r)"
proof -
  have le: "(2::nat) ^ (7 * n - r) \<le> 2 ^ (8 * n - r)" by (rule power_increasing) simp_all
  then show "(2::nat) ^ (7 * n - r) \<le> 2 ^ (8 * n - r)" .
  have "(2::nat) ^ (7 * n - r - 1) \<le> 2 ^ (7 * n - r)" by (rule power_increasing) simp_all
  with assms(3) have a: "a < 2 ^ (7 * n - r)" by (rule less_le_trans)
  have "8 * n = r + (8 * n - r)" using assms(1,2) by simp
  then have split: "(2::nat) ^ (8 * n) = 2 ^ r * 2 ^ (8 * n - r)" by (metis power_add)
  let ?p = "2 ^ (8 * n - r) :: nat" and ?q = "2 ^ (7 * n - r) :: nat"
  show lt: "?p - ?q + a < ?p" using a le by linarith
  have "(2 ^ r - 1) * ?p + ?p = 2 ^ (8 * n)" unfolding split by (simp add: diff_mult_distrib)
  then have full: "full = (2 ^ r - 1) * ?p + (?p - ?q + a)" using assms(4) le by linarith
  show "full mod ?p = ?p - ?q + a" unfolding full using lt by (simp only: mod_mult_self3 mod_less)
  show "2 ^ (8 * n) - 1 - full = ?q - 1 - a" using assms(4) a by linarith
  have "0 < ?p" by simp
  then show "?q - 1 - a < ?p" using le by linarith
qed

lemma be_val_masked:
  assumes "bs \<noteq> []" "r < 8"
  shows "be_val (if r > 0 then update_hd (\<lambda>b. b AND (push_bit (8 - r) 1 - 1)) bs else bs) = be_val bs mod 2 ^ (8 * length bs - r)"
proof -
  have "8 - r + 8 * (length bs - 1) = 8 * length bs - r" using assms by (cases bs) simp_all
  then have "be_val (update_hd (\<lambda>b. b AND mask (8 - r)) bs) = be_val bs mod 2 ^ (8 * length bs - r)"
    using be_val_mask_hd [OF assms(1), of "8 - r"] by simp
  then show ?thesis using be_val_less [of bs] by (simp add: mask_forms pow256)
qed

lemma EncodeToComparable_val:
  assumes B: "bn_laws B" and r: "r < 7"
  shows "\<exists>bs. EncodeToComparable B r z = Some bs \<and> length bs = comp_len B r z \<and> be_val bs = comp_val B r z"
proof (cases "z = 0")
  case True
  then have n: "comp_len B r 0 = 1" using r by (simp add: comp_len_def bn_rules [OF B])
  have "r \<in> {0, 1, 2, 3, 4, 5, 6}" using r by auto
  then have "unat (drop_bit r (0x80 :: byte)) = 2 ^ (8 - r) - 2 ^ (7 - r)"
    by (auto simp: unat_drop_bit_div)
  then show ?thesis using r by (simp add: EncodeToComparable_def comp_val_def n True bn_rules [OF B])
next
  case False
  let ?n = "comp_len B r z" and ?b = "BN_num_bits B z"
  note len = comp_len_bounds [OF B r, of z]
  have r8: "r < 8" using r by simp
  have nb: "(?b + 1 + r + 6) div 7 = ?n" by (simp add: comp_len_def)
  have words: "(?b + (1 + ?n + (?n * 7 - (?b + 1 + r))) + 7) div 8 = ?n" using len r by simp
  have body: "(?b + 7) div 8 \<le> ?n" using len(3) by simp
  let ?data = "replicate (?n - (?b + 7) div 8) 0 @ BN_bn2bin B z"
  have data: "length ?data = ?n" "be_val ?data = nat \<bar>z\<bar>"
    using body by (simp_all add: bn_rules [OF B])
  then have ne: "?data \<noteq> []" using len(1) by (metis length_0_conv less_irrefl)
  have ex: "8 * ?n - (?n + r) = 7 * ?n - r" by simp
  have "nat \<bar>z\<bar> < 2 ^ (7 * ?n - r)"
    by (rule less_le_trans [OF len(2)], rule power_increasing) simp_all
  then obtain f where f: "fill_ones (?n + r) ?data = Some f" "length f = ?n"
      "be_val f + 2 ^ (7 * ?n - r) = nat \<bar>z\<bar> + 2 ^ (8 * ?n)"
    using fill_ones_val [of ?data "?n + r"] data ne len(3) unfolding ex data(1) by auto
  note val = leading_ones_mod [OF len(1) r len(2) f(3)]
  let ?g = "if z < 0 then FlipBits f else f"
  have g: "length ?g = ?n" "be_val ?g = (if z < 0 then 2 ^ (7 * ?n - r) - 1 - nat \<bar>z\<bar> else be_val f)"
    using val(2) by (simp_all add: FlipBits_def be_val_not f(2) pow256)
  then have "?g \<noteq> []" using len(1) by auto
  have "EncodeToComparable B r z = Some (if r > 0 then update_hd (\<lambda>b. b AND (push_bit (8 - r) 1 - 1)) ?g else ?g)"
    using r False unfolding EncodeToComparable_def Let_def nb words by (simp add: f(1) bn_rules [OF B] del: push_bit_of_1)
  moreover have "be_val (if r > 0 then update_hd (\<lambda>b. b AND (push_bit (8 - r) 1 - 1)) ?g else ?g) = comp_val B r z"
    unfolding be_val_masked [OF \<open>?g \<noteq> []\<close> r8] g comp_val_def Let_def
    using val(1) mod_less [OF val(3)] by (cases "z < 0") (simp_all only: if_True if_False)
  ultimately show ?thesis using g(1) by simp
qed

subsection \<open>Order\<close>

lemma comp_val_sign:
  "z < 0 \<Longrightarrow> comp_val B r z = 2 ^ (7 * comp_len B r z - r) - 1 - nat \<bar>z\<bar>"
  "0 \<le> z \<Longrightarrow> comp_val B r z = 2 ^ (8 * comp_len B r z - r) - 2 ^ (7 * comp_len B r z - r) + nat \<bar>z\<bar>"
  by (simp_all add: comp_val_def Let_def)

lemma comp_val_less:
  assumes B: "bn_laws B" and r: "r < 7"
  shows "z < 0 \<Longrightarrow> comp_val B r z < 2 ^ (7 * comp_len B r z - r)"
    "z < 0 \<Longrightarrow> 2 ^ (7 * comp_len B r z - r - 1) \<le> comp_val B r z"
    "0 \<le> z \<Longrightarrow> comp_val B r z + 1 + 2 ^ (7 * comp_len B r z - r - 1) \<le> 2 ^ (8 * comp_len B r z - r)"
    "0 \<le> z \<Longrightarrow> 2 ^ (8 * comp_len B r z - r) \<le> comp_val B r z + 2 ^ (7 * comp_len B r z - r)"
proof -
  let ?n = "comp_len B r z"
  note len = comp_len_bounds [OF B r, of z]
  have "7 * ?n - r = Suc (7 * ?n - r - 1)" using len(1) r by simp
  then have two: "(2::nat) ^ (7 * ?n - r) = 2 * 2 ^ (7 * ?n - r - 1)" by (metis power_Suc)
  have le: "(2::nat) ^ (7 * ?n - r) \<le> 2 ^ (8 * ?n - r)" by (rule power_increasing) simp_all
  show "comp_val B r z < 2 ^ (7 * ?n - r)" "2 ^ (7 * ?n - r - 1) \<le> comp_val B r z" if "z < 0"
    using comp_val_sign(1) [OF that, of B r] len(2) two by linarith+
  show "comp_val B r z + 1 + 2 ^ (7 * ?n - r - 1) \<le> 2 ^ (8 * ?n - r)"
      "2 ^ (8 * ?n - r) \<le> comp_val B r z + 2 ^ (7 * ?n - r)" if "0 \<le> z"
    using comp_val_sign(2) [OF that, of B r] len(2) le two by linarith+
qed

lemma pow_exp_mono: "a \<le> b + c \<Longrightarrow> (2::nat) ^ a \<le> 2 ^ b * 2 ^ c"
  by (simp flip: power_add)

lemma comp_hd:
  assumes B: "bn_laws B" and r: "r < 7"
  shows "z < 0 \<Longrightarrow> comp_val B r z < 2 ^ (7 - r) * 256 ^ (comp_len B r z - 1)"
    "0 \<le> z \<Longrightarrow> 2 ^ (7 - r) * 256 ^ (comp_len B r z - 1) \<le> comp_val B r z"
proof -
  let ?n = "comp_len B r z"
  note pos = comp_len_bounds(1) [OF B r, of z]
  have le: "(2::nat) ^ (7 * ?n - r) \<le> 2 ^ (7 - r) * 256 ^ (?n - 1)"
    unfolding pow256 by (rule pow_exp_mono) (use pos r in simp)
  show "comp_val B r z < 2 ^ (7 - r) * 256 ^ (?n - 1)" if "z < 0"
    using comp_val_less(1) [OF B r that] le by (rule less_le_trans)
  have "8 * ?n - r = Suc ((7 - r) + 8 * (?n - 1))" using pos r by simp
  then have "(2::nat) ^ (8 * ?n - r) = 2 * (2 ^ (7 - r) * 256 ^ (?n - 1))" unfolding pow256 by (metis power_Suc power_add)
  then show "2 ^ (7 - r) * 256 ^ (?n - 1) \<le> comp_val B r z" if "0 \<le> z"
    using comp_val_less(4) [OF B r that] le by linarith
qed

lemma comp_len_mono:
  assumes "bn_laws B" "\<bar>x\<bar> \<le> \<bar>y\<bar>"
  shows "comp_len B r x \<le> comp_len B r y"
  using bn_bits_mono [OF assms] by (simp add: comp_len_def div_le_mono)

lemma EncodeToComparable_below:
  assumes B: "bn_laws B" and r: "r < 7" and xy: "x < y"
    and xs: "EncodeToComparable B r x = Some xs" and ys: "EncodeToComparable B r y = Some ys"
  shows "below xs ys"
proof -
  let ?n = "comp_len B r x" and ?m = "comp_len B r y"
  have vx: "length xs = ?n" "be_val xs = comp_val B r x" and vy: "length ys = ?m" "be_val ys = comp_val B r y"
    using EncodeToComparable_val [OF B r, of x] EncodeToComparable_val [OF B r, of y] xs ys by auto
  note pos = comp_len_bounds(1) [OF B r]
  consider (sign) "x < 0" "0 \<le> y" | (plus) "0 \<le> x" | (minus) "y < 0" by linarith
  then show ?thesis
  proof cases
    case sign
    have "xs \<noteq> []" "ys \<noteq> []" using vx(1) vy(1) pos [of x] pos [of y] by auto
    then show ?thesis
      by (rule below_first [of _ _ "2 ^ (7 - r)"])
        (use comp_hd(1) [OF B r sign(1)] comp_hd(2) [OF B r sign(2)] in \<open>simp_all add: vx vy\<close>)
  next
    case plus
    then have nm: "?n \<le> ?m" using xy by (intro comp_len_mono [OF B]) simp
    show ?thesis
    proof (cases "?n = ?m")
      case True
      have "nat \<bar>x\<bar> < nat \<bar>y\<bar>" "0 \<le> y" using plus xy by simp_all
      then have "comp_val B r x < comp_val B r y"
        unfolding comp_val_sign(2) [OF plus] comp_val_sign(2) [OF \<open>0 \<le> y\<close>] True by linarith
      with True show ?thesis by (subst below_be_val) (simp_all add: vx vy)
    next
      case False
      let ?d = "8 * (?m - ?n)"
      have d: "8 * ?m - r = 8 * ?n - r + ?d" using nm pos [of x] r by simp
      have "(2::nat) ^ (7 * ?m - r) \<le> 2 ^ (7 * ?n - r - 1) * 2 ^ ?d"
        using nm False pos [of x] r by (intro pow_exp_mono) simp
      moreover have "(comp_val B r x + 1 + 2 ^ (7 * ?n - r - 1)) * 2 ^ ?d \<le> 2 ^ (8 * ?n - r) * 2 ^ ?d"
        by (rule mult_right_mono [OF comp_val_less(3) [OF B r plus]]) simp
      ultimately have "(comp_val B r x + 1) * 2 ^ ?d + 2 ^ (7 * ?m - r) \<le> 2 ^ (8 * ?m - r)"
        unfolding d power_add by (simp add: algebra_simps)
      moreover have "2 ^ (8 * ?m - r) \<le> comp_val B r y + 2 ^ (7 * ?m - r)"
        by (rule comp_val_less(4) [OF B r]) (use plus xy in simp)
      ultimately have "(comp_val B r x + 1) * 2 ^ ?d \<le> comp_val B r y" by linarith
      then show ?thesis by (intro below_longer) (use nm in \<open>simp_all add: vx vy pow256\<close>)
    qed
  next
    case minus
    then have x: "x < 0" and nm: "?m \<le> ?n" using xy by (auto intro: comp_len_mono [OF B])
    show ?thesis
    proof (cases "?n = ?m")
      case True
      have "nat \<bar>y\<bar> < nat \<bar>x\<bar>" "nat \<bar>x\<bar> < 2 ^ (7 * ?n - r)"
        using minus xy comp_val_less(1) [OF B r x] less_le_trans [OF comp_len_bounds(2) [OF B r, of x]
            power_increasing [of "7 * ?n - r - 1" "7 * ?n - r" 2]] by simp_all
      then have "comp_val B r x < comp_val B r y"
        unfolding comp_val_sign(1) [OF x] comp_val_sign(1) [OF minus] True by linarith
      with True show ?thesis by (subst below_be_val) (simp_all add: vx vy)
    next
      case False
      let ?d = "8 * (?n - ?m)"
      have "comp_val B r x < 2 ^ (7 * ?n - r)" by (rule comp_val_less(1) [OF B r x])
      also have "\<dots> \<le> 2 ^ (7 * ?m - r - 1) * 2 ^ ?d" using nm False pos [of y] r by (intro pow_exp_mono) simp
      also have "\<dots> \<le> comp_val B r y * 2 ^ ?d" using comp_val_less(2) [OF B r minus] by simp
      finally show ?thesis by (intro below_shorter) (use nm in \<open>simp_all add: vx vy pow256\<close>)
    qed
  qed
qed

subsection \<open>Decoding\<close>

lemma bit_unat: "bit (c :: byte) k \<longleftrightarrow> odd (unat c div 2 ^ k)"
proof -
  have "bit (unat c) k \<longleftrightarrow> bit c k" by (simp add: bit_simps)
  then show ?thesis by (simp add: bit_iff_odd [of "unat c"])
qed

lemma bit_top: "unat (c :: byte) < 2 ^ Suc k \<Longrightarrow> bit c k \<longleftrightarrow> 2 ^ k \<le> unat c"
proof -
  assume "unat c < 2 ^ Suc k"
  then have "unat c div 2 ^ k < 2" by (simp add: div_less_iff_less_mult)
  then have "odd (unat c div 2 ^ k) \<longleftrightarrow> 0 < unat c div 2 ^ k" by (auto simp: less_2_cases_iff)
  then show ?thesis by (simp add: bit_unat div_greater_zero_iff)
qed

lemma xor_single:
  assumes "bit (c :: byte) k" "k < 8"
  shows "unat (c XOR push_bit k 1) + 2 ^ k = unat c"
proof -
  let ?p = "push_bit k (1 :: byte)"
  have "(c XOR ?p) AND ?p = 0" by (rule bit_word_eqI) (use assms in \<open>auto simp: bit_simps\<close>)
  then have "(c XOR ?p) + ?p = (c XOR ?p) OR ?p" by (rule disjunctive_add_eq_or)
  also have "\<dots> = c" by (rule bit_word_eqI) (use assms in \<open>auto simp: bit_simps\<close>)
  finally have "c XOR ?p = c - ?p" by (metis add_diff_cancel_right')
  moreover have "k \<in> {0, 1, 2, 3, 4, 5, 6, 7}" using assms(2) by auto
  then have p: "unat ?p = 2 ^ k" by auto
  moreover have le: "2 ^ k \<le> unat c"
    using assms(1) by (metis bit_unat div_less even_zero not_less)
  ultimately show ?thesis by (simp add: unat_sub word_le_nat_alt)
qed

lemma strip_ones_Suc:
  "strip_ones (Suc k) b n = (if bit b k then strip_ones k (b XOR push_bit k 1) (Suc n) else (b, n))"
  by (simp only: strip_ones.simps bit_iff_and_push_bit_not_eq_0)

lemma strip_ones_val:
  assumes "k \<le> 8" "n < k" "x < 2 ^ (k - n - 1)" "unat c + 2 ^ (k - n) = 2 ^ k + x"
  shows "strip_ones k c m = (of_nat x, m + n)"
  using assms
proof (induction n arbitrary: k c m)
  case 0
  then obtain k' where k: "k = Suc k'" by (cases k) auto
  have "unat c = x" using 0 by simp
  then have "unat c < 2 ^ k'" using 0(3) k by simp
  then have "\<not> bit c k'" using bit_top [of c k'] by simp
  with \<open>unat c = x\<close> show ?case by (auto simp: k strip_ones_Suc simp del: strip_ones.simps)
next
  case (Suc n)
  then obtain k' where k: "k = Suc k'" by (cases k) auto
  have kn: "k - Suc n = k' - n" "k' - n = Suc (k' - n - 1)" using Suc.prems(2) k by simp_all
  have "(2::nat) ^ (k' - n) = 2 * 2 ^ (k' - n - 1)" using kn(2) by (metis power_Suc)
  moreover have x: "x < 2 ^ (k' - n - 1)" using Suc.prems(3) kn(1) by simp
  moreover have c: "unat c + 2 ^ (k' - n) = 2 * 2 ^ k' + x" using Suc.prems(4) kn(1) k by simp
  moreover have "(2::nat) ^ (k' - n) \<le> 2 ^ k'" by (rule power_increasing) simp_all
  ultimately have "2 ^ k' \<le> unat c" "unat c < 2 ^ Suc k'" by simp_all
  then have bit: "bit c k'" by (simp add: bit_top)
  moreover have "k' < 8" using Suc.prems(1) k by simp
  ultimately have u: "unat (c XOR push_bit k' 1) + 2 ^ k' = unat c" by (rule xor_single)
  have "strip_ones k' (c XOR push_bit k' 1) (Suc m) = (of_nat x, Suc m + n)"
    by (rule Suc.IH) (use Suc.prems(1,2) x c u k in simp_all)
  then show ?case using bit by (simp add: k strip_ones_Suc del: push_bit_of_1 strip_ones.simps)
qed

lemma split_ones:
  assumes "be_val F + 2 ^ (8 * length F - n) = a + 2 ^ (8 * length F)" "a < 2 ^ (8 * length F - n - 1)" "n < 8 * length F"
  shows "\<exists>idx b. count_full (F @ rest) = Some idx \<and> idx < length F \<and> 8 * idx \<le> n
    \<and> (\<forall>m. strip_ones 8 (F ! idx) m = (b, m + (n - 8 * idx))) \<and> be_val (drop idx (F[idx := b])) = a"
  using assms
proof (induction F arbitrary: n)
  case (Cons c F)
  let ?p = "2 ^ (8 * length F) :: nat"
  have len: "(2::nat) ^ (8 * length (c # F)) = 256 * ?p" by (simp add: power_add)
  have val: "be_val (c # F) = unat c * ?p + be_val F" by (simp add: pow256)
  have F: "be_val F < ?p" using be_val_less [of F] by (simp add: pow256)
  show ?case
  proof (cases "8 \<le> n")
    case True
    then have e: "8 * length (c # F) - n = 8 * length F - (n - 8)" by simp
    have "(2::nat) ^ (8 * length F - (n - 8)) \<le> ?p" by (rule power_increasing) simp_all
    then have "255 * ?p \<le> unat c * ?p + be_val F" using Cons.prems(1) unfolding e len val by linarith
    then have "255 * ?p < (unat c + 1) * ?p" using F unfolding add_mult_distrib by linarith
    then have "255 < unat c + 1" unfolding mult_less_cancel2 by blast
    then have c: "unat c = 255" using unat_byte [of c] by simp
    then have "c = 0xFF" by (simp add: word_unat_eq_iff)
    moreover have v: "be_val F + 2 ^ (8 * length F - (n - 8)) = a + ?p" using Cons.prems(1) unfolding e len val c by linarith
    have "a < 2 ^ (8 * length F - (n - 8) - 1)" "n - 8 < 8 * length F" using Cons.prems(2,3) True unfolding e by simp_all
    from Cons.IH [OF v this] obtain idx b where "count_full (F @ rest) = Some idx" "idx < length F" "8 * idx \<le> n - 8"
        "\<And>m. strip_ones 8 (F ! idx) m = (b, m + (n - 8 - 8 * idx))" "be_val (drop idx (F[idx := b])) = a"
      by blast
    ultimately show ?thesis using True by (intro exI [of _ "Suc idx"] exI [of _ b]) simp
  next
    case False
    then have n: "8 * length (c # F) - n = (8 - n) + 8 * length F" "8 * length (c # F) - n - 1 = (7 - n) + 8 * length F"
      by simp_all
    have eq: "(unat c + 2 ^ (8 - n)) * ?p + be_val F = 256 * ?p + a"
      using Cons.prems(1) unfolding n len val power_add by (simp add: algebra_simps)
    have a: "a < 2 ^ (7 - n) * ?p" using Cons.prems(2) unfolding n(2) power_add .
    have "unat c + 2 ^ (8 - n) = (256 * ?p + a) div ?p" "be_val F = (256 * ?p + a) mod ?p"
      using F by (simp_all flip: eq)
    then have c: "unat c + 2 ^ (8 - n) = 256 + a div ?p" and m: "be_val F = a mod ?p" by simp_all
    have x: "a div ?p < 2 ^ (7 - n)" using a by (simp add: div_less_iff_less_mult)
    have b: "strip_ones 8 c k = (of_nat (a div ?p), k + n)" for k
      by (rule strip_ones_val) (use x c False in simp_all)
    have "a div ?p < 256" using less_le_trans [OF x power_increasing [of "7 - n" 8 2]] by simp
    then have "unat (of_nat (a div ?p) :: byte) = a div ?p" by (simp add: unat_of_nat)
    have "c \<noteq> 0xFF"
    proof
      assume "c = 0xFF"
      moreover have "(2::nat) ^ (8 - n) = 2 * 2 ^ (7 - n)" using False by (simp add: Suc_diff_le flip: power_Suc)
      ultimately show False using c x by simp
    qed
    moreover have "be_val (of_nat (a div ?p) # F) = a"
      unfolding be_val.simps \<open>unat (of_nat (a div ?p) :: byte) = a div ?p\<close> m pow256 by (rule div_mult_mod_eq)
    ultimately show ?thesis
      using b by (intro exI [of _ 0] exI [of _ "of_nat (a div ?p)"]) (simp del: be_val.simps)
  qed
qed simp

lemma sub_flip: "a < q \<Longrightarrow> q \<le> p \<Longrightarrow> p - 1 - (q - 1 - a) + q = a + (p :: nat)"
  by simp

text \<open>The buffer after restoring the reserved bits and the sign: leading ones, a zero, the magnitude.\<close>
lemma decode_buffer:
  assumes B: "bn_laws B" and r: "r < 7" and e: "EncodeToComparable B r z = Some bs"
  defines "k \<equiv> push_bit (8 - r) 1 - 1"
  defines "F \<equiv> if r > 0 then update_hd (\<lambda>b. b OR NOT k) (if z < 0 then FlipBits bs else bs)
     else if z < 0 then FlipBits bs else bs"
  shows "length F = comp_len B r z" "be_val F + 2 ^ (7 * comp_len B r z - r) = nat \<bar>z\<bar> + 2 ^ (8 * comp_len B r z)"
proof -
  let ?n = "comp_len B r z"
  note len = comp_len_bounds [OF B r, of z]
  have v: "length bs = ?n" "be_val bs = comp_val B r z" using EncodeToComparable_val [OF B r, of z] e by auto
  then have ne: "bs \<noteq> []" using len(1) by auto
  have k: "k = mask (8 - r)" by (simp add: k_def mask_forms)
  show "length F = ?n" by (simp add: F_def v FlipBits_def)
  have ex: "8 - r + 8 * (?n - 1) = 8 * ?n - r" using len(1) r by simp
  have a: "nat \<bar>z\<bar> < 2 ^ (7 * ?n - r)" by (rule less_le_trans [OF len(2)], rule power_increasing) simp_all
  have q: "(2::nat) ^ (7 * ?n - r) \<le> 2 ^ (8 * ?n - r)" "(2::nat) ^ (8 * ?n - r) \<le> 2 ^ (8 * ?n)"
    by (rule power_increasing; simp)+
  show "be_val F + 2 ^ (7 * ?n - r) = nat \<bar>z\<bar> + 2 ^ (8 * ?n)"
  proof (cases "z < 0")
    case True
    have small: "be_val bs < 2 ^ (8 * ?n - r)" using comp_val_less(1) [OF B r True] q unfolding v by linarith
    have "be_val (update_hd (\<lambda>b. b AND k) bs) = be_val bs"
      using be_val_mask_hd [OF ne, of "8 - r"] small ex by (simp add: k v(1))
    then have same: "update_hd (\<lambda>b. b AND k) bs = bs" by (intro be_val_inj) simp_all
    obtain b rest where bs: "bs = b # rest" using ne by (cases bs) auto
    from same have "b AND k = b" by (simp add: bs update_hd_def)
    then have "NOT b OR NOT k = NOT b" by (metis bit.de_Morgan_conj)
    then have "update_hd (\<lambda>b. b OR NOT k) (FlipBits bs) = FlipBits bs" by (simp add: bs update_hd_def FlipBits_def)
    then have "F = FlipBits bs" using True unfolding F_def by simp
    then have "be_val F = 2 ^ (8 * ?n) - 1 - (2 ^ (7 * ?n - r) - 1 - nat \<bar>z\<bar>)"
      by (simp add: FlipBits_def be_val_not v pow256 comp_val_sign(1) [OF True])
    then show ?thesis using sub_flip [OF a order_trans [OF q]] by (simp only:)
  next
    case False
    then have bs: "be_val bs = 2 ^ (8 * ?n - r) - 2 ^ (7 * ?n - r) + nat \<bar>z\<bar>" 
      by (intro trans [OF v(2) comp_val_sign(2)]) simp
    then have "be_val bs < 2 ^ (8 * ?n - r)" using a q by linarith
    then have "be_val (update_hd (\<lambda>b. b OR NOT k) bs) + 2 ^ (8 * ?n - r) = be_val bs + 2 ^ (8 * ?n)"
      using be_val_or_hd [OF ne, of "8 - r"] ex by (simp add: k v(1))
    then have up: "be_val (update_hd (\<lambda>b. b OR NOT k) bs) + 2 ^ (7 * ?n - r) = nat \<bar>z\<bar> + 2 ^ (8 * ?n)"
      using a q bs by linarith
    have "be_val bs + 2 ^ (7 * ?n - r) = nat \<bar>z\<bar> + 2 ^ (8 * ?n)" if "r = 0"
      using q bs unfolding that diff_zero by linarith
    with up False show ?thesis unfolding F_def by simp
  qed
qed

lemma DecodeFromComparable_encoded:
  assumes B: "bn_laws B" and r: "r < 7" and e: "EncodeToComparable B r z = Some bs"
  shows "DecodeFromComparable B r (bs @ rest) = Some (Inr (z, length bs))"
proof -
  let ?n = "comp_len B r z"
  note len = comp_len_bounds [OF B r, of z]
  have v: "length bs = ?n" "be_val bs = comp_val B r z" using EncodeToComparable_val [OF B r, of z] e by auto
  then obtain b0 bs' where bs: "bs = b0 # bs'" using len(1) by (cases bs) auto
  define G where "G = (\<lambda>xs. if z < 0 then FlipBits xs else xs)"
  define F where "F = (if r > 0 then update_hd (\<lambda>b. b OR NOT (push_bit (8 - r) 1 - 1)) (G bs) else G bs)"
  have F: "length F = ?n" "be_val F + 2 ^ (7 * ?n - r) = nat \<bar>z\<bar> + 2 ^ (8 * ?n)"
    using decode_buffer [OF B r e] unfolding F_def G_def by simp_all
  have "drop_bit r 0x80 = push_bit (7 - r) (1 :: byte)"
  proof -
    have "r \<in> {0, 1, 2, 3, 4, 5, 6}" using r by auto
    then show ?thesis by (auto simp: word_unat_eq_iff unat_drop_bit_div)
  qed
  moreover have hd: "unat b0 = comp_val B r z div 256 ^ (?n - 1)" using be_val_hd [of bs] unfolding v by (simp add: bs)
  moreover have "comp_val B r z < 2 ^ Suc (7 - r) * 256 ^ (?n - 1)"
  proof -
    have "8 * ?n - r = Suc (7 - r) + 8 * (?n - 1)" using len(1) r by simp
    then have "(2::nat) ^ (8 * ?n - r) = 2 ^ Suc (7 - r) * 256 ^ (?n - 1)" unfolding pow256 by (metis power_add)
    moreover have "comp_val B r z < 2 ^ (8 * ?n - r)"
      using comp_val_less(1,3) [OF B r, of z] power_increasing [of "7 * ?n - r" "8 * ?n - r" "2 :: nat"] by linarith
    ultimately show ?thesis by (simp only:)
  qed
  then have "unat b0 < 2 ^ Suc (7 - r)" unfolding hd by (simp only: div_less_iff_less_mult zero_less_power zero_less_numeral)
  moreover have "z < 0 \<longleftrightarrow> \<not> 2 ^ (7 - r) \<le> unat b0"
    using comp_hd [OF B r, of z] unfolding hd
    by (simp only: div_less_iff_less_mult zero_less_power zero_less_numeral not_le) linarith
  ultimately have neg: "(b0 AND drop_bit r 0x80 = 0) \<longleftrightarrow> z < 0"
    using bit_top [of b0 "7 - r"] by (simp only: bit_iff_and_push_bit_not_eq_0) blast
  have ex: "8 * length F - (?n + r) = 7 * ?n - r" by (simp add: F)
  obtain idx b where idx: "count_full (F @ G rest) = Some idx" "idx < length F" "8 * idx \<le> ?n + r"
      "\<And>m. strip_ones 8 (F ! idx) m = (b, m + (?n + r - 8 * idx))" "be_val (drop idx (F[idx := b])) = nat \<bar>z\<bar>"
    using split_ones [of F "?n + r" "nat \<bar>z\<bar>" "G rest"] F len unfolding ex by auto
  have "G bs \<noteq> []" by (simp add: G_def FlipBits_def bs)
  moreover have "G (bs @ rest) = G bs @ G rest" by (simp add: G_def FlipBits_def)
  ultimately have buffer: "(if r > 0 then update_hd (\<lambda>b. b OR NOT (push_bit (8 - r) 1 - 1)) (G (bs @ rest)) else G (bs @ rest)) = F @ G rest"
    unfolding F_def by (cases "G bs") (simp_all add: update_hd_def)
  have le: "idx \<le> ?n" using idx(3) len(1) r by simp
  have body: "take (?n - idx) (drop idx ((F @ G rest)[idx := b])) = drop idx (F[idx := b])"
    using idx(2) F(1) by (simp add: list_update_append)
  have flip: "(if z < 0 then FlipBits (bs @ rest) else bs @ rest) = G (bs @ rest)" by (simp add: G_def)
  have sign: "hd (bs @ rest) AND drop_bit r 0x80 = 0 \<longleftrightarrow> z < 0" using neg by (simp add: bs)
  have strip: "strip_ones 8 ((F @ G rest) ! idx) (8 * idx) = (b, ?n + r)" using idx(2,3,4) by (simp add: nth_append)
  have "bs @ rest \<noteq> []" "check_that (r < 8) = Some ()" using bs r by simp_all
  then show ?thesis
    unfolding DecodeFromComparable_def Let_def sign flip buffer idx(1) option.case strip prod.case
    using le v(1) by (simp add: body idx(5) bn_rules [OF B])
qed

subsection \<open>Two's complement\<close>

lemma be_val_rev_Cons: "be_val (rev (b # bs)) = be_val (rev bs) * 256 + unat b"
  by (simp add: be_val_append)

lemma add_one_val:
  assumes "be_val (rev xs) + 1 < 256 ^ length xs"
  shows "\<exists>ys k. add_one xs = Some (ys, k) \<and> length ys = length xs \<and> be_val (rev ys) = be_val (rev xs) + 1
    \<and> k < length xs \<and> 256 ^ k dvd be_val (rev ys)"
  using assms
proof (induction xs)
  case (Cons b bs)
  show ?case
  proof (cases "b = 0xFF")
    case True
    then have "(be_val (rev bs) + 1) * 256 < 256 ^ length bs * 256" using Cons.prems unfolding be_val_rev_Cons by simp
    then have "be_val (rev bs) + 1 < 256 ^ length bs" unfolding mult_less_cancel2 by blast
    then obtain ys k where ys: "add_one bs = Some (ys, k)" "length ys = length bs" "be_val (rev ys) = be_val (rev bs) + 1"
        "k < length bs" "256 ^ k dvd be_val (rev ys)"
      using Cons.IH by auto
    have "256 ^ Suc k dvd be_val (rev (0 # ys))" using mult_dvd_mono [OF dvd_refl [of 256] ys(5)]
      by (simp add: be_val_append mult.commute)
    then show ?thesis using True ys(1-4)
      by (intro exI [of _ "0 # ys"] exI [of _ "Suc k"]) (simp add: be_val_append)
  next
    case False
    then have "unat b \<noteq> 255" by (simp add: word_unat_eq_iff)
    then have "unat b + 1 < 256" using unat_byte [of b] by simp
    then have "unat (b + 1) = unat b + 1" by (simp add: unat_word_ariths)
    then show ?thesis using False by (simp add: be_val_append)
  qed
qed simp

lemma sub_one_val:
  assumes "0 < be_val (rev xs)"
  shows "\<exists>ys k. sub_one xs = Some (ys, k) \<and> length ys = length xs \<and> be_val (rev ys) = be_val (rev xs) - 1"
  using assms
proof (induction xs)
  case (Cons b bs)
  show ?case
  proof (cases "b = 0")
    case True
    then have "0 < be_val (rev bs)" using Cons.prems by (simp add: be_val_append)
    then obtain ys k where "sub_one bs = Some (ys, k)" "length ys = length bs" "be_val (rev ys) = be_val (rev bs) - 1"
      using Cons.IH by blast
    then show ?thesis using True \<open>0 < be_val (rev bs)\<close> by (simp add: be_val_append)
  next
    case False
    then have "0 < unat b" by (simp add: word_unat_eq_iff)
    then have "unat (b - 1) = unat b - 1" by (simp add: unat_sub word_le_nat_alt)
    then show ?thesis using False \<open>0 < unat b\<close> by (simp add: be_val_append)
  qed
qed simp

text \<open>What a byte string means in two's complement.\<close>
definition tc_val :: "byte list \<Rightarrow> int" where
  "tc_val bs = (if be_val bs < 128 * 256 ^ (length bs - 1) then int (be_val bs) else int (be_val bs) - 256 ^ length bs)"

lemma top_bit:
  assumes "bs \<noteq> []"
  shows "hd bs AND 0x80 = 0 \<longleftrightarrow> be_val bs < 128 * 256 ^ (length bs - 1)"
proof -
  have "hd bs AND push_bit 7 1 \<noteq> 0 \<longleftrightarrow> 2 ^ 7 \<le> unat (hd bs)"
    using bit_top [of "hd bs" 7] unat_byte [of "hd bs"] by (simp add: bit_iff_and_push_bit_not_eq_0)
  then show ?thesis using be_val_hd [OF assms] by (simp add: div_less_iff_less_mult flip: not_less)
qed

lemma DecodeFromTwosComplement_val:
  assumes "bn_laws B" "bs \<noteq> []"
  shows "DecodeFromTwosComplement B bs = Some (Inr (tc_val bs))"
proof (cases "be_val bs < 128 * 256 ^ (length bs - 1)")
  case True
  then show ?thesis
    using assms by (simp add: DecodeFromTwosComplement_def top_bit tc_val_def bn_rules [OF assms(1)])
next
  case False
  then have "0 < be_val bs" by (metis gr0I mult_pos_pos zero_less_numeral zero_less_power)
  then obtain ys k where ys: "sub_one (rev bs) = Some (ys, k)" "length ys = length bs" "be_val (rev ys) = be_val bs - 1"
    using sub_one_val [of "rev bs"] by auto
  have "be_val (FlipBits (rev ys)) = 256 ^ length bs - be_val bs"
    using ys \<open>0 < be_val bs\<close> by (simp only: FlipBits_def be_val_not length_rev)
  then have "- \<bar>int (be_val (FlipBits (rev ys)))\<bar> = int (be_val bs) - 256 ^ length bs"
    using be_val_less [of bs] by (simp add: of_nat_diff)
  then show ?thesis
    using assms False ys(1) by (simp add: DecodeFromTwosComplement_def top_bit tc_val_def bn_rules [OF assms(1)])
qed

text \<open>The numbers of \<open>n\<close> bytes.\<close>
definition tc_range :: "nat \<Rightarrow> int \<Rightarrow> bool" where
  "tc_range n z \<longleftrightarrow> - (2 ^ (8 * n - 1)) \<le> z \<and> z < 2 ^ (8 * n - 1)"

lemma tc_range_mono: "tc_range m z \<Longrightarrow> m \<le> n \<Longrightarrow> tc_range n z"
proof -
  assume *: "tc_range m z" "m \<le> n"
  have "(2 :: int) ^ (8 * m - 1) \<le> 2 ^ (8 * n - 1)" using *(2) by (intro power_increasing) simp_all
  with *(1) show ?thesis unfolding tc_range_def by linarith
qed

lemma half_range: "0 < n \<Longrightarrow> (2::nat) ^ (8 * n - 1) = 128 * 256 ^ (n - 1)" "0 < n \<Longrightarrow> (256::nat) ^ n = 2 * 2 ^ (8 * n - 1)"
proof -
  assume "0 < n"
  then have "8 * n - 1 = 7 + 8 * (n - 1)" "8 * n = Suc (8 * n - 1)" by simp_all
  then have "(2::nat) ^ (8 * n - 1) = 2 ^ 7 * 2 ^ (8 * (n - 1))" "(2::nat) ^ (8 * n) = 2 * 2 ^ (8 * n - 1)"
    by (metis power_add, metis power_Suc)
  then show "(2::nat) ^ (8 * n - 1) = 128 * 256 ^ (n - 1)" "(256::nat) ^ n = 2 * 2 ^ (8 * n - 1)"
    unfolding pow256 by simp_all
qed

lemma tc_val_cases:
  assumes "bs \<noteq> []"
  shows "int (be_val bs) < 2 ^ (8 * length bs - 1) \<Longrightarrow> tc_val bs = int (be_val bs)"
    "2 ^ (8 * length bs - 1) \<le> int (be_val bs) \<Longrightarrow> tc_val bs = int (be_val bs) - 2 ^ (8 * length bs)"
    "tc_range (length bs) (tc_val bs)"
proof -
  have "0 < length bs" using assms by simp
  note h = half_range [OF this]
  have "int (2 ^ (8 * length bs - 1)) = int (128 * 256 ^ (length bs - 1))" unfolding h ..
  then have 1: "be_val bs < 128 * 256 ^ (length bs - 1) \<longleftrightarrow> int (be_val bs) < 2 ^ (8 * length bs - 1)"
    by (metis of_nat_less_iff of_nat_numeral of_nat_power)
  have 2: "(256 :: int) ^ length bs = 2 ^ (8 * length bs)" by (simp add: power_mult)
  have "int (256 ^ length bs) = int (2 * 2 ^ (8 * length bs - 1))" using h(2) by (simp only:)
  then have 3: "(2 :: int) ^ (8 * length bs) = 2 * 2 ^ (8 * length bs - 1)" using 2 by simp
  show v: "int (be_val bs) < 2 ^ (8 * length bs - 1) \<Longrightarrow> tc_val bs = int (be_val bs)"
    "2 ^ (8 * length bs - 1) \<le> int (be_val bs) \<Longrightarrow> tc_val bs = int (be_val bs) - 2 ^ (8 * length bs)"
    using 1 2 by (simp_all add: tc_val_def)
  have "int (be_val bs) < 2 ^ (8 * length bs)" using be_val_less [of bs] 2 by (metis of_nat_less_iff of_nat_numeral of_nat_power)
  then show "tc_range (length bs) (tc_val bs)" unfolding tc_range_def using v 3 by linarith
qed

text \<open>A string that stands for a negative number: its value, and the string without a leading byte of ones.\<close>
lemma tc_val_negative:
  assumes "0 < length bs" "int (be_val bs) = 2 ^ (8 * length bs) - int a" "0 < a" "a \<le> 2 ^ (8 * length bs - 1)"
  shows "tc_val bs = - int a"
proof -
  have "8 * length bs = Suc (8 * length bs - 1)" using assms(1) by simp
  then have "(2 :: int) ^ (8 * length bs) = 2 * 2 ^ (8 * length bs - 1)" by (metis power_Suc)
  moreover have "int a \<le> 2 ^ (8 * length bs - 1)" using assms(4) by (metis of_nat_le_iff of_nat_numeral of_nat_power)
  ultimately have "2 ^ (8 * length bs - 1) \<le> int (be_val bs)" using assms(2) by linarith
  then show ?thesis using tc_val_cases(2) [of bs] assms(1,2) by simp
qed

lemma twos_data:
  assumes B: "bn_laws B" and z: "z \<noteq> 0"
  defines "n \<equiv> BN_num_bits B z"
  defines "data \<equiv> replicate (if n mod 8 = 0 then 1 else 0) 0 @ BN_bn2bin B z"
  shows "length data = n div 8 + 1" "be_val data = nat \<bar>z\<bar>" "0 < nat \<bar>z\<bar>" "nat \<bar>z\<bar> < 2 ^ (8 * length data - 1)"
    "n mod 8 \<noteq> 0 \<Longrightarrow> 1 < length data \<Longrightarrow> 2 ^ (8 * (length data - 1) - 1) < nat \<bar>z\<bar>"
    "n mod 8 = 0 \<Longrightarrow> 1 < length data \<and> 2 ^ (8 * (length data - 1) - 1) \<le> nat \<bar>z\<bar> \<and> nat \<bar>z\<bar> < 2 ^ (8 * (length data - 1))"
proof -
  note bits = bn_bits(1) [OF B, of z] bn_bits(2,3) [OF B z]
  have n0: "0 < n" using bits(3) by (simp add: n_def)
  show len: "length data = n div 8 + 1"
    unfolding data_def by (simp add: bn_rules [OF B] flip: n_def) presburger
  show "be_val data = nat \<bar>z\<bar>" by (simp add: data_def bn_rules [OF B])
  show "0 < nat \<bar>z\<bar>" using z by simp
  have up: "nat \<bar>z\<bar> < 2 ^ n" using bits(1) by (simp only: n_def)
  have "n = Suc (n - 1)" using n0 by simp
  then have "(2::nat) ^ n = 2 * 2 ^ (n - 1)" by (metis power_Suc)
  then have low: "2 ^ (n - 1) \<le> nat \<bar>z\<bar>" using bits(2) unfolding n_def [symmetric] by simp
  have "n \<le> 8 * length data - 1" using len by simp
  then have "(2::nat) ^ n \<le> 2 ^ (8 * length data - 1)" by (intro power_increasing) simp_all
  with up show "nat \<bar>z\<bar> < 2 ^ (8 * length data - 1)" by (rule less_le_trans)
  show "2 ^ (8 * (length data - 1) - 1) < nat \<bar>z\<bar>" if "n mod 8 \<noteq> 0" "1 < length data"
  proof -
    have "8 * (length data - 1) - 1 < n - 1" using that len by simp presburger
    then have "(2::nat) ^ (8 * (length data - 1) - 1) < 2 ^ (n - 1)" by (intro power_strict_increasing) simp_all
    then show ?thesis using low by (rule less_le_trans)
  qed
  show "1 < length data \<and> 2 ^ (8 * (length data - 1) - 1) \<le> nat \<bar>z\<bar> \<and> nat \<bar>z\<bar> < 2 ^ (8 * (length data - 1))" if "n mod 8 = 0"
  proof -
    have n: "8 * (length data - 1) = n" using that len mult_div_mod_eq [of 8 n] by simp
    then have "1 < length data" using n0 by simp
    then show ?thesis using up low unfolding n by simp
  qed
qed

lemma not_tc_range:
  assumes "\<bar>z\<bar> = int a" "2 ^ (8 * n - 1) \<le> a" "z < 0 \<Longrightarrow> 2 ^ (8 * n - 1) < a"
  shows "\<not> tc_range n z"
proof -
  have "2 ^ (8 * n - 1) \<le> int a" "z < 0 \<Longrightarrow> 2 ^ (8 * n - 1) < int a"
    using assms(2,3) by (metis of_nat_le_iff of_nat_less_iff of_nat_numeral of_nat_power)+
  then show ?thesis using assms(1) unfolding tc_range_def by linarith
qed

text \<open>The leading byte of ones of a negative number is dropped exactly when the rest still reads as negative.\<close>
lemma twos_drop_leading:
  assumes "length r = Suc q" "0 < q" "be_val r = 256 ^ Suc q - a" "2 ^ (8 * q - 1) \<le> a" "a < 256 ^ q"
  shows "r ! 1 AND 0x80 \<noteq> 0 \<longleftrightarrow> a = 2 ^ (8 * q - 1)"
    "a = 2 ^ (8 * q - 1) \<Longrightarrow> tc_val (tl r) = - int a" "0 < a" "\<not> 256 ^ q dvd be_val r"
proof -
  have h: "(256::nat) ^ q = 2 * 2 ^ (8 * q - 1)" "(2::nat) ^ (8 * q - 1) = 128 * 256 ^ (q - 1)"
    using half_range [OF assms(2)] by simp_all
  have "(0::nat) < 2 ^ (8 * q - 1)" by simp
  then show a: "0 < a" using assms(4) by linarith
  obtain c r' where r: "r = c # r'" "length r' = q" using assms(1) by (cases r) auto
  have "be_val r = 255 * 256 ^ q + (256 ^ q - a)" using assms(3,5) by simp
  moreover have "256 ^ q - a < 256 ^ q" using a by simp
  ultimately have m: "be_val r mod 256 ^ q = 256 ^ q - a" by (simp only: mod_mult_self3 mod_less)
  have "be_val r' = be_val r mod 256 ^ q" using be_val_Cons_split [OF refl, of c r'] unfolding r by blast
  with m have v: "be_val r' = 256 ^ q - a" by (simp only:)
  have ne: "r' \<noteq> []" using r(2) assms(2) by auto
  have "r ! 1 AND 0x80 = 0 \<longleftrightarrow> 256 ^ q - a < 2 ^ (8 * q - 1)"
    using top_bit [OF ne] unfolding v r(2) h(2) [symmetric] by (simp add: r(1) hd_conv_nth [OF ne])
  then show "r ! 1 AND 0x80 \<noteq> 0 \<longleftrightarrow> a = 2 ^ (8 * q - 1)" using assms(4,5) h(1) by linarith
  show "\<not> 256 ^ q dvd be_val r" using m a assms(5) by (auto simp: dvd_eq_mod_eq_0)
  show "tc_val (tl r) = - int a" if "a = 2 ^ (8 * q - 1)"
  proof -
    have "int (be_val r') = 2 ^ (8 * length r') - int a"
      unfolding v r(2) using assms(5) by (simp add: of_nat_diff power_mult)
    then show ?thesis using tc_val_negative [of r' a] that r assms(2) a by simp
  qed
qed

lemma EncodeToTwosComplement_negative:
  assumes B: "bn_laws B" and z: "z < 0"
  shows "\<exists>bs. EncodeToTwosComplement B z = Some bs \<and> bs \<noteq> [] \<and> tc_val bs = z
    \<and> (1 < length bs \<longrightarrow> \<not> tc_range (length bs - 1) z)"
proof -
  have z0: "z \<noteq> 0" using z by simp
  define a where "a = nat \<bar>z\<bar>"
  let ?n = "BN_num_bits B z"
  let ?off = "if ?n mod 8 = 0 then 1 else 0 :: nat"
  define data where "data = replicate ?off 0 @ BN_bn2bin B z"
  note d = twos_data [OF B z0, folded data_def a_def]
  have inta: "\<bar>z\<bar> = int a" "z = - int a" using z by (simp_all add: a_def)
  have a: "a < 256 ^ length data" using be_val_less [of data] d(2) by simp
  have f: "be_val (rev (rev (FlipBits data))) = 256 ^ length data - 1 - a" "length (rev (FlipBits data)) = length data"
    by (simp_all add: FlipBits_def be_val_not d(2))
  have "256 ^ length data - 1 - a + 1 < 256 ^ length data" "256 ^ length data - 1 - a + 1 = 256 ^ length data - a"
    using a d(3) by linarith+
  then obtain ys k where ys: "add_one (rev (FlipBits data)) = Some (ys, k)" "length ys = length data"
      "be_val (rev ys) = 256 ^ length data - a" "k < length data" "256 ^ k dvd be_val (rev ys)"
    using add_one_val [of "rev (FlipBits data)"] unfolding f by auto
  let ?r = "rev ys"
  have out: "EncodeToTwosComplement B z = Some (if ?n mod 8 = 0 \<and> k < length data - 1 \<and> ?r ! 1 AND 0x80 \<noteq> 0 then tl ?r else ?r)"
    using z ys(1) unfolding EncodeToTwosComplement_def Let_def data_def [symmetric] by (simp add: bn_rules [OF B])
  have r: "length ?r = length data" using ys by simp
  have val: "tc_val ?r = z"
  proof -
    have "int (be_val ?r) = 2 ^ (8 * length ?r) - int a" unfolding ys(3) r using a by (simp add: of_nat_diff power_mult)
    moreover have "0 < length ?r" using d(1) r by simp
    ultimately show ?thesis unfolding inta(2) using tc_val_negative [of ?r a] d(3,4) r by simp
  qed
  show ?thesis
  proof (cases "?n mod 8 = 0")
    case False
    have "\<not> tc_range (length data - 1) z" if "1 < length data"
      by (rule not_tc_range [OF inta(1)]) (use d(5) [OF False that] in simp_all)
    then show ?thesis using out val False r d(1) by auto
  next
    case True
    define q where "q = length data - 1"
    have len: "length data = Suc q" "0 < q" using d(6) [OF True] unfolding q_def by linarith+
    have q: "length ?r = Suc q" "0 < q" "be_val ?r = 256 ^ Suc q - a" "2 ^ (8 * q - 1) \<le> a" "a < 256 ^ q"
      using d(6) [OF True] ys(2,3) len unfolding len(1) pow256 by simp_all
    note drop = twos_drop_leading [OF q]
    have "k \<noteq> q" using drop(4) ys(5) by auto
    then have k: "k < length data - 1" using ys(4) by (simp add: q_def)
    show ?thesis
    proof (cases "a = 2 ^ (8 * q - 1)")
      case True
      have "\<not> tc_range (q - 1) z" if "1 < q"
        by (rule not_tc_range [OF inta(1)]) (use that in \<open>simp_all add: True power_strict_increasing\<close>)
      moreover have "length (tl ?r) = q" "tl ?r \<noteq> []" using q(1,2) by (auto simp: tl_Nil)
      ultimately show ?thesis using out drop(1,2) True \<open>?n mod 8 = 0\<close> k inta(2) by simp
    next
      case False
      then have "\<not> tc_range q z" using not_tc_range [OF inta(1), of q] q(4) by simp
      then show ?thesis using out drop(1) False val q(1) by auto
    qed
  qed
qed

lemma EncodeToTwosComplement_val:
  assumes B: "bn_laws B"
  shows "\<exists>bs. EncodeToTwosComplement B z = Some bs \<and> bs \<noteq> [] \<and> tc_val bs = z
    \<and> (1 < length bs \<longrightarrow> \<not> tc_range (length bs - 1) z)"
proof -
  consider "z = 0" | "z < 0" | "0 < z" by linarith
  then show ?thesis
  proof cases
    case 1
    then show ?thesis by (simp add: EncodeToTwosComplement_def bn_rules [OF B] tc_val_def)
  next
    case 2
    then show ?thesis by (rule EncodeToTwosComplement_negative [OF B])
  next
    case 3
    then have z0: "z \<noteq> 0" by simp
    define a where "a = nat \<bar>z\<bar>"
    define data where "data = replicate (if BN_num_bits B z mod 8 = 0 then 1 else 0) 0 @ BN_bn2bin B z"
    note d = twos_data [OF B z0, folded data_def a_def]
    have inta: "\<bar>z\<bar> = int a" "z = int a" using 3 by (simp_all add: a_def)
    have ne: "data \<noteq> []" using d(1) by auto
    have "EncodeToTwosComplement B z = Some data"
      using 3 unfolding EncodeToTwosComplement_def Let_def data_def by (simp add: bn_rules [OF B])
    moreover have "tc_val data = z"
      using tc_val_cases(1) [OF ne] d(2,4) inta(2) by (metis of_nat_less_iff of_nat_numeral of_nat_power)
    moreover have "\<not> tc_range (length data - 1) z" if "1 < length data"
    proof (rule not_tc_range [OF inta(1)])
      show "2 ^ (8 * (length data - 1) - 1) \<le> a"
        using d(5) [OF _ that] d(6) by (cases "BN_num_bits B z mod 8 = 0") (blast, blast intro: less_imp_le)
    qed (use 3 in simp)
    ultimately show ?thesis using ne by blast
  qed
qed

subsection \<open>A library that has the laws\<close>

fun bit_length :: "nat \<Rightarrow> nat" where
  "bit_length n = (if n = 0 then 0 else Suc (bit_length (n div 2)))"

fun be_bytes :: "nat \<Rightarrow> nat \<Rightarrow> byte list" where
  "be_bytes 0 n = []"
| "be_bytes (Suc k) n = be_bytes k (n div 256) @ [of_nat n]"

declare bit_length.simps [simp del]

definition int_bignum :: bignum where
  "int_bignum = \<lparr>BN_set_word = (\<lambda>w. int (unat w)), BN_set_negative = (\<lambda>z neg. if neg then - \<bar>z\<bar> else \<bar>z\<bar>),
     BN_is_zero = (\<lambda>z. z = 0), BN_is_negative = (\<lambda>z. z < 0),
     BN_get_word = (\<lambda>z. if \<bar>z\<bar> < 2 ^ 64 then of_int \<bar>z\<bar> else - 1), BN_cmp = (\<lambda>x y. sgn (x - y)),
     BN_add = (+), BN_sub = (-), BN_num_bits = (\<lambda>z. bit_length (nat \<bar>z\<bar>)),
     BN_bn2bin = (\<lambda>z. be_bytes ((bit_length (nat \<bar>z\<bar>) + 7) div 8) (nat \<bar>z\<bar>)), BN_bin2bn = (\<lambda>bs. int (be_val bs)),
     BN_dec2bn = (\<lambda>s. let t = (if s \<noteq> [] \<and> hd s = CHR ''-'' then tl s else s); ds = takeWhile is_digit t
        in if ds = [] then (0, 0)
           else if s \<noteq> [] \<and> hd s = CHR ''-'' then (- int (decimal_val ds), Suc (length ds)) else (int (decimal_val ds), length ds)),
     BN_bn2dec = int_to_string\<rparr>"

lemma bit_length_bounds: "n < 2 ^ bit_length n \<and> (n \<noteq> 0 \<longrightarrow> 2 ^ bit_length n \<le> 2 * n)"
proof (induction n rule: bit_length.induct)
  case (1 n)
  then show ?case by (cases "n div 2 = 0") (auto simp: bit_length.simps [of n] bit_length.simps [of 0])
qed

lemma be_bytes_val: "length (be_bytes k n) = k" "be_val (be_bytes k n) = n mod 256 ^ k"
  by (induction k arbitrary: n) (simp_all add: be_val_append unat_of_nat mod_mult2_eq)

lemma int_bignum_laws: "bn_laws int_bignum"
proof -
  have bits: "\<bar>z\<bar> < 2 ^ bit_length (nat \<bar>z\<bar>) \<and> (z \<noteq> 0 \<longrightarrow> 2 ^ bit_length (nat \<bar>z\<bar>) \<le> 2 * \<bar>z\<bar>)" for z :: int
  proof -
    have "int (nat \<bar>z\<bar>) < int (2 ^ bit_length (nat \<bar>z\<bar>))" "z \<noteq> 0 \<Longrightarrow> int (2 ^ bit_length (nat \<bar>z\<bar>)) \<le> int (2 * nat \<bar>z\<bar>)"
      using bit_length_bounds [of "nat \<bar>z\<bar>"] by (simp_all only: of_nat_less_iff of_nat_le_iff)
    then show ?thesis by simp
  qed
  have bytes: "n mod 256 ^ ((bit_length n + 7) div 8) = n" for n
  proof -
    have "n < 2 ^ bit_length n" using bit_length_bounds by simp
    also have "\<dots> \<le> 2 ^ (8 * ((bit_length n + 7) div 8))" by (intro power_increasing) simp_all
    finally show ?thesis by (simp add: pow256)
  qed
  have digit: "\<not> is_digit (CHR ''-'')" by (simp add: is_digit_def)
  have take: "takeWhile is_digit (s @ rest) = s" if "list_all is_digit s" "rest = [] \<or> \<not> is_digit (hd rest)" for s rest
    using that by (induction s) (cases rest; auto)+
  have none: "takeWhile is_digit s = []" if "s = [] \<or> \<not> is_digit (hd s)" for s using that by (cases s) auto
  have front: "s \<noteq> [] \<Longrightarrow> list_all is_digit s \<Longrightarrow> hd s \<noteq> CHR ''-''" for s using digit by (cases s) auto
  show ?thesis
    unfolding bn_laws_def
    by (intro conjI allI impI)
      (use bits in \<open>auto simp: int_bignum_def be_bytes_val bytes Let_def take none front digit bit_length.simps [of 0]\<close>)
qed

subsection \<open>Conversions to and from machine integers\<close>

lemma uint_sint:
  fixes v :: "64 word"
  shows "uint v = sint v mod 2 ^ 64" "- (2 ^ 63) \<le> sint v" "sint v < 2 ^ 63"
  using uint_word_of_int [of "sint v", where ?'a = 64] sint_ge [of v] sint_lt [of v] by simp_all

lemma VarInt_of_int64_val:
  assumes "bn_laws B"
  shows "VarInt_of_int64 B v = sint v"
proof (cases "0 \<le> sint v")
  case True
  have "int (unat v) = uint v" by simp
  also have "\<dots> = sint v" using True uint_sint [of v] by simp
  finally show ?thesis using True by (simp only: VarInt_of_int64_def bn_rules [OF assms] if_True)
next
  case False
  have "int (unat (- v)) = uint (- v)" by simp
  also have "\<dots> = (- uint v) mod 2 ^ 64" by (simp only: uint_word_ariths) simp
  also have "\<dots> = (- sint v) mod 2 ^ 64" by (simp only: uint_sint(1) mod_minus_eq)
  also have "\<dots> = - sint v" using False uint_sint(2,3) [of v] by simp
  finally show ?thesis using False by (simp only: VarInt_of_int64_def bn_rules [OF assms] if_False if_True)
qed

lemma ToInt64_val:
  assumes "bn_laws B"
  shows "ToInt64 B z = (if - (2 ^ 63) \<le> z \<and> z < 2 ^ 63 then Inr (of_int z) else Inl kInvalidArgument)"
proof (cases "\<bar>z\<bar> < 2 ^ 64")
  case True
  then have "uint (word_of_int \<bar>z\<bar> :: 64 word) = \<bar>z\<bar>" by (simp add: uint_word_of_int)
  moreover have "uint (2 ^ 63 :: 64 word) = 2 ^ 63" "uint (2 ^ 63 - 1 :: 64 word) = 2 ^ 63 - 1" by simp_all
  ultimately show ?thesis
    using True unfolding ToInt64_def Let_def bn_rules [OF assms] word_less_def by (auto simp: not_less)
next
  case False
  have "uint (- 1 :: 64 word) = 2 ^ 64 - 1" "uint (2 ^ 63 :: 64 word) = 2 ^ 63" "uint (2 ^ 63 - 1 :: 64 word) = 2 ^ 63 - 1"
    by (simp_all add: unsigned_minus_1_eq_mask mask_eq_exp_minus_1)
  then show ?thesis
    using False unfolding ToInt64_def Let_def bn_rules [OF assms] word_less_def by auto
qed

lemma EncodeToTwosComplement_fits:
  assumes "bn_laws B" "0 < m"
  shows "\<exists>e. EncodeToTwosComplement B z = Some e \<and> e \<noteq> [] \<and> tc_val e = z \<and> (length e \<le> m \<longleftrightarrow> tc_range m z)"
proof -
  obtain e where e: "EncodeToTwosComplement B z = Some e" "e \<noteq> []" "tc_val e = z"
      "1 < length e \<longrightarrow> \<not> tc_range (length e - 1) z"
    using EncodeToTwosComplement_val [OF assms(1), of z] by blast
  have "tc_range m z" if "length e \<le> m"
    using tc_range_mono [OF tc_val_cases(3) [OF e(2)] that] by (simp only: e(3))
  moreover have "\<not> tc_range m z" if "m < length e"
    using e(4) tc_range_mono [of m z "length e - 1"] that assms(2) by force
  ultimately show ?thesis using e(1-3) by fastforce
qed

text \<open>Extending the sign to the left keeps the number.\<close>
lemma tc_val_extend:
  assumes "bs \<noteq> []"
  shows "tc_val (replicate k (if tc_val bs < 0 then 0xFF else 0) @ bs) = tc_val bs"
proof -
  let ?n = "length bs"
  have n: "0 < ?n" using assms by simp
  note range = tc_val_cases(3) [OF assms, unfolded tc_range_def]
  have mono: "(2 :: int) ^ (8 * ?n - 1) \<le> 2 ^ (8 * (k + ?n) - 1)" by (intro power_increasing) simp_all
  show ?thesis
  proof (cases "tc_val bs < 0")
    case False
    then have v: "tc_val bs = int (be_val bs)" using tc_val_cases(1,2) [OF assms] be_val_less [of bs]
      by (metis linorder_not_less pow256 of_nat_less_iff of_nat_numeral of_nat_power diff_less_0_iff_less)
    then have "int (be_val (replicate k 0 @ bs)) < 2 ^ (8 * length (replicate k 0 @ bs) - 1)"
      using less_le_trans [OF conjunct2 [OF range] mono] by (simp only: be_val_replicate0 length_append length_replicate)
    then show ?thesis using False v tc_val_cases(1) [of "replicate k 0 @ bs"] assms by simp
  next
    case True
    define a where "a = nat (- tc_val bs)"
    have "tc_val bs = int (be_val bs) - 2 ^ (8 * ?n)"
      using True tc_val_cases(1,2) [OF assms] by (metis linorder_not_less of_nat_0_le_iff)
    then have v: "int (be_val bs) = 2 ^ (8 * ?n) - int a" using True by (simp add: a_def)
    have ff: "int (be_val (replicate k 0xFF @ bs)) = 2 ^ (8 * (k + ?n)) - 2 ^ (8 * ?n) + int (be_val bs)" for k
    proof (induction k)
      case (Suc k)
      have "8 * (Suc k + ?n) = 8 + 8 * (k + ?n)" by simp
      then have "(2 :: int) ^ (8 * (Suc k + ?n)) = 256 * 2 ^ (8 * (k + ?n))" by (simp only: power_add) simp
      moreover have "(256 :: int) ^ (k + ?n) = 2 ^ (8 * (k + ?n))" by (simp only: power_mult) simp
      ultimately show ?case using Suc by simp
    qed simp
    have "- tc_val bs \<le> 2 ^ (8 * (k + ?n) - 1)" using range mono by linarith
    then have "a \<le> 2 ^ (8 * (k + ?n) - 1)" by (simp only: a_def nat_le_iff of_nat_power of_nat_numeral)
    then have "tc_val (replicate k 0xFF @ bs) = - int a"
      by (intro tc_val_negative) (use True n v ff [of k] in \<open>simp_all add: a_def\<close>)
    then show ?thesis using True by (simp add: a_def)
  qed
qed

subsection \<open>Comparable encodings\<close>

text \<open>
  What the key of a row needs of the encoding of a column: the bytes exist for every
  value, compare as the values do, and can be decoded with other columns behind them.
\<close>
locale comparable_codec =
  fixes enc :: "'a \<Rightarrow> byte list checked" and dec :: "byte list \<Rightarrow> ('a \<times> nat) result checked"
    and ok :: "'a \<Rightarrow> bool" and num :: "'a \<Rightarrow> 'v :: linorder"
  assumes total: "ok x \<Longrightarrow> \<exists>e. enc x = Some e"
    and decodes: "ok x \<Longrightarrow> enc x = Some ex \<Longrightarrow> dec (ex @ rest) = Some (Inr (x, length ex))"
    and unique: "ok x \<Longrightarrow> ok y \<Longrightarrow> num x = num y \<Longrightarrow> x = y"
    and increasing: "ok x \<Longrightarrow> ok y \<Longrightarrow> num x < num y \<Longrightarrow> enc x = Some ex \<Longrightarrow> enc y = Some ey \<Longrightarrow> below ex ey"
begin

text \<open>Rows compare by the first column first, then by what follows it.\<close>
lemma row_order:
  assumes "ok x" "ok y" "enc x = Some ex" "enc y = Some ey"
  shows "bytes_less (ex @ us) (ey @ vs) \<longleftrightarrow> num x < num y \<or> num x = num y \<and> bytes_less us vs"
proof (cases "num x" "num y" rule: linorder_cases)
  case less
  then show ?thesis using below_bytes_less [OF below_append [OF increasing [OF assms(1,2) _ assms(3,4)]]] by simp
next
  case equal
  then have "ex = ey" using unique assms by (metis option.inject)
  with equal show ?thesis by simp
next
  case greater
  then have "\<not> bytes_less (ex @ us) (ey @ vs)"
    using below_asym [OF below_append [OF increasing [OF assms(2,1) _ assms(4,3)]]] by simp
  with greater show ?thesis by auto
qed

lemma same_bytes: "ok x \<Longrightarrow> ok y \<Longrightarrow> enc x = Some ex \<Longrightarrow> enc y = Some ey \<Longrightarrow> ex = ey \<longleftrightarrow> x = y"
  using decodes [of x ex "[]"] decodes [of y ey "[]"] by auto

end

interpretation integer_key: comparable_codec "EncodeToComparable B r" "DecodeFromComparable B r" "\<lambda>z. bn_laws B \<and> r < 7" "\<lambda>z. z" for B r
  using EncodeToComparable_val EncodeToComparable_below DecodeFromComparable_encoded by unfold_locales blast+

subsection \<open>Properties\<close>

text \<open>(C5)
  The comparable encoding of integers is total, orders byte strings as the numbers,
  whatever follows them, and gives different numbers different strings, with any number
  of reserved bits below seven.
\<close>
theorem varint_comparable_order:
  assumes "bn_laws B" "r < 7"
  shows "\<exists>ex ey. EncodeToComparable B r x = Some ex \<and> EncodeToComparable B r y = Some ey
    \<and> (bytes_less (ex @ us) (ey @ vs) \<longleftrightarrow> x < y \<or> x = y \<and> bytes_less us vs) \<and> (ex = ey \<longleftrightarrow> x = y)"
  using assms integer_key.total [of B r x] integer_key.total [of B r y] 
    integer_key.row_order [where B = B and r = r and x = x and y = y and us = us and vs = vs]
    integer_key.same_bytes [where B = B and r = r and x = x and y = y] by blast

theorem varint_comparable_order_witness:
  "\<exists>ex ey. EncodeToComparable int_bignum 2 (- 8192) = Some ex \<and> EncodeToComparable int_bignum 2 63 = Some ey
    \<and> bytes_less ex ey"
  using varint_comparable_order [OF int_bignum_laws, of 2 "- 8192" 63 "[]" "[]"] by auto

text \<open>(C6)
  Decoding inverts the comparable encoding whatever bytes follow, and reports how many
  bytes it took; so encoded numbers can be concatenated.
\<close>
theorem varint_comparable_round_trip:
  assumes "bn_laws B" "r < 7"
  shows "\<exists>e. EncodeToComparable B r z = Some e \<and> DecodeFromComparable B r (e @ rest) = Some (Inr (z, length e))"
  using EncodeToComparable_val [OF assms, of z] DecodeFromComparable_encoded [OF assms] by blast

theorem varint_comparable_round_trip_witness:
  "\<exists>e. EncodeToComparable int_bignum 2 (- 1000) = Some e
    \<and> DecodeFromComparable int_bignum 2 (e @ [7, 0xFF]) = Some (Inr (- 1000, length e))"
  by (rule varint_comparable_round_trip [OF int_bignum_laws]) simp

text \<open>(C16)
  The two's complement encoding decodes to the number it was made from, and it is the
  shortest: it has at most \<open>m\<close> bytes exactly when the number fits \<open>m\<close> bytes.
\<close>
theorem varint_twos_complement_shortest:
  assumes "bn_laws B" "0 < m"
  shows "\<exists>e. EncodeToTwosComplement B z = Some e \<and> DecodeFromTwosComplement B e = Some (Inr z)
    \<and> (length e \<le> m \<longleftrightarrow> - (2 ^ (8 * m - 1)) \<le> z \<and> z < 2 ^ (8 * m - 1))"
  using EncodeToTwosComplement_fits [OF assms, of z] DecodeFromTwosComplement_val [OF assms(1)]
  by (auto simp: tc_range_def)

theorem varint_twos_complement_shortest_witness:
  "\<exists>e. EncodeToTwosComplement int_bignum (- 32768) = Some e \<and> DecodeFromTwosComplement int_bignum e = Some (Inr (- 32768))
    \<and> length e \<le> 2"
  using varint_twos_complement_shortest [OF int_bignum_laws, of 2 "- 32768"] by auto

text \<open>
  A machine integer converts to a number and back unchanged, and a number outside the
  signed 64-bit range is reported as an invalid argument instead of being wrapped.
\<close>
theorem varint_int64_conversions:
  assumes "bn_laws B"
  shows "ToInt64 B (VarInt_of_int64 B v) = Inr v
    \<and> (z < - (2 ^ 63) \<or> 2 ^ 63 \<le> z \<longrightarrow> ToInt64 B z = Inl kInvalidArgument)"
  using uint_sint [of v] by (auto simp: ToInt64_val [OF assms] VarInt_of_int64_val [OF assms])

theorem varint_int64_conversions_witness:
  "ToInt64 int_bignum (VarInt_of_int64 int_bignum (- 5)) = Inr (- 5) \<and> ToInt64 int_bignum (2 ^ 64 + 3) = Inl kInvalidArgument"
  using varint_int64_conversions [OF int_bignum_laws, of "- 5" "2 ^ 64 + 3"] by simp

end
