(* ===== verification/Decimal_Num.thy ===== *)
theory Decimal_Num
  imports Varint Complex_Main
begin

text \<open>
  Decimal numbers (common/type/decimal.h and decimal.cc): a sign, an exponent and a
  list of digits stand for the number \<open>+- 10 ^ exponent * 0.d1 d2 ... dk\<close>.  Modelled are
  the canonical form, comparison, addition, the text forms, and the two byte encodings.
  A digit is a byte of the source; its arithmetic is written out modulo 256.  A failed
  parse or decode returns the code only: the partly written object is not modelled.
\<close>

record Decimal =
  digits :: "nat list"
  exponent :: int
  is_positive :: bool

subsection \<open>Canonical form\<close>

definition clear :: "bignum \<Rightarrow> Decimal" where
  "clear B = \<lparr>digits = [], exponent = VarInt_of_int64 B 0, is_positive = True\<rparr>"

definition is_canonical :: "bignum \<Rightarrow> Decimal \<Rightarrow> bool" where
  "is_canonical B d = (if digits d = [] then is_positive d \<and> VarInt_CompareTo B (exponent d) (VarInt_of_int64 B 0) = 0
     else hd (digits d) \<noteq> 0 \<and> last (digits d) \<noteq> 0)"

definition strip_trailing :: "nat list \<Rightarrow> nat list" where
  "strip_trailing ds = rev (dropWhile (\<lambda>x. x = 0) (rev ds))"

text \<open>Leading zeros are shifted out to the left, filling with zeros, and trailing zeros are removed.\<close>
definition make_canonical :: "bignum \<Rightarrow> Decimal \<Rightarrow> Decimal" where
  "make_canonical B d =
    (if is_canonical B d then d
     else let num_zeros = length (takeWhile (\<lambda>x. x = 0) (digits d));
              ds = strip_trailing (drop num_zeros (digits d) @ replicate num_zeros 0)
          in if ds = [] then clear B
             else d\<lparr>exponent := BN_sub B (exponent d) (VarInt_of_int64 B (of_nat num_zeros)), digits := ds\<rparr>)"

definition Decimal_make :: "bignum \<Rightarrow> nat list \<Rightarrow> int \<Rightarrow> bool \<Rightarrow> Decimal" where
  "Decimal_make B ds e pos = make_canonical B \<lparr>digits = ds, exponent = e, is_positive = pos\<rparr>"

definition Decimal_negated :: "bignum \<Rightarrow> Decimal \<Rightarrow> Decimal" where
  "Decimal_negated B d = Decimal_make B (digits d) (exponent d) (\<not> is_positive d)"

definition Decimal_Negate :: "Decimal \<Rightarrow> Decimal" where
  "Decimal_Negate d = d\<lparr>is_positive := \<not> is_positive d\<rparr>"

definition is_integer :: "bignum \<Rightarrow> Decimal \<Rightarrow> bool" where
  "is_integer B d = (digits d = [] \<or> VarInt_CompareTo B (exponent d) (VarInt_of_int64 B (of_nat (length (digits d)))) \<ge> 0)"

subsection \<open>Comparison\<close>

definition int32 :: "nat \<Rightarrow> int" where
  "int32 n = sint (of_nat n :: 32 word)"

text \<open>The first difference of two digits, otherwise the difference of the sizes, which are cut to 32 bits.\<close>
fun compare_digits :: "nat list \<Rightarrow> nat list \<Rightarrow> int" where
  "compare_digits (x # xs) (y # ys) = (if int x - int y \<noteq> 0 then int x - int y else compare_digits xs ys)"
| "compare_digits xs ys = int32 (length xs) - int32 (length ys)"

definition CompareTo :: "bignum \<Rightarrow> Decimal \<Rightarrow> Decimal \<Rightarrow> int" where
  "CompareTo B x y =
    (if is_positive x \<noteq> is_positive y then of_bool (is_positive x) - of_bool (is_positive y)
     else if digits x = [] \<or> digits y = []
     then let comp = of_bool (digits x = []) - of_bool (digits y = []) in (if is_positive x then - comp else comp)
     else let comp = VarInt_CompareTo B (exponent x) (exponent y);
              comp' = (if comp \<noteq> 0 then comp else compare_digits (digits x) (digits y))
          in (if is_positive x then comp' else - comp'))"

definition IsIdenticalTo :: "bignum \<Rightarrow> Decimal \<Rightarrow> Decimal \<Rightarrow> bool" where
  "IsIdenticalTo B x y = (is_positive x = is_positive y \<and> VarInt_CompareTo B (exponent x) (exponent y) = 0 \<and> digits x = digits y)"

subsection \<open>Comparable encoding\<close>

text \<open>Two digits a byte; the last bit says whether another byte follows.\<close>
fun EncodeToDigitPairs :: "nat list \<Rightarrow> byte list" where
  "EncodeToDigitPairs [] = []"
| "EncodeToDigitPairs [a] = [of_nat (a * 10 * 2)]"
| "EncodeToDigitPairs [a, b] = [of_nat ((a * 10 + b) * 2)]"
| "EncodeToDigitPairs (a # b # c # ds) = of_nat ((a * 10 + b) * 2 + 1) # EncodeToDigitPairs (c # ds)"

definition Decimal_EncodeToComparable :: "bignum \<Rightarrow> Decimal \<Rightarrow> byte list checked" where
  "Decimal_EncodeToComparable B d =
    (if digits d = [] then Some [128]
     else do {
       e \<leftarrow> EncodeToComparable B 2 (exponent d);
       let output = update_hd (\<lambda>b. b OR 0xC0) (e @ EncodeToDigitPairs (digits d));
       Some (if is_positive d then output else map (\<lambda>b. NOT b) output) })"

text \<open>The digits read and, when the last byte was met, how many bytes were taken.\<close>
fun decode_pairs :: "byte list \<Rightarrow> nat list \<times> nat option" where
  "decode_pairs [] = ([], None)"
| "decode_pairs (b # bs) =
    (let v = unat b div 2; here = [v div 10, v mod 10] in
     if even (unat b) then (here, Some 1)
     else let (ds, n) = decode_pairs bs in (here @ ds, map_option Suc n))"

definition DecodeFromDigitPairs :: "byte list \<Rightarrow> (nat list \<times> nat) result" where
  "DecodeFromDigitPairs bs = (case decode_pairs bs of
      (ds, None) \<Rightarrow> Inl kCorruption
    | (ds, Some n) \<Rightarrow> Inr (strip_trailing ds, n))"

definition Decimal_DecodeFromComparable :: "bignum \<Rightarrow> byte list \<Rightarrow> (Decimal \<times> nat) result checked" where
  "Decimal_DecodeFromComparable B bytes =
    (if bytes = [] then Some (Inl kCorruption)
     else if hd bytes = 128 then Some (Inr (clear B, 1))
     else let pos = (hd bytes \<ge> 128); encoded = (if pos then bytes else map (\<lambda>b. NOT b) bytes) in
       case DecodeFromComparable B 2 encoded of
         None \<Rightarrow> None
       | Some (Inl c) \<Rightarrow> Some (Inl c)
       | Some (Inr (e, n)) \<Rightarrow>
           (case DecodeFromDigitPairs (drop n encoded) of
              Inl c \<Rightarrow> Some (Inl c)
            | Inr (ds, m) \<Rightarrow> Some (Inr (\<lparr>digits = ds, exponent = e, is_positive = pos\<rparr>, n + m))))"

subsection \<open>Text\<close>

definition kDefaultMaxLength :: nat where "kDefaultMaxLength = 20"
definition kUnlimitedMaxLength :: nat where "kUnlimitedMaxLength = 2 ^ 31 - 1"

definition digit_char :: "nat \<Rightarrow> char" where
  "digit_char d = char_of (48 + d)"

text \<open>Appends characters, checking the length after each.\<close>
fun push_checked :: "nat \<Rightarrow> string \<Rightarrow> string \<Rightarrow> string result" where
  "push_checked max_length out [] = Inr out"
| "push_checked max_length out (c # cs) =
    (if length (out @ [c]) > max_length then Inl kInvalidArgument else push_checked max_length (out @ [c]) cs)"

text \<open>Appends the digits from position \<open>i\<close> on, with the point before position \<open>e\<close>.\<close>
fun push_digits :: "nat \<Rightarrow> int \<Rightarrow> nat \<Rightarrow> string \<Rightarrow> nat list \<Rightarrow> string result" where
  "push_digits max_length e i out [] = Inr out"
| "push_digits max_length e i out (d # ds) =
    (let out1 = (if e = int i then out @ ''.'' else out) @ [digit_char d] in
     if length out1 > max_length then Inl kInvalidArgument else push_digits max_length e (Suc i) out1 ds)"

definition ToPointString :: "bignum \<Rightarrow> nat \<Rightarrow> Decimal \<Rightarrow> string result" where
  "ToPointString B max_length d =
    (if digits d = [] then Inr ''0''
     else case ToInt64 B (exponent d) of
       Inl c \<Rightarrow> Inl c
     | Inr w \<Rightarrow> (let e = sint w; sign = (if is_positive d then [] else ''-'') in
         if e > int max_length \<or> e < - int max_length then Inl kInvalidArgument
         else if e \<le> 0
         then push_checked max_length (sign @ ''0.'' @ replicate (nat (- e)) (CHR ''0'')) (map digit_char (digits d))
         else case push_digits max_length e 0 sign (digits d) of
             Inl c \<Rightarrow> Inl c
           | Inr out \<Rightarrow> push_checked max_length out (replicate (nat e - length (digits d)) (CHR ''0''))))"

definition ToScientificString :: "bignum \<Rightarrow> Decimal \<Rightarrow> string" where
  "ToScientificString B d =
    (if digits d = [] then ''0''
     else let e = BN_add B (exponent d) (VarInt_of_int64 B (- 1)) in
       (if is_positive d then [] else ''-'') @ [digit_char (hd (digits d)), CHR ''.''] @ map digit_char (tl (digits d))
       @ ''e'' @ (if Sign B e \<ge> 0 then ''+'' else []) @ VarInt_ToString B e)"

definition Decimal_ToString :: "bignum \<Rightarrow> Decimal \<Rightarrow> string" where
  "Decimal_ToString B d = (case ToPointString B kDefaultMaxLength d of Inr s \<Rightarrow> s | Inl _ \<Rightarrow> ToScientificString B d)"

text \<open>A string object is handed on as a C string, which ends at its first zero byte.\<close>
definition VarInt_FromStdString :: "bignum \<Rightarrow> string \<Rightarrow> int result" where
  "VarInt_FromStdString B s = VarInt_FromString B (takeWhile (\<lambda>c. c \<noteq> CHR 0x00) s)"

definition ToVarInt :: "bignum \<Rightarrow> Decimal \<Rightarrow> int result" where
  "ToVarInt B d = (case ToPointString B kUnlimitedMaxLength d of
      Inl c \<Rightarrow> Inl c
    | Inr s \<Rightarrow> if \<not> is_integer B d then Inl kInvalidArgument else VarInt_FromStdString B s)"

text \<open>The digits, the position of the point if there was one, and the text from the exponent mark on.\<close>
fun parse_mantissa :: "string \<Rightarrow> nat list \<Rightarrow> nat option \<Rightarrow> (nat list \<times> nat option \<times> string) result" where
  "parse_mantissa [] ds point = Inr (ds, point, [])"
| "parse_mantissa (c # cs) ds point =
    (if c = CHR ''e'' \<or> c = CHR ''E'' then Inr (ds, point, c # cs)
     else if c = CHR ''.'' \<and> point = None then parse_mantissa cs ds (Some (length ds))
     else if is_digit c then parse_mantissa cs (ds @ [digit_val c]) point
     else Inl kInvalidArgument)"

definition Decimal_FromString :: "bignum \<Rightarrow> string \<Rightarrow> Decimal result" where
  "Decimal_FromString B s =
    (if s = [] then Inl kInvalidArgument
     else case parse_mantissa (if hd s = CHR ''+'' \<or> hd s = CHR ''-'' then tl s else s) [] None of
       Inl c \<Rightarrow> Inl c
     | Inr (ds, point, rest) \<Rightarrow>
         if ds = [] then Inl kInvalidArgument
         else let point_position = (case point of Some p \<Rightarrow> p | None \<Rightarrow> length ds) in
           (case (if rest = [] then Inr (VarInt_of_int64 B 0) else VarInt_FromStdString B (tl rest)) of
              Inl c \<Rightarrow> Inl c
            | Inr e \<Rightarrow> Inr (make_canonical B \<lparr>digits = ds,
                exponent = BN_add B e (VarInt_of_int64 B (of_nat point_position)), is_positive = (hd s \<noteq> CHR ''-'')\<rparr>)))"

text \<open>The constructor from a text, and decoding where a failure is fatal.\<close>
definition Decimal_of_string :: "bignum \<Rightarrow> string \<Rightarrow> Decimal checked" where
  "Decimal_of_string B s = (case Decimal_FromString B s of Inl _ \<Rightarrow> None | Inr d \<Rightarrow> Some d)"

definition DecimalFromComparable :: "bignum \<Rightarrow> byte list \<Rightarrow> Decimal checked" where
  "DecimalFromComparable B bytes = (case Decimal_DecodeFromComparable B bytes of Some (Inr (d, n)) \<Rightarrow> Some d | _ \<Rightarrow> None)"

definition FromVarInt :: "bignum \<Rightarrow> int \<Rightarrow> Decimal result" where
  "FromVarInt B z = Decimal_FromString B (VarInt_ToString B z)"

subsection \<open>Addition\<close>

text \<open>The mantissas are added from the last digit on; here they are reversed, and \<open>c\<close> is the carry.\<close>
fun add_mantissas :: "nat \<Rightarrow> nat list \<Rightarrow> nat list \<Rightarrow> nat list \<times> nat" where
  "add_mantissas c (x # xs) (y # ys) =
    (let s = ((x + c) mod 256 + y) mod 256; (zs, out) = add_mantissas (if s > 9 then 1 else 0) xs ys
     in ((if s > 9 then s - 10 else s) # zs, out))"
| "add_mantissas c xs ys = (xs, c)"

text \<open>Subtraction; a borrow is added to the next digit of the second mantissa; a borrow past the first digit is undefined.\<close>
fun sub_mantissas :: "nat \<Rightarrow> nat list \<Rightarrow> nat list \<Rightarrow> nat list checked" where
  "sub_mantissas b (x # xs) (y # ys) =
    (let y1 = (y + b) mod 256 in
     if x \<ge> y1 then map_option ((#) (x - y1)) (sub_mantissas 0 xs ys)
     else map_option ((#) ((x + 10 - y1) mod 256)) (sub_mantissas 1 xs ys))"
| "sub_mantissas b xs ys = (if b = 0 then Some xs else None)"

definition raise_exponent :: "bignum \<Rightarrow> int \<Rightarrow> Decimal \<Rightarrow> Decimal checked" where
  "raise_exponent B max_exponent d =
    (if VarInt_CompareTo B (exponent d) max_exponent < 0
     then (case ToInt64 B (BN_sub B max_exponent (exponent d)) of
         Inl _ \<Rightarrow> None
       | Inr w \<Rightarrow> Some (d\<lparr>digits := replicate (unat w) 0 @ digits d, exponent := max_exponent\<rparr>))
     else Some d)"

text \<open>The number of zeros to append is kept in 32 bits; a larger one does not fit the memory.\<close>
definition pad_digits :: "nat \<Rightarrow> Decimal \<Rightarrow> Decimal checked" where
  "pad_digits max_digits d = do {
     check_that (max_digits - length (digits d) < 2 ^ 31);
     Some (d\<lparr>digits := digits d @ replicate (max_digits - length (digits d)) 0\<rparr>) }"

text \<open>
  Addition of numbers with the same exponent and number of digits.  With opposite signs
  the smaller mantissa is subtracted from the larger one, whose sign the result has.
\<close>
definition add_aligned :: "bignum \<Rightarrow> Decimal \<Rightarrow> Decimal \<Rightarrow> Decimal checked" where
  "add_aligned B d other1 =
    (if is_positive d = is_positive other1
     then let (ds, c) = add_mantissas 0 (rev (digits d)) (rev (digits other1)) in
       Some (if c = 0 then d\<lparr>digits := rev ds\<rparr>
             else d\<lparr>digits := 1 # rev ds, exponent := BN_add B (exponent d) (VarInt_of_int64 B 1)\<rparr>)
     else let swapped = compare_digits (digits d) (digits other1) < 0;
              (a, b) = (if swapped then (digits other1, digits d) else (digits d, digits other1))
       in do {
         ds \<leftarrow> sub_mantissas 0 (rev a) (rev b);
         Some (d\<lparr>digits := rev ds, is_positive := (is_positive d \<noteq> swapped)\<rparr>) })"

definition Decimal_add :: "bignum \<Rightarrow> Decimal \<Rightarrow> Decimal \<Rightarrow> Decimal checked" where
  "Decimal_add B this other = (
    let d0 = Decimal_make B (digits this) (exponent this) (is_positive this);
        o0 = Decimal_make B (digits other) (exponent other) (is_positive other);
        max_exponent = (if VarInt_CompareTo B (exponent o0) (exponent d0) < 0 then exponent d0 else exponent o0)
    in do {
      d1 \<leftarrow> raise_exponent B max_exponent d0;
      o1 \<leftarrow> raise_exponent B max_exponent o0;
      let max_digits = max (length (digits d1)) (length (digits o1));
      d2 \<leftarrow> pad_digits max_digits d1;
      o2 \<leftarrow> pad_digits max_digits o1;
      r \<leftarrow> add_aligned B d2 o2;
      Some (make_canonical B r) })"

subsection \<open>The serialised form of another system\<close>

text \<open>Whether the scale is out of range, and the bytes.\<close>
definition EncodeToSerializedBigDecimal :: "bignum \<Rightarrow> Decimal \<Rightarrow> (bool \<times> byte list) checked" where
  "EncodeToSerializedBigDecimal B d = (
    let varint_scale = BN_sub B (VarInt_of_int64 B (of_nat (length (digits d)))) (exponent d) in do {
      scale \<leftarrow> EncodeToTwosComplement B varint_scale;
      if length scale > 4 then Some (True, [])
      else let scale4 = replicate (4 - length scale) (if Sign B varint_scale < 0 then 0xFF else 0) @ scale in do {
        temp \<leftarrow> (if digits d \<noteq> []
          then (case VarInt_FromString B (map digit_char (digits d)) of Inl _ \<Rightarrow> None | Inr z \<Rightarrow> Some z)
          else Some (VarInt_of_int64 B 0));
        mantissa \<leftarrow> EncodeToTwosComplement B (if is_positive d then temp else Negate B temp);
        Some (False, scale4 @ mantissa) } })"

definition DecodeFromSerializedBigDecimal :: "bignum \<Rightarrow> byte list \<Rightarrow> Decimal result checked" where
  "DecodeFromSerializedBigDecimal B bytes =
    (if length bytes < 5 then Some (Inl kCorruption)
     else case DecodeFromTwosComplement B (take 4 bytes) of
       None \<Rightarrow> None
     | Some (Inl c) \<Rightarrow> Some (Inl c)
     | Some (Inr scale) \<Rightarrow>
         (case DecodeFromTwosComplement B (drop 4 bytes) of
            None \<Rightarrow> None
          | Some (Inl c) \<Rightarrow> Some (Inl c)
          | Some (Inr mantissa) \<Rightarrow>
              (let negative = Sign B mantissa < 0;
                   text = VarInt_ToString B (if negative then Negate B mantissa else mantissa);
                   ds = map digit_val text
               in Some (Inr (make_canonical B \<lparr>digits = ds,
                    exponent = BN_sub B (VarInt_of_int64 B (of_nat (length ds))) scale, is_positive = \<not> negative\<rparr>)))))"

subsection \<open>The number a decimal stands for\<close>

fun digits_num :: "nat list \<Rightarrow> nat" where
  "digits_num [] = 0"
| "digits_num (d # ds) = d * 10 ^ length ds + digits_num ds"

definition dec_val :: "Decimal \<Rightarrow> rat" where
  "dec_val d = (if is_positive d then 1 else - 1) * (of_nat (digits_num (digits d)) * 10 powi (exponent d - int (length (digits d))))"

definition dec_ok :: "Decimal \<Rightarrow> bool" where
  "dec_ok d \<longleftrightarrow> list_all (\<lambda>x. x < 10) (digits d) \<and> length (digits d) < 2 ^ 31"

definition canonical :: "Decimal \<Rightarrow> bool" where
  "canonical d \<longleftrightarrow> dec_ok d \<and> (if digits d = [] then is_positive d \<and> exponent d = 0 else hd (digits d) \<noteq> 0 \<and> last (digits d) \<noteq> 0)"

lemma digits_num_append: "digits_num (xs @ ys) = digits_num xs * 10 ^ length ys + digits_num ys"
  by (induction xs) (simp_all add: algebra_simps power_add)

lemma digits_num_zeros [simp]: "digits_num (replicate n 0) = 0" "digits_num (replicate n 0 @ ds) = digits_num ds"
  by (induction n) simp_all

lemma digits_num_less: "list_all (\<lambda>x. x < 10) ds \<Longrightarrow> digits_num ds < 10 ^ length ds"
proof (induction ds)
  case (Cons d ds)
  then have "digits_num (d # ds) < (d + 1) * 10 ^ length ds" by simp
  also have "\<dots> \<le> 10 * 10 ^ length ds" using Cons.prems by (intro mult_right_mono) simp_all
  finally show ?case by simp
qed simp

lemma digits_num_ge: "ds \<noteq> [] \<Longrightarrow> hd ds \<noteq> 0 \<Longrightarrow> 10 ^ (length ds - 1) \<le> digits_num ds"
  by (cases ds) (simp_all add: trans_le_add1)

lemma digits_num_pos: "ds \<noteq> [] \<Longrightarrow> last ds \<noteq> 0 \<Longrightarrow> 0 < digits_num ds"
  by (cases ds rule: rev_cases) (simp_all add: digits_num_append)

lemma sint_of_nat: "n < 2 ^ 31 \<Longrightarrow> sint (of_nat n :: 64 word) = int n"
proof -
  assume n: "n < 2 ^ 31"
  then have "int n < 2 ^ 31" by (metis of_nat_less_iff of_nat_numeral of_nat_power)
  then have "signed_take_bit 63 (int n) = int n" by (simp add: signed_take_bit_int_eq_self)
  then show ?thesis by (simp add: signed_of_nat)
qed

lemma int32_small: "n < 2 ^ 31 \<Longrightarrow> int32 n = int n"
proof -
  assume n: "n < 2 ^ 31"
  then have "int n < 2 ^ 31" by (metis of_nat_less_iff of_nat_numeral of_nat_power)
  then have "signed_take_bit 31 (int n) = int n" by (simp add: signed_take_bit_int_eq_self)
  then show ?thesis by (simp add: int32_def signed_of_nat)
qed

lemma is_canonical_iff:
  assumes "bn_laws B" "dec_ok d"
  shows "is_canonical B d \<longleftrightarrow> canonical d"
  using assms by (auto simp: is_canonical_def canonical_def VarInt_CompareTo_def bn_rules [OF assms(1)]
      VarInt_of_int64_val [OF assms(1)] sgn_if)

lemma strip_trailing_split:
  "\<exists>t. ds = strip_trailing ds @ replicate t 0" "strip_trailing ds \<noteq> [] \<Longrightarrow> last (strip_trailing ds) \<noteq> 0"
  "strip_trailing (ds @ replicate n 0) = strip_trailing ds"
proof -
  have "rev ds = takeWhile (\<lambda>x. x = 0) (rev ds) @ dropWhile (\<lambda>x. x = 0) (rev ds)" by simp
  moreover have "takeWhile (\<lambda>x. x = 0) (rev ds) = replicate (length (takeWhile (\<lambda>x. x = 0) (rev ds))) 0"
    by (rule replicate_eqI) (auto dest: set_takeWhileD)
  ultimately have "ds = strip_trailing ds @ rev (replicate (length (takeWhile (\<lambda>x. x = 0) (rev ds))) 0)"
    unfolding strip_trailing_def by (metis rev_append rev_rev_ident)
  then show "\<exists>t. ds = strip_trailing ds @ replicate t 0" by auto
  show "last (strip_trailing ds) \<noteq> 0" if "strip_trailing ds \<noteq> []"
    using that hd_dropWhile [of "\<lambda>x. x = 0" "rev ds"] by (auto simp: strip_trailing_def last_rev)
  show "strip_trailing (ds @ replicate n 0) = strip_trailing ds"
    by (induction n arbitrary: ds) (simp_all add: strip_trailing_def dropWhile_append)
qed

lemma strip_trailing_id: "ds = [] \<or> last ds \<noteq> 0 \<Longrightarrow> strip_trailing ds = ds"
  by (cases ds rule: rev_cases) (auto simp: strip_trailing_def)

text \<open>Shifting the point over zeros at either end.\<close>
lemma dec_val_shift:
  "of_nat (digits_num (replicate n 0 @ ds @ replicate t 0)) * (10 :: rat) powi (e - int (n + length ds + t))
     = of_nat (digits_num ds) * 10 powi (e - int n - int (length ds))"
proof -
  have "(10 :: rat) powi (e - int n - int (length ds)) = 10 powi (e - int (n + length ds + t)) * 10 powi int t"
    by (subst power_int_add [symmetric]) (simp_all add: algebra_simps)
  then show ?thesis by (simp add: digits_num_append power_int_of_nat)
qed

text \<open>A mantissa is its core between zeros.\<close>
lemma core_split:
  obtains n core t where "n = length (takeWhile (\<lambda>x. x = 0) ds)" "ds = replicate n 0 @ core @ replicate t (0::nat)"
    "strip_trailing (drop n ds @ replicate n 0) = core" "core \<noteq> [] \<Longrightarrow> hd core \<noteq> 0 \<and> last core \<noteq> 0"
proof -
  let ?rest = "dropWhile (\<lambda>x. x = 0) ds"
  define n where "n = length (takeWhile (\<lambda>x. x = 0) ds)"
  define core where "core = strip_trailing ?rest"
  have "takeWhile (\<lambda>x. x = 0) ds = replicate n 0"
    unfolding n_def by (rule replicate_eqI) (auto dest: set_takeWhileD)
  then have split: "ds = replicate n 0 @ ?rest" by (metis takeWhile_dropWhile_id)
  obtain t where t: "?rest = core @ replicate t 0" unfolding core_def using strip_trailing_split(1) by blast
  have "strip_trailing (drop n ds @ replicate n 0) = core"
    unfolding n_def core_def by (simp add: strip_trailing_split(3) flip: dropWhile_eq_drop)
  moreover have "hd core \<noteq> 0 \<and> last core \<noteq> 0" if "core \<noteq> []"
    using that t hd_dropWhile [of "\<lambda>x. x = 0" ds] strip_trailing_split(2) [of ?rest]
    by (metis append_is_Nil_conv core_def hd_append2)
  ultimately show ?thesis using that [of n core t] n_def split t by metis
qed

lemma make_canonical_ok:
  assumes B: "bn_laws B" and d: "dec_ok d"
  shows "canonical (make_canonical B d)" "dec_val (make_canonical B d) = dec_val d"
    "canonical d \<Longrightarrow> make_canonical B d = d"
proof -
  show "canonical d \<Longrightarrow> make_canonical B d = d" using is_canonical_iff [OF B d] by (simp add: make_canonical_def)
  obtain n core t where n: "n = length (takeWhile (\<lambda>x. x = 0) (digits d))"
    and whole: "digits d = replicate n 0 @ core @ replicate t 0"
    and core: "strip_trailing (drop n (digits d) @ replicate n 0) = core" "core \<noteq> [] \<Longrightarrow> hd core \<noteq> 0 \<and> last core \<noteq> 0"
    using core_split [of "digits d"] by metis
  have small: "list_all (\<lambda>x. x < 10) core" "length core < 2 ^ 31" "n < 2 ^ 31" using d by (simp_all add: dec_ok_def whole)
  have val: "dec_val d = (if is_positive d then 1 else - 1) * (of_nat (digits_num core) * 10 powi (exponent d - int n - int (length core)))"
    using dec_val_shift [of n core t "exponent d"] by (simp add: dec_val_def whole add.assoc)
  have mk: "make_canonical B d = (if canonical d then d else if core = [] then clear B
      else d\<lparr>exponent := exponent d - int n, digits := core\<rparr>)"
    unfolding make_canonical_def Let_def n [symmetric] core(1) is_canonical_iff [OF B d] bn_rules [OF B]
      VarInt_of_int64_val [OF B] sint_of_nat [OF small(3)] ..
  have clear: "canonical (clear B)" "dec_val (clear B) = 0"
    by (simp_all add: clear_def canonical_def dec_ok_def dec_val_def VarInt_of_int64_val [OF B])
  have shifted: "canonical (d\<lparr>exponent := exponent d - int n, digits := core\<rparr>)" if "core \<noteq> []"
    using that small core(2) by (simp add: canonical_def dec_ok_def)
  have "dec_val (d\<lparr>exponent := exponent d - int n, digits := core\<rparr>) = dec_val d" "core = [] \<Longrightarrow> dec_val d = 0"
    unfolding val by (simp_all add: dec_val_def)
  with clear shifted show "canonical (make_canonical B d)" "dec_val (make_canonical B d) = dec_val d"
    unfolding mk by simp_all
qed

subsection \<open>Order\<close>

definition mantissa :: "nat list \<Rightarrow> rat" where
  "mantissa ds = of_nat (digits_num ds) / 10 ^ length ds"

lemma dec_val_mantissa: "dec_val d = (if is_positive d then 1 else - 1) * (mantissa (digits d) * 10 powi exponent d)"
  by (simp add: dec_val_def mantissa_def power_int_diff)

lemma mantissa_Cons: "mantissa (d # ds) = (of_nat d + mantissa ds) / 10"
  by (simp add: mantissa_def field_simps)

lemma mantissa_bounds:
  assumes "list_all (\<lambda>x. x < 10) ds"
  shows "0 \<le> mantissa ds" "mantissa ds < 1" "ds \<noteq> [] \<Longrightarrow> hd ds \<noteq> 0 \<Longrightarrow> 1 / 10 \<le> mantissa ds"
    "ds \<noteq> [] \<Longrightarrow> last ds \<noteq> 0 \<Longrightarrow> 0 < mantissa ds"
proof -
  show "0 \<le> mantissa ds" by (simp add: mantissa_def)
  have "(of_nat (digits_num ds) :: rat) < of_nat (10 ^ length ds)" using digits_num_less [OF assms] by (simp only: of_nat_less_iff)
  then show "mantissa ds < 1" by (simp add: mantissa_def)
  show "1 / 10 \<le> mantissa ds" if ne: "ds \<noteq> []" and hd: "hd ds \<noteq> 0"
  proof -
    obtain x xs where ds: "ds = x # xs" using ne by (cases ds) auto
    then have "1 \<le> (of_nat x :: rat)" "0 \<le> mantissa xs" using hd by (simp_all add: mantissa_def)
    then show ?thesis by (simp add: ds mantissa_Cons)
  qed
  show "0 < mantissa ds" if "ds \<noteq> []" "last ds \<noteq> 0"
    using digits_num_pos [OF that] by (simp add: mantissa_def)
qed

lemma compare_digits_empty:
  assumes "list_all (\<lambda>x. x < 10) ds" "ds \<noteq> [] \<longrightarrow> last ds \<noteq> 0" "length ds < 2 ^ 31"
  shows "sgn (of_int (compare_digits [] ds)) = sgn (mantissa [] - mantissa ds)"
    "sgn (of_int (compare_digits ds [])) = sgn (mantissa ds - mantissa [])"
  using assms mantissa_bounds(4) [of ds] by (cases ds; auto simp: mantissa_def [of "[]"] sgn_if int32_small)+

lemma compare_digits_mantissa:
  assumes "list_all (\<lambda>x. x < 10) xs" "list_all (\<lambda>x. x < 10) ys" "xs \<noteq> [] \<longrightarrow> last xs \<noteq> 0" "ys \<noteq> [] \<longrightarrow> last ys \<noteq> 0"
    and "length xs < 2 ^ 31" "length ys < 2 ^ 31"
  shows "sgn (of_int (compare_digits xs ys)) = sgn (mantissa xs - mantissa ys)"
  using assms
proof (induction xs ys rule: compare_digits.induct)
  case (1 x xs y ys)
  show ?case
  proof (cases "x = y")
    case True
    have "sgn (of_int (compare_digits xs ys)) = sgn (mantissa xs - mantissa ys)"
      by (rule 1(1)) (use 1(2-7) True in \<open>auto split: if_splits\<close>)
    moreover have "mantissa (x # xs) - mantissa (y # ys) = (mantissa xs - mantissa ys) / 10"
      by (simp add: mantissa_Cons True field_simps)
    ultimately show ?thesis using True by (simp only: compare_digits.simps sgn_divide) simp
  next
    case False
    have m: "0 \<le> mantissa xs" "mantissa xs < 1" "0 \<le> mantissa ys" "mantissa ys < 1"
      using mantissa_bounds 1(2,3) by simp_all
    have diff: "mantissa (x # xs) - mantissa (y # ys) = (of_int (int x - int y) + (mantissa xs - mantissa ys)) / 10"
      by (simp add: mantissa_Cons field_simps)
    consider "int x - int y \<le> - 1" | "1 \<le> int x - int y" using False by linarith
    then show ?thesis
    proof cases
      case 1
      then have "(of_int (int x - int y) :: rat) \<le> - 1" by (metis of_int_le_iff of_int_minus of_int_1)
      then have "mantissa (x # xs) - mantissa (y # ys) < 0" unfolding diff using m by simp
      then show ?thesis using 1 by (simp add: sgn_if)
    next
      case 2
      then have "(1 :: rat) \<le> of_int (int x - int y)" by (metis of_int_le_iff of_int_1)
      then have "0 < mantissa (x # xs) - mantissa (y # ys)" unfolding diff using m by simp
      then show ?thesis using 2 by (simp add: sgn_if)
    qed
  qed
qed (blast intro: compare_digits_empty)+

definition magnitude :: "Decimal \<Rightarrow> rat" where
  "magnitude d = mantissa (digits d) * 10 powi exponent d"

lemma dec_val_magnitude: "dec_val d = (if is_positive d then magnitude d else - magnitude d)"
  by (simp add: dec_val_mantissa magnitude_def)

lemma canonical_digits:
  assumes "canonical d"
  shows "list_all (\<lambda>x. x < 10) (digits d)" "digits d \<noteq> [] \<longrightarrow> last (digits d) \<noteq> 0" "digits d \<noteq> [] \<Longrightarrow> hd (digits d) \<noteq> 0"
    "digits d = [] \<Longrightarrow> is_positive d" "digits d = [] \<Longrightarrow> exponent d = 0" "dec_ok d"
  using assms by (auto simp: canonical_def dec_ok_def split: if_splits)

lemma magnitude_bounds:
  assumes "canonical d"
  shows "magnitude d < 10 powi exponent d" "digits d \<noteq> [] \<Longrightarrow> 10 powi (exponent d - 1) \<le> magnitude d"
    "digits d \<noteq> [] \<Longrightarrow> 0 < magnitude d" "digits d = [] \<Longrightarrow> magnitude d = 0"
proof -
  note c = canonical_digits [OF assms] and m = mantissa_bounds [OF canonical_digits(1) [OF assms]]
  have p: "(0 :: rat) < 10 powi exponent d" by simp
  show "magnitude d < 10 powi exponent d" using m(2) p by (simp add: magnitude_def)
  show "10 powi (exponent d - 1) \<le> magnitude d" if "digits d \<noteq> []"
  proof -
    have "1 / 10 * 10 powi exponent d \<le> mantissa (digits d) * 10 powi exponent d"
      using p m(3) that c(3) by (intro mult_right_mono) auto
    then show ?thesis by (simp add: magnitude_def power_int_diff)
  qed
  show "0 < magnitude d" if "digits d \<noteq> []" using m(4) that c(2) p by (simp add: magnitude_def)
  show "digits d = [] \<Longrightarrow> magnitude d = 0" by (simp add: magnitude_def mantissa_def)
qed

lemma magnitude_exponent:
  assumes "canonical x" "canonical y" "digits y \<noteq> []" "exponent x < exponent y"
  shows "magnitude x < magnitude y"
proof -
  have "magnitude x < 10 powi exponent x" by (rule magnitude_bounds [OF assms(1)])
  also have "\<dots> \<le> 10 powi (exponent y - 1)" using assms(4) by (intro power_int_increasing) simp_all
  also have "\<dots> \<le> magnitude y" by (rule magnitude_bounds(2) [OF assms(2,3)])
  finally show ?thesis .
qed

text \<open>Numbers with digits compare by exponent first, then by digits.\<close>
lemma magnitude_compare:
  assumes x: "canonical x" "digits x \<noteq> []" and y: "canonical y" "digits y \<noteq> []"
  shows "sgn (of_int (if exponent x \<noteq> exponent y then exponent x - exponent y else compare_digits (digits x) (digits y)))
    = sgn (magnitude x - magnitude y)"
proof (cases "exponent x = exponent y")
  case True
  have "magnitude x - magnitude y = (mantissa (digits x) - mantissa (digits y)) * 10 powi exponent y"
    by (simp add: magnitude_def True algebra_simps)
  then have "sgn (magnitude x - magnitude y) = sgn (mantissa (digits x) - mantissa (digits y))"
    by (simp add: sgn_mult)
  then show ?thesis using True compare_digits_mantissa canonical_digits [OF x(1)] canonical_digits [OF y(1)] by (simp add: dec_ok_def)
next
  case False
  then consider "exponent x < exponent y" | "exponent y < exponent x" by linarith
  then show ?thesis
    by cases (use magnitude_exponent x y in \<open>force simp: sgn_if\<close>)+
qed

lemma sgn_of_int_sgn: "sgn (of_int (sgn k) :: rat) = sgn (of_int k)"
  by (simp add: sgn_if)

lemma CompareTo_val:
  assumes B: "bn_laws B" and x: "canonical x" and y: "canonical y"
  shows "sgn (of_int (CompareTo B x y)) = sgn (dec_val x - dec_val y)"
proof -
  note mx = magnitude_bounds [OF x] and my = magnitude_bounds [OF y]
  consider (pos) "is_positive x \<noteq> is_positive y" | (zero) "is_positive x = is_positive y" "digits x = [] \<or> digits y = []"
    | (both) "is_positive x = is_positive y" "digits x \<noteq> []" "digits y \<noteq> []" by blast
  then show ?thesis
  proof cases
    case pos
    then show ?thesis using mx(3,4) my(3,4) canonical_digits(4) [OF x] canonical_digits(4) [OF y]
      by (cases "is_positive x"; cases "digits x = []"; cases "digits y = []")
        (auto simp: CompareTo_def dec_val_magnitude sgn_if)
  next
    case zero
    then show ?thesis using mx(3,4) my(3,4) canonical_digits(4) [OF x] canonical_digits(4) [OF y]
      by (cases "digits x = []"; cases "digits y = []") (auto simp: CompareTo_def dec_val_magnitude sgn_if)
  next
    case both
    have "CompareTo B x y = (let c = (if exponent x \<noteq> exponent y then sgn (exponent x - exponent y)
        else compare_digits (digits x) (digits y)) in if is_positive x then c else - c)"
      using both by (simp add: CompareTo_def VarInt_CompareTo_def bn_rules [OF B] Let_def sgn_eq_0_iff)
    moreover have "sgn (of_int (if exponent x \<noteq> exponent y then sgn (exponent x - exponent y)
        else compare_digits (digits x) (digits y))) = sgn (magnitude x - magnitude y)"
      using magnitude_compare [OF x both(2) y both(3)] by (simp add: sgn_of_int_sgn split: if_splits)
    ultimately show ?thesis using both(1) by (auto simp: dec_val_magnitude Let_def sgn_if split: if_splits)
  qed
qed

subsection \<open>The comparable encoding\<close>

lemma compare_digits_eq: "length xs < 2 ^ 31 \<Longrightarrow> length ys < 2 ^ 31 \<Longrightarrow> compare_digits xs ys = 0 \<longleftrightarrow> xs = ys"
  by (induction xs ys rule: compare_digits.induct) (auto simp: int32_small)

lemma unat_small_byte: "n < 256 \<Longrightarrow> unat (of_nat n :: byte) = n"
  by (simp add: unat_of_nat)

lemmas pair_bytes = word_less_nat_alt unat_small_byte

lemma pairs_below:
  assumes "list_all (\<lambda>x. x < 10) xs" "list_all (\<lambda>x. x < 10) ys" "xs \<noteq> []" "ys \<noteq> []" "last ys \<noteq> 0" "compare_digits xs ys < 0"
    and "length xs < 2 ^ 31" "length ys < 2 ^ 31"
  shows "below (EncodeToDigitPairs xs) (EncodeToDigitPairs ys)"
  using assms
proof (induction xs arbitrary: ys rule: EncodeToDigitPairs.induct)
  case (2 a)
  then show ?case
    by (cases ys rule: EncodeToDigitPairs.cases) (auto simp: pair_bytes int32_small simp del: of_nat_add of_nat_mult of_nat_Suc split: if_splits)
next
  case (3 a b)
  then show ?case
    by (cases ys rule: EncodeToDigitPairs.cases) (auto simp: pair_bytes int32_small simp del: of_nat_add of_nat_mult of_nat_Suc split: if_splits)
next
  case (4 a b c ds)
  show ?case
  proof (cases ys rule: EncodeToDigitPairs.cases)
    case (4 d e f es)
    show ?thesis
    proof (cases "a = d \<and> b = e")
      case True
      have "below (EncodeToDigitPairs (c # ds)) (EncodeToDigitPairs (f # es))"
        by (rule "4.IH") (use "4.prems" 4 True in auto)
      then show ?thesis using True 4 by simp
    next
      case False
      then show ?thesis using "4.prems" 4 by (auto simp: pair_bytes int32_small simp del: of_nat_add of_nat_mult of_nat_Suc split: if_splits)
    qed
  qed (use "4.prems" in \<open>auto simp: pair_bytes int32_small simp del: of_nat_add of_nat_mult of_nat_Suc split: if_splits\<close>)
qed simp

lemma unat_or_c0: "unat (b :: byte) < 64 \<Longrightarrow> unat (b OR 0xC0) = unat b + 192"
proof -
  assume b: "unat b < 64"
  have c0: "(0xC0 :: byte) = NOT (mask 6)" by (simp add: mask_eq_exp_minus_1)
  show ?thesis unfolding c0 using unat_or_leading [of b 6] b by simp
qed

lemma below_or_hd:
  assumes "below xs ys" "unat (hd xs) < 64" "unat (hd ys) < 64"
  shows "below (update_hd (\<lambda>b. b OR 0xC0) xs) (update_hd (\<lambda>b. b OR 0xC0) ys)"
proof -
  obtain x xs' y ys' where xy: "xs = x # xs'" "ys = y # ys'" using assms(1) by (cases xs; cases ys) auto
  then have "unat (x OR 0xC0) = unat x + 192" "unat (y OR 0xC0) = unat y + 192"
    using assms(2,3) by (simp_all add: unat_or_c0)
  then show ?thesis using assms(1) by (auto simp: xy word_less_nat_alt update_hd_def)
qed

lemma head_small:
  assumes B: "bn_laws B" and e: "EncodeToComparable B 2 z = Some e"
  shows "e \<noteq> []" "unat (hd e) < 64"
proof -
  have v: "length e = comp_len B 2 z" "be_val e = comp_val B 2 z"
    using EncodeToComparable_val [OF B, of 2 z] e by auto
  let ?n = "comp_len B 2 z"
  have n: "0 < ?n" by (rule comp_len_bounds [OF B]) simp
  show ne: "e \<noteq> []" using v n by auto
  have "comp_val B 2 z < 2 ^ (8 * ?n - 2)"
  proof (cases "z < 0")
    case True
    have "comp_val B 2 z < 2 ^ (7 * ?n - 2)" using comp_val_less(1) [OF B, of 2 z] True by simp
    also have "\<dots> \<le> (2 :: nat) ^ (8 * ?n - 2)" by (intro power_increasing) simp_all
    finally show ?thesis .
  next
    case False
    then show ?thesis using comp_val_less(3) [OF B, of 2 z] by simp
  qed
  also have "(2 :: nat) ^ (8 * ?n - 2) = 64 * 256 ^ (?n - 1)"
  proof -
    have "8 * ?n - 2 = 6 + 8 * (?n - 1)" using n by simp
    then show ?thesis by (simp add: pow256 power_add)
  qed
  finally show "unat (hd e) < 64" using v be_val_hd [OF ne] by (simp add: div_less_iff_less_mult)
qed

text \<open>The bytes of a number with digits, before the sign is applied.\<close>
definition magnitude_bytes :: "bignum \<Rightarrow> Decimal \<Rightarrow> byte list" where
  "magnitude_bytes B d = update_hd (\<lambda>b. b OR 0xC0) (the (EncodeToComparable B 2 (exponent d)) @ EncodeToDigitPairs (digits d))"

lemma encoded_magnitude:
  assumes "bn_laws B"
  shows "Decimal_EncodeToComparable B d = Some (if digits d = [] then [128]
    else if is_positive d then magnitude_bytes B d else map (\<lambda>b. NOT b) (magnitude_bytes B d))"
  using EncodeToComparable_val [OF assms, of 2 "exponent d"]
  by (auto simp: Decimal_EncodeToComparable_def magnitude_bytes_def)

lemma magnitude_bytes_hd:
  assumes "bn_laws B"
  obtains h t where "magnitude_bytes B d = h # t" "192 \<le> unat h"
proof -
  obtain e where e: "EncodeToComparable B 2 (exponent d) = Some e"
    using EncodeToComparable_val [OF assms, of 2 "exponent d"] by auto
  obtain h t where h: "e = h # t" "unat h < 64" using head_small [OF assms e] by (cases e) auto
  then show ?thesis using that unat_or_c0 [OF h(2)] e by (simp add: magnitude_bytes_def update_hd_def)
qed

lemma magnitude_bytes_below:
  assumes B: "bn_laws B" and x: "canonical x" "digits x \<noteq> []" and y: "canonical y" "digits y \<noteq> []"
    and less: "magnitude x < magnitude y"
  shows "below (magnitude_bytes B x) (magnitude_bytes B y)"
proof -
  obtain ex ey where e: "EncodeToComparable B 2 (exponent x) = Some ex" "EncodeToComparable B 2 (exponent y) = Some ey"
    using EncodeToComparable_val [OF B, of 2] by force
  have "sgn (magnitude x - magnitude y) = - 1" using less by simp
  then have s: "sgn (if exponent x \<noteq> exponent y then exponent x - exponent y else compare_digits (digits x) (digits y)) = - 1"
    using magnitude_compare [OF x y] by (simp add: sgn_if split: if_splits)
  have "below (ex @ EncodeToDigitPairs (digits x)) (ey @ EncodeToDigitPairs (digits y))"
  proof (cases "exponent x = exponent y")
    case True
    then show ?thesis using s e canonical_digits [OF x(1)] canonical_digits [OF y(1)] x(2) y(2)
      by (auto intro!: pairs_below simp: sgn_if dec_ok_def split: if_splits)
  next
    case False
    then have "exponent x < exponent y" using s by (simp add: sgn_if split: if_splits)
    then show ?thesis using EncodeToComparable_below [OF B _ _ e] by (intro below_append) simp
  qed
  then have "below (update_hd (\<lambda>b. b OR 0xC0) (ex @ EncodeToDigitPairs (digits x)))
      (update_hd (\<lambda>b. b OR 0xC0) (ey @ EncodeToDigitPairs (digits y)))"
    by (rule below_or_hd) (use head_small [OF B e(1)] head_small [OF B e(2)] in simp_all)
  then show ?thesis by (simp add: magnitude_bytes_def e)
qed

lemma Decimal_EncodeToComparable_below:
  assumes B: "bn_laws B" and x: "canonical x" and y: "canonical y" and less: "dec_val x < dec_val y"
  shows "below (the (Decimal_EncodeToComparable B x)) (the (Decimal_EncodeToComparable B y))"
proof -
  note mx = magnitude_bounds [OF x] and my = magnitude_bounds [OF y]
  obtain hx tx where hx: "magnitude_bytes B x = hx # tx" "192 \<le> unat hx" by (rule magnitude_bytes_hd [OF B])
  obtain hy ty where hy: "magnitude_bytes B y = hy # ty" "192 \<le> unat hy" by (rule magnitude_bytes_hd [OF B])
  have outer: "below ([NOT hx] @ us) [128]" "below [128] ([hy] @ vs)" "below ([NOT hx] @ us) ([hy] @ vs)" for us vs
    using hx(2) hy(2) by (simp_all add: word_less_nat_alt unat_not_byte) linarith
  consider "digits x \<noteq> []" "digits y \<noteq> []" "is_positive x" "is_positive y"
    | "digits x \<noteq> []" "digits y \<noteq> []" "\<not> is_positive x" "\<not> is_positive y"
    | "digits x \<noteq> []" "digits y \<noteq> []" "\<not> is_positive x" "is_positive y"
    | "digits x = []" "digits y \<noteq> []" "is_positive y" | "digits x \<noteq> []" "digits y = []" "\<not> is_positive x"
    using less mx(3,4) my(3,4) canonical_digits(4) [OF x] canonical_digits(4) [OF y]
    by (cases "digits x = []"; cases "digits y = []"; cases "is_positive x"; cases "is_positive y")
      (auto simp: dec_val_magnitude)
  then show ?thesis
  proof cases
    case 1
    then show ?thesis using less magnitude_bytes_below [OF B x _ y] by (simp add: encoded_magnitude [OF B] dec_val_magnitude)
  next
    case 2
    then show ?thesis using less magnitude_bytes_below [OF B y _ x]
      by (auto simp: encoded_magnitude [OF B] dec_val_magnitude intro: below_not)
  qed (use outer hx(1) hy(1) in \<open>simp_all add: encoded_magnitude [OF B]\<close>)
qed

lemma canonical_unique:
  assumes B: "bn_laws B" and x: "canonical x" and y: "canonical y" and same: "dec_val x = dec_val y"
  shows "x = y"
proof -
  note mx = magnitude_bounds [OF x] and my = magnitude_bounds [OF y]
  have pos: "is_positive x = is_positive y" and dig: "digits x = [] \<longleftrightarrow> digits y = []"
    using same mx(3,4) my(3,4) canonical_digits(4) [OF x] canonical_digits(4) [OF y]
    by (auto simp: dec_val_magnitude split: if_splits; force)+
  have "digits x = digits y \<and> exponent x = exponent y"
  proof (cases "digits x = []")
    case True
    then show ?thesis using dig canonical_digits(5) x y by simp
  next
    case False
    have "magnitude x = magnitude y" using same pos by (simp add: dec_val_magnitude split: if_splits)
    then have "(if exponent x \<noteq> exponent y then exponent x - exponent y else compare_digits (digits x) (digits y)) = 0"
      using magnitude_compare [OF x False y] False dig by (simp add: sgn_0_0 split: if_splits)
    then show ?thesis using canonical_digits(6) [OF x] canonical_digits(6) [OF y] by (simp add: compare_digits_eq dec_ok_def split: if_splits)
  qed
  with pos show ?thesis by simp
qed

lemma decode_pairs_encoded:
  assumes "list_all (\<lambda>x. x < 10) ds" "ds \<noteq> []"
  shows "\<exists>k. decode_pairs (EncodeToDigitPairs ds @ rest) = (ds @ replicate k 0, Some (length (EncodeToDigitPairs ds)))"
  using assms
proof (induction ds rule: EncodeToDigitPairs.induct)
  case (2 a)
  then show ?case by (intro exI [of _ 1]) (simp add: unat_small_byte del: of_nat_mult)
next
  case (3 a b)
  then show ?case by (intro exI [of _ 0]) (simp add: unat_small_byte del: of_nat_mult of_nat_add)
next
  case (4 a b c ds)
  then obtain k where k: "decode_pairs (EncodeToDigitPairs (c # ds) @ rest)
      = ((c # ds) @ replicate k 0, Some (length (EncodeToDigitPairs (c # ds))))" by auto
  have v: "unat (of_nat ((a * 10 + b) * 2 + 1) :: byte) = (a * 10 + b) * 2 + 1"
    by (rule unat_small_byte) (use "4.prems" in simp)
  show ?case unfolding EncodeToDigitPairs.simps append_Cons decode_pairs.simps v k
    using "4.prems" by (intro exI [of _ k]) simp
qed simp

lemma DecodeFromDigitPairs_encoded:
  assumes "list_all (\<lambda>x. x < 10) ds" "ds \<noteq> []" "last ds \<noteq> 0"
  shows "DecodeFromDigitPairs (EncodeToDigitPairs ds @ rest) = Inr (ds, length (EncodeToDigitPairs ds))"
  using decode_pairs_encoded [OF assms(1,2), of rest] assms(3)
  by (auto simp: DecodeFromDigitPairs_def strip_trailing_split(3) strip_trailing_id)

text \<open>Decoding does not look at the reserved bits.\<close>
lemma DecodeFromComparable_reserved:
  "DecodeFromComparable B 2 (update_hd (\<lambda>b. b OR 0xC0) bytes) = DecodeFromComparable B 2 bytes"
proof (cases bytes)
  case (Cons h t)
  have or: "(b OR 0xC0) OR NOT (push_bit (8 - 2) 1 - 1) = b OR NOT (push_bit (8 - 2) 1 - 1)"
    "NOT (b OR 0xC0) OR NOT (push_bit (8 - 2) 1 - 1) = NOT b OR NOT (push_bit (8 - 2) 1 - 1)"
    "(b OR 0xC0) AND drop_bit 2 0x80 = b AND drop_bit 2 0x80" for b :: byte
    by (rule bit_word_eqI; auto simp: bit_simps less_Suc_eq numeral_eq_Suc)+
  show ?thesis
    by (cases "h AND drop_bit 2 0x80 = 0") (simp_all only: Cons DecodeFromComparable_def update_hd_def list.case list.sel
        FlipBits_def list.map or length_Cons Let_def list.distinct if_True if_False zero_less_numeral refl not_False_eq_True)
qed (simp add: update_hd_def)

lemma Decimal_DecodeFromComparable_encoded:
  assumes B: "bn_laws B" and d: "canonical d" and e: "Decimal_EncodeToComparable B d = Some bs"
  shows "Decimal_DecodeFromComparable B (bs @ rest) = Some (Inr (d, length bs))"
proof (cases "digits d = []")
  case True
  then have "clear B = d" using canonical_digits(4,5) [OF d] by (simp add: clear_def VarInt_of_int64_val [OF B])
  then show ?thesis using e True by (auto simp: Decimal_EncodeToComparable_def Decimal_DecodeFromComparable_def)
next
  case False
  obtain ex where ex: "EncodeToComparable B 2 (exponent d) = Some ex"
    using EncodeToComparable_val [OF B, of 2 "exponent d"] by auto
  define m where "m = magnitude_bytes B d"
  obtain h t where h: "m = h # t" "192 \<le> unat h" unfolding m_def by (rule magnitude_bytes_hd [OF B])
  have ne: "ex \<noteq> []" by (rule head_small [OF B ex])
  have len: "length m = length ex + length (EncodeToDigitPairs (digits d))"
    by (simp add: m_def magnitude_bytes_def ex)
  have bs: "bs = (if is_positive d then m else map (\<lambda>b. NOT b) m)"
    using e False by (auto simp: encoded_magnitude [OF B] m_def)
  let ?rest = "if is_positive d then rest else map (\<lambda>b. NOT b) rest"
  have app: "m @ us = update_hd (\<lambda>b. b OR 0xC0) (ex @ EncodeToDigitPairs (digits d) @ us)" for us
    using ne by (cases ex) (simp_all add: m_def magnitude_bytes_def ex update_hd_def)
  have first: "DecodeFromComparable B 2 (m @ ?rest) = Some (Inr (exponent d, length ex))"
    unfolding app DecodeFromComparable_reserved by (rule DecodeFromComparable_encoded [OF B _ ex]) simp
  have drop: "drop (length ex) (m @ us) = EncodeToDigitPairs (digits d) @ us" for us
    unfolding app using ne by (cases ex) (simp_all add: update_hd_def)
  note second = DecodeFromDigitPairs_encoded [OF canonical_digits(1) [OF d] False, of ?rest]
  have hd: "hd (bs @ rest) \<noteq> 128" "128 \<le> hd (bs @ rest) \<longleftrightarrow> is_positive d"
    using h by (auto simp: bs word_le_nat_alt unat_not_byte word_unat_eq_iff)
  have restored: "(if is_positive d then bs @ rest else map (\<lambda>b. NOT b) (bs @ rest)) = m @ ?rest"
    by (simp add: bs o_def)
  have fin: "DecodeFromDigitPairs (drop (length ex) (m @ ?rest)) = Inr (digits d, length (EncodeToDigitPairs (digits d)))"
    unfolding drop by (rule second) (use canonical_digits(2) [OF d] False in simp)
  have lb: "bs @ rest \<noteq> []" "length bs = length m" using h(1) by (simp_all add: bs)
  show ?thesis unfolding Decimal_DecodeFromComparable_def hd(2) Let_def restored first option.case sum.case prod.case fin lb(2) len
    using hd(1) lb(1) by simp
qed

interpretation decimal_key: comparable_codec "Decimal_EncodeToComparable B" "Decimal_DecodeFromComparable B"
  "\<lambda>d. bn_laws B \<and> canonical d" dec_val for B
proof
  fix x y ex ey rest
  assume x: "bn_laws B \<and> canonical x"
  show "\<exists>e. Decimal_EncodeToComparable B x = Some e" using x by (simp add: encoded_magnitude)
  show "Decimal_DecodeFromComparable B (ex @ rest) = Some (Inr (x, length ex))" if "Decimal_EncodeToComparable B x = Some ex"
    using that x Decimal_DecodeFromComparable_encoded by blast
  assume y: "bn_laws B \<and> canonical y"
  show "x = y" if "dec_val x = dec_val y" using that x y canonical_unique by blast
  show "below ex ey" if "dec_val x < dec_val y" "Decimal_EncodeToComparable B x = Some ex" "Decimal_EncodeToComparable B y = Some ey"
    using that Decimal_EncodeToComparable_below [of B x y] x y by simp
qed

subsection \<open>Addition\<close>

fun le_num :: "nat list \<Rightarrow> nat" where
  "le_num [] = 0"
| "le_num (d # ds) = d + 10 * le_num ds"

lemma le_num_append: "le_num (xs @ ys) = le_num xs + 10 ^ length xs * le_num ys"
  by (induction xs) (simp_all add: algebra_simps)

lemma le_num_rev: "le_num (rev ds) = digits_num ds" "digits_num (rev ds) = le_num ds"
proof -
  show "le_num (rev ds) = digits_num ds" for ds by (induction ds) (simp_all add: le_num_append)
  from this [of "rev ds"] show "digits_num (rev ds) = le_num ds" by simp
qed

lemma add_mantissas_val:
  assumes "length xs = length ys" "list_all (\<lambda>x. x < 10) xs" "list_all (\<lambda>x. x < 10) ys" "c \<le> 1"
    and "add_mantissas c xs ys = (zs, out)"
  shows "length zs = length xs \<and> list_all (\<lambda>x. x < 10) zs \<and> out \<le> 1
    \<and> le_num zs + out * 10 ^ length xs = le_num xs + le_num ys + c"
  using assms
proof (induction xs ys arbitrary: c zs rule: list_induct2)
  case (Cons x xs y ys)
  define s where "s = x + c + y"
  have s: "((x + c) mod 256 + y) mod 256 = s" "s \<le> 19" using Cons.prems by (simp_all add: s_def)
  obtain zs' where r: "add_mantissas (if s > 9 then 1 else 0) xs ys = (zs', out)" "zs = (if s > 9 then s - 10 else s) # zs'"
    using Cons.prems(4) by (auto simp: s split: prod.splits)
  have "length zs' = length xs \<and> list_all (\<lambda>x. x < 10) zs' \<and> out \<le> 1
      \<and> le_num zs' + out * 10 ^ length xs = le_num xs + le_num ys + (if s > 9 then 1 else 0)"
    by (rule Cons.IH [OF _ _ _ r(1)]) (use Cons.prems in auto)
  then show ?case using s(2) by (auto simp: r(2) s_def algebra_simps split: if_splits)
qed simp

lemma sub_mantissas_val:
  assumes "length xs = length ys" "list_all (\<lambda>x. x < 10) xs" "list_all (\<lambda>x. x < 10) ys" "b \<le> 1"
    and "le_num ys + b \<le> le_num xs"
  shows "\<exists>zs. sub_mantissas b xs ys = Some zs \<and> length zs = length xs \<and> list_all (\<lambda>x. x < 10) zs
    \<and> le_num zs + le_num ys + b = le_num xs"
  using assms
proof (induction xs ys arbitrary: b rule: list_induct2)
  case (Cons x xs y ys)
  define y1 where "y1 = y + b"
  have y1: "(y + b) mod 256 = y1" "y1 \<le> 10" "x < 10" using Cons.prems by (simp_all add: y1_def)
  show ?case
  proof (cases "y1 \<le> x")
    case True
    have "le_num ys \<le> le_num xs" using Cons.prems(4) True y1 by (simp add: y1_def)
    then obtain zs where "sub_mantissas 0 xs ys = Some zs \<and> length zs = length xs \<and> list_all (\<lambda>x. x < 10) zs
        \<and> le_num zs + le_num ys + 0 = le_num xs" using Cons.IH [of 0] Cons.prems(1-2) by auto
    then show ?thesis using True y1 by (auto simp: y1_def algebra_simps)
  next
    case False
    have "le_num ys + 1 \<le> le_num xs" using Cons.prems(4) False y1 by (simp add: y1_def)
    then obtain zs where "sub_mantissas 1 xs ys = Some zs \<and> length zs = length xs \<and> list_all (\<lambda>x. x < 10) zs
        \<and> le_num zs + le_num ys + 1 = le_num xs" using Cons.IH [of 1] Cons.prems(1-2) by auto
    moreover have "(x + 10 - y1) mod 256 = x + 10 - y1" "x + 10 - y1 < 10" using False y1 by simp_all
    ultimately show ?thesis using False y1 by (auto simp: y1_def algebra_simps)
  qed
qed simp

lemma compare_digits_num:
  assumes "length xs = length ys" "list_all (\<lambda>x. x < 10) xs" "list_all (\<lambda>x. x < 10) ys"
  shows "compare_digits xs ys < 0 \<longleftrightarrow> digits_num xs < digits_num ys"
  using assms
proof (induction xs ys rule: list_induct2)
  case (Cons x xs y ys)
  have l: "digits_num xs < 10 ^ length ys" "digits_num ys < 10 ^ length ys"
    using digits_num_less [of xs] digits_num_less [of ys] Cons by simp_all
  have lt: "a * 10 ^ length ys + u < b * 10 ^ length ys + v" if "a < b" "u < 10 ^ length ys" for a b u v :: nat
  proof -
    have "a * 10 ^ length ys + u < (a + 1) * 10 ^ length ys" using that(2) by simp
    also have "\<dots> \<le> b * 10 ^ length ys" using that(1) by (intro mult_right_mono) simp_all
    finally show ?thesis by simp
  qed
  show ?case
  proof (cases x y rule: linorder_cases)
    case less
    then show ?thesis using lt [OF less l(1)] Cons(1) by simp
  next
    case equal
    then show ?thesis using Cons by simp
  next
    case greater
    then show ?thesis using lt [OF greater l(2), of "digits_num xs"] Cons(1) by simp
  qed
qed simp

text \<open>A number as an integer multiple of a power of ten.\<close>
definition signed_num :: "Decimal \<Rightarrow> int" where
  "signed_num d = (if is_positive d then int (digits_num (digits d)) else - int (digits_num (digits d)))"

lemma dec_val_signed: "dec_val d = of_int (signed_num d) * 10 powi (exponent d - int (length (digits d)))"
  by (simp add: dec_val_def signed_num_def)

text \<open>Two numbers with the same exponent and number of digits.\<close>
definition aligned :: "Decimal \<Rightarrow> Decimal \<Rightarrow> bool" where
  "aligned x y \<longleftrightarrow> exponent x = exponent y \<and> length (digits x) = length (digits y) \<and> length (digits x) + 1 < 2 ^ 31
     \<and> list_all (\<lambda>x. x < 10) (digits x) \<and> list_all (\<lambda>x. x < 10) (digits y)"

lemma aligned_sum:
  assumes "aligned x y"
  shows "dec_val x + dec_val y = of_int (signed_num x + signed_num y) * 10 powi (exponent x - int (length (digits x)))"
  using assms by (simp add: aligned_def dec_val_signed algebra_simps)

lemma add_aligned_same_sign:
  assumes B: "bn_laws B" and al: "aligned x y" and sign: "is_positive x = is_positive y"
  shows "\<exists>r. add_aligned B x y = Some r \<and> dec_ok r \<and> dec_val r = dec_val x + dec_val y"
proof -
  let ?a = "digits_num (digits x)" and ?b = "digits_num (digits y)" and ?n = "length (digits x)"
  obtain zs c where r: "add_mantissas 0 (rev (digits x)) (rev (digits y)) = (zs, c)" by fastforce
  have v: "length zs = ?n" "list_all (\<lambda>x. x < 10) zs" "c \<le> 1" "le_num zs + c * 10 ^ ?n = ?a + ?b"
    using add_mantissas_val [OF _ _ _ _ r] al by (simp_all add: aligned_def le_num_rev)
  have v4: "int (le_num zs) + int c * 10 ^ ?n = int ?a + int ?b"
    using arg_cong [OF v(4), of int] by simp
  show ?thesis
  proof (cases "c = 0")
    case c: True
    let ?r = "x\<lparr>digits := rev zs\<rparr>"
    have "signed_num ?r = signed_num x + signed_num y" using v4 c sign by (simp add: signed_num_def le_num_rev)
    then have "dec_val ?r = dec_val x + dec_val y" unfolding aligned_sum [OF al] by (simp add: dec_val_signed v(1))
    then show ?thesis using sign c r v al by (simp add: add_aligned_def dec_ok_def aligned_def)
  next
    case False
    then have c: "c = 1" using v(3) by simp
    let ?r = "x\<lparr>digits := 1 # rev zs, exponent := exponent x + 1\<rparr>"
    have "signed_num ?r = signed_num x + signed_num y"
      using v4 c sign by (simp add: signed_num_def le_num_rev v(1))
    then have "dec_val ?r = dec_val x + dec_val y" unfolding aligned_sum [OF al] by (simp add: dec_val_signed v(1))
    then show ?thesis using sign c r v al
      by (simp add: add_aligned_def dec_ok_def aligned_def bn_rules [OF B] VarInt_of_int64_val [OF B])
  qed
qed

lemma add_aligned_opposite_sign:
  assumes al: "aligned x y" and sign: "is_positive x \<noteq> is_positive y"
  shows "\<exists>r. add_aligned B x y = Some r \<and> dec_ok r \<and> dec_val r = dec_val x + dec_val y"
proof -
  let ?less = "digits_num (digits x) < digits_num (digits y)"
  let ?u = "if ?less then digits y else digits x" and ?v = "if ?less then digits x else digits y"
  have "\<exists>zs. sub_mantissas 0 (rev ?u) (rev ?v) = Some zs \<and> length zs = length (rev ?u) \<and> list_all (\<lambda>x. x < 10) zs
      \<and> le_num zs + le_num (rev ?v) + 0 = le_num (rev ?u)"
    by (rule sub_mantissas_val) (use al in \<open>auto simp: aligned_def le_num_rev\<close>)
  then obtain zs where z: "sub_mantissas 0 (rev ?u) (rev ?v) = Some zs" "length zs = length (digits x)" "list_all (\<lambda>x. x < 10) zs"
      "le_num zs + digits_num ?v = digits_num ?u"
    using al by (auto simp: aligned_def le_num_rev split: if_splits)
  let ?r = "x\<lparr>digits := rev zs, is_positive := (is_positive x \<noteq> ?less)\<rparr>"
  have comp: "compare_digits (digits x) (digits y) < 0 \<longleftrightarrow> ?less"
    by (rule compare_digits_num) (use al in \<open>simp_all add: aligned_def\<close>)
  have "signed_num ?r = signed_num x + signed_num y"
    using z(4) sign by (auto simp: signed_num_def le_num_rev split: if_splits)
  then have "dec_val ?r = dec_val x + dec_val y" unfolding aligned_sum [OF al] by (simp add: dec_val_signed z(2))
  moreover have "add_aligned B x y = Some ?r"
    using sign z(1) by (cases ?less) (simp_all add: add_aligned_def comp)
  ultimately show ?thesis using z al by (simp add: dec_ok_def aligned_def)
qed

lemma raise_exponent_val:
  assumes B: "bn_laws B" and m: "exponent d \<le> m" "m - exponent d < 2 ^ 63"
  shows "raise_exponent B m d = Some (d\<lparr>digits := replicate (nat (m - exponent d)) 0 @ digits d, exponent := m\<rparr>)"
proof (cases "exponent d = m")
  case True
  then show ?thesis by (simp add: raise_exponent_def VarInt_CompareTo_def bn_rules [OF B])
next
  case False
  define v where "v = m - exponent d"
  have "0 \<le> v" "v < 2 ^ 64" using m by (simp_all add: v_def)
  then have "uint (word_of_int v :: 64 word) = v" by (simp add: uint_word_of_int)
  then have "unat (word_of_int (m - exponent d) :: 64 word) = nat (m - exponent d)"
    unfolding v_def by (simp only: unat_eq_nat_uint)
  then show ?thesis using False m
    by (simp add: raise_exponent_def VarInt_CompareTo_def bn_rules [OF B] ToInt64_val [OF B] sgn_if)
qed

lemma Decimal_add_val:
  assumes B: "bn_laws B" and x: "canonical x" and y: "canonical y"
    and small: "nat \<bar>exponent x - exponent y\<bar> + length (digits x) + length (digits y) < 2 ^ 31 - 1"
  shows "\<exists>z. Decimal_add B x y = Some z \<and> canonical z \<and> dec_val z = dec_val x + dec_val y"
proof -
  define m where "m = max (exponent x) (exponent y)"
  define k where "k d = nat (m - exponent d)" for d :: Decimal
  define n where "n = max (k x + length (digits x)) (k y + length (digits y))"
  define A where "A d = d\<lparr>exponent := m, digits := replicate (k d) 0 @ digits d @ replicate (n - (k d + length (digits d))) 0\<rparr>" for d :: Decimal
  have k: "k x + length (digits x) + length (digits y) < 2 ^ 31 - 1" "k y + length (digits x) + length (digits y) < 2 ^ 31 - 1"
    using small by (auto simp: k_def m_def max_def)
  have n: "n < 2 ^ 31 - 1" "k x + length (digits x) \<le> n" "k y + length (digits y) \<le> n" using k by (auto simp: n_def)
  have mx: "m - exponent d < 2 ^ 63" if "k d < 2 ^ 31" for d using that by (auto simp: k_def nat_less_iff)
  have val: "dec_val (A d) = dec_val d" if "exponent d \<le> m" "k d + length (digits d) \<le> n" for d
    using that dec_val_shift [of "k d" "digits d" "n - (k d + length (digits d))" m] by (simp add: A_def dec_val_def k_def)
  have al: "aligned (A x) (A y)" using n canonical_digits(1) x y by (auto simp: aligned_def A_def list_all_iff)
  obtain r where r: "add_aligned B (A x) (A y) = Some r" "dec_ok r" "dec_val r = dec_val (A x) + dec_val (A y)"
    using add_aligned_same_sign [OF B al] add_aligned_opposite_sign [OF al, of B] by blast
  have make: "Decimal_make B (digits d) (exponent d) (is_positive d) = d" if "canonical d" for d
    using make_canonical_ok(3) [OF B canonical_digits(6) [OF that] that] by (cases d) (simp add: Decimal_make_def)
  have max_e: "(if VarInt_CompareTo B (exponent y) (exponent x) < 0 then exponent x else exponent y) = m"
    by (simp add: VarInt_CompareTo_def bn_rules [OF B] m_def max_def)
  have up: "raise_exponent B m d = Some (d\<lparr>digits := replicate (k d) 0 @ digits d, exponent := m\<rparr>)" if "exponent d \<le> m" "k d < 2 ^ 31" for d
    using raise_exponent_val [OF B that(1) mx [OF that(2)]] by (simp add: k_def)
  have gap: "n - (k d + length (digits d)) < 2 ^ 31" for d using n(1) by simp
  have "Decimal_add B x y = Some (make_canonical B r)"
    unfolding Decimal_add_def Let_def make [OF x] make [OF y] max_e
    using up [of x] up [of y] k gap [of x] gap [of y] r(1) by (simp add: pad_digits_def A_def check_that_def m_def flip: n_def)
  then show ?thesis using make_canonical_ok [OF B r(2)] r(3) val n by (auto simp: m_def)
qed

subsection \<open>Text\<close>

lemma digit_char_facts:
  assumes "d < 10"
  shows "is_digit (digit_char d)" "digit_val (digit_char d) = d"
  using assms by (simp_all add: is_digit_def digit_val_def digit_char_def)

lemma is_digit_other: "is_digit c \<Longrightarrow> c \<notin> {CHR ''e'', CHR ''E'', CHR ''.'', CHR ''+'', CHR ''-'', CHR 0x00}"
  by (auto simp: is_digit_def)

lemma digits10_facts: "digits10 n \<noteq> []" "list_all is_digit (digits10 n)" "decimal_val (digits10 n) = n"
proof -
  show "digits10 n \<noteq> []" by (subst digits10.simps) simp
  have "is_digit (char_of (48 + k))" if "k < 10" for k :: nat using digit_char_facts(1) [OF that] by (simp add: digit_char_def)
  then show "list_all is_digit (digits10 n)"
    by (induction n rule: digits10.induct) (subst digits10.simps, simp)
  show "decimal_val (digits10 n) = n"
    by (induction n rule: digits10.induct) (subst digits10.simps, simp add: decimal_val_def digit_val_def)
qed

lemma dec2bn_digits:
  assumes "bn_laws B" "s \<noteq> []" "list_all is_digit s"
  shows "BN_dec2bn B s = (int (decimal_val s), length s)" "BN_dec2bn B (CHR ''-'' # s) = (- int (decimal_val s), Suc (length s))"
proof -
  have "\<forall>s rest. s \<noteq> [] \<and> list_all is_digit s \<and> (rest = [] \<or> \<not> is_digit (hd rest)) \<longrightarrow>
      BN_dec2bn B (s @ rest) = (int (decimal_val s), length s)
      \<and> BN_dec2bn B (CHR ''-'' # s @ rest) = (- int (decimal_val s), Suc (length s))"
    using assms(1) unfolding bn_laws_def by (elim conjE)
  from this [rule_format, of s "[]"] assms(2,3)
  show "BN_dec2bn B s = (int (decimal_val s), length s)" "BN_dec2bn B (CHR ''-'' # s) = (- int (decimal_val s), Suc (length s))"
    by simp_all
qed

lemma VarInt_FromString_digits:
  assumes "bn_laws B" "s \<noteq> []" "list_all is_digit s"
  shows "VarInt_FromString B s = Inr (int (decimal_val s))" "VarInt_FromString B (CHR ''-'' # s) = Inr (- int (decimal_val s))"
    "VarInt_FromString B (CHR ''+'' # s) = Inr (int (decimal_val s))"
proof -
  have "hd s \<noteq> CHR ''+''" using assms(2,3) is_digit_other by (cases s) auto
  then show "VarInt_FromString B s = Inr (int (decimal_val s))" "VarInt_FromString B (CHR ''-'' # s) = Inr (- int (decimal_val s))"
    "VarInt_FromString B (CHR ''+'' # s) = Inr (int (decimal_val s))"
    using assms(2) by (simp_all add: VarInt_FromString_def dec2bn_digits [OF assms])
qed

lemma no_nul: "list_all is_digit s \<Longrightarrow> takeWhile (\<lambda>c. c \<noteq> CHR 0x00) s = s"
  by (rule takeWhile_eq_all_conv [THEN iffD2]) (auto simp: list_all_iff is_digit_def)

text \<open>An exponent as the scientific form writes it, and as an integer is written.\<close>
lemma VarInt_text:
  assumes "bn_laws B"
  shows "VarInt_FromStdString B ((if Sign B z \<ge> 0 then ''+'' else []) @ VarInt_ToString B z) = Inr z"
    "VarInt_FromStdString B (VarInt_ToString B z) = Inr z"
  using VarInt_FromString_digits [OF assms digits10_facts(1,2)] digits10_facts(3)
  by (auto simp: VarInt_FromStdString_def VarInt_ToString_def bn_rules [OF assms] Sign_def int_to_string_def
      no_nul [OF digits10_facts(2)])

lemma parse_mantissa_digits:
  "list_all (\<lambda>x. x < 10) ds \<Longrightarrow> parse_mantissa (map digit_char ds @ rest) acc p = parse_mantissa rest (acc @ ds) p"
proof (induction ds arbitrary: acc)
  case (Cons d ds)
  then have d: "is_digit (digit_char d)" "digit_val (digit_char d) = d" by (simp_all add: digit_char_facts)
  with is_digit_other [OF d(1)] Cons show ?case by simp
qed simp

lemma digit_char_0: "digit_char 0 = CHR ''0''"
  unfolding digit_char_def by code_simp

lemma push_checked_out: "push_checked m out cs = Inr s \<Longrightarrow> s = out @ cs \<and> (cs \<noteq> [] \<longrightarrow> length s \<le> m)"
  by (induction cs arbitrary: out) (fastforce split: if_splits)+

lemma push_digits_out:
  "push_digits m e i out ds = Inr s \<Longrightarrow> s = out @ (if int i \<le> e \<and> e < int i + int (length ds)
      then map digit_char (take (nat e - i) ds) @ ''.'' @ map digit_char (drop (nat e - i) ds) else map digit_char ds)
    \<and> (ds \<noteq> [] \<longrightarrow> length s \<le> m)"
proof (induction ds arbitrary: i out)
  case (Cons d ds)
  let ?out = "(if e = int i then out @ ''.'' else out) @ [digit_char d]"
  have r: "push_digits m e (Suc i) ?out ds = Inr s" "length ?out \<le> m"
    using Cons.prems by (auto simp: Let_def split: if_splits)
  note IH = Cons.IH [OF r(1)]
  consider "e = int i" | "e < int i" | "int i < e" by linarith
  then show ?case
  proof cases
    case 3
    then have "nat e - i = Suc (nat e - Suc i)" by linarith
    then show ?thesis using IH 3 r(2) by (cases "ds = []") (auto split: if_splits)
  qed (use IH r(2) in \<open>auto split: if_splits\<close>)
qed simp

text \<open>What the parser makes of a sign, digits, perhaps a point, more digits and perhaps an exponent.\<close>
lemma FromString_parsed:
  assumes B: "bn_laws B" and ds: "list_all (\<lambda>x. x < 10) (us @ vs)" "us \<noteq> []" "length (us @ vs) < 2 ^ 31"
    and p: "pt \<or> vs = []" and r: "rest = [] \<and> e = 0 \<or> (\<exists>t. rest = CHR ''e'' # t \<and> VarInt_FromStdString B t = Inr e)"
  shows "Decimal_FromString B ((if pos then [] else ''-'') @ map digit_char us @ (if pt then ''.'' else []) @ map digit_char vs @ rest)
    = Inr (make_canonical B \<lparr>digits = us @ vs, exponent = e + int (length us), is_positive = pos\<rparr>)"
proof -
  have h: "is_digit (hd (map digit_char us))" using ds by (cases us) (simp_all add: digit_char_facts)
  have stop: "parse_mantissa rest ds q = Inr (ds, q, rest)" for ds q using r by auto
  have body: "parse_mantissa (map digit_char us @ (if pt then ''.'' else []) @ map digit_char vs @ rest) [] None
      = Inr (us @ vs, if pt then Some (length us) else None, rest)"
    using ds p by (auto simp: parse_mantissa_digits stop)
  have len: "sint (of_nat (length us) :: 64 word) = int (length us)" using ds(3) by (intro sint_of_nat) simp
  define body_text where "body_text = map digit_char us @ (if pt then ''.'' else []) @ map digit_char vs @ rest"
  have bt: "body_text \<noteq> []" "hd body_text = hd (map digit_char us)" using ds(2) by (simp_all add: body_text_def)
  have "hd body_text \<noteq> CHR ''+''" "hd body_text \<noteq> CHR ''-''" using is_digit_other [OF h] bt(2) by auto
  then show ?thesis using r ds(2) p bt(1) body unfolding body_text_def [symmetric]
    by (cases pos) (auto simp: Decimal_FromString_def bn_rules [OF B] VarInt_of_int64_val [OF B] len)
qed

text \<open>A parsed number with the right value is the number.\<close>
lemma parsed_same:
  assumes B: "bn_laws B" and d: "canonical d" and ok: "list_all (\<lambda>x. x < 10) ds" "length ds < 2 ^ 31"
    and split: "ds = replicate n 0 @ digits d @ replicate t 0" and e: "digits d \<noteq> [] \<longrightarrow> e = exponent d + int n \<and> pos = is_positive d"
  shows "make_canonical B \<lparr>digits = ds, exponent = e, is_positive = pos\<rparr> = d"
proof -
  let ?r = "\<lparr>digits = ds, exponent = e, is_positive = pos\<rparr>"
  have r: "dec_ok ?r" using ok by (simp add: dec_ok_def)
  have "dec_val ?r = dec_val d"
  proof (cases "digits d = []")
    case True
    then show ?thesis by (simp add: dec_val_def split)
  next
    case False
    then show ?thesis using dec_val_shift [of n "digits d" t e] e by (simp add: dec_val_def split add.assoc)
  qed
  then show ?thesis using canonical_unique [OF B make_canonical_ok(1) [OF B r] d] make_canonical_ok(2) [OF B r] by simp
qed

lemma text_of_decimal:
  assumes B: "bn_laws B" and d: "canonical d" and split: "us @ vs = replicate n 0 @ digits d @ replicate t 0"
    and us: "us \<noteq> []" "length (us @ vs) < 2 ^ 31" and p: "pt \<or> vs = []"
    and r: "rest = [] \<and> e = 0 \<or> (\<exists>t. rest = CHR ''e'' # t \<and> VarInt_FromStdString B t = Inr e)"
    and e: "digits d \<noteq> [] \<longrightarrow> e + int (length us) = exponent d + int n \<and> pos = is_positive d"
  shows "Decimal_FromString B ((if pos then [] else ''-'') @ map digit_char us @ (if pt then ''.'' else []) @ map digit_char vs @ rest)
    = Inr d"
proof -
  have ok: "list_all (\<lambda>x. x < 10) (us @ vs)" unfolding split using canonical_digits(1) [OF d] by (auto simp: list_all_iff)
  show ?thesis unfolding FromString_parsed [OF B ok us p r] parsed_same [OF B d ok us(2) split e] ..
qed

lemma scientific_round_trip:
  assumes B: "bn_laws B" and d: "canonical d" "digits d \<noteq> []"
  shows "Decimal_FromString B (ToScientificString B d) = Inr d"
proof -
  obtain x xs where ds: "digits d = x # xs" using d(2) by (cases "digits d") auto
  let ?z = "exponent d + - 1"
  let ?t = "(if Sign B ?z \<ge> 0 then ''+'' else []) @ VarInt_ToString B ?z"
  have "ToScientificString B d = (if is_positive d then [] else ''-'') @ map digit_char [x] @ (if True then ''.'' else [])
      @ map digit_char xs @ ''e'' @ ?t"
    by (simp add: ToScientificString_def ds bn_rules [OF B] VarInt_of_int64_val [OF B])
  also have "Decimal_FromString B \<dots> = Inr d"
    by (rule text_of_decimal [OF B d(1), where n = 0 and t = 0 and e = ?z])
      (use canonical_digits(6) [OF d(1)] ds VarInt_text(1) [OF B, of ?z] in \<open>simp_all add: dec_ok_def\<close>)
  finally show ?thesis .
qed

text \<open>The forms of the point notation: a fraction below one, a point between the digits, an integer.\<close>
lemma ToPointString_text:
  assumes B: "bn_laws B" and ne: "digits d \<noteq> []" and s: "ToPointString B m d = Inr s"
  defines "sign \<equiv> if is_positive d then [] else ''-''" and "L \<equiv> length (digits d)"
  shows "exponent d \<le> 0 \<and> length s \<le> m
      \<and> s = sign @ map digit_char [0] @ ''.'' @ map digit_char (replicate (nat (- exponent d)) 0 @ digits d)
    \<or> 0 < exponent d \<and> exponent d < int L
      \<and> s = sign @ map digit_char (take (nat (exponent d)) (digits d)) @ ''.'' @ map digit_char (drop (nat (exponent d)) (digits d))
    \<or> 0 < exponent d \<and> int L \<le> exponent d \<and> exponent d \<le> int m
      \<and> s = sign @ map digit_char (digits d @ replicate (nat (exponent d) - L) 0)"
proof -
  define e where "e = exponent d"
  have range: "- (2 ^ 63) \<le> e" "e < 2 ^ 63" using s ne by (auto simp: ToPointString_def ToInt64_val [OF B] e_def split: if_splits)
  have w: "sint (word_of_int e :: 64 word) = e" using range by (simp add: signed_of_int signed_take_bit_int_eq_self)
  have P: "(if e > int m \<or> e < - int m then Inl kInvalidArgument
      else if e \<le> 0 then push_checked m (sign @ ''0.'' @ replicate (nat (- e)) (CHR ''0'')) (map digit_char (digits d))
      else case push_digits m e 0 sign (digits d) of Inl c \<Rightarrow> Inl c
        | Inr out \<Rightarrow> push_checked m out (replicate (nat e - L) (CHR ''0''))) = Inr s"
    using s ne range
    by (simp only: ToPointString_def ToInt64_val [OF B] e_def [symmetric] w Let_def sum.case if_False if_True simp_thms sign_def L_def)
  show ?thesis
  proof (cases "e \<le> 0")
    case True
    then have "push_checked m (sign @ ''0.'' @ replicate (nat (- e)) (CHR ''0'')) (map digit_char (digits d)) = Inr s"
      using P by (auto split: if_splits)
    from push_checked_out [OF this] True show ?thesis using ne by (auto simp: digit_char_0 e_def)
  next
    case False
    then obtain out where out: "push_digits m e 0 sign (digits d) = Inr out" "push_checked m out (replicate (nat e - L) (CHR ''0'')) = Inr s"
        and em: "e \<le> int m" using P by (auto split: if_splits sum.splits)
    from push_digits_out [OF out(1)] push_checked_out [OF out(2)] False em show ?thesis
      by (cases "e < int L") (simp_all add: e_def L_def digit_char_0)
  qed
qed

lemma point_round_trip:
  assumes B: "bn_laws B" and d: "canonical d" and m: "m < 2 ^ 31" and s: "ToPointString B m d = Inr s"
  shows "Decimal_FromString B s = Inr d"
proof (cases "digits d = []")
  case True
  have "Decimal_FromString B ((if True then [] else ''-'') @ map digit_char [0] @ (if False then ''.'' else []) @ map digit_char [] @ [])
      = Inr d"
    by (rule text_of_decimal [OF B d, where n = 1 and t = 0 and e = 0]) (use True in simp_all)
  then show ?thesis using s True by (simp add: ToPointString_def digit_char_0)
next
  case False
  let ?sign = "if is_positive d then [] else ''-''" and ?L = "length (digits d)" and ?e = "exponent d"
  from ToPointString_text [OF B False s]
  consider (small) "?e \<le> 0" "length s \<le> m"
      "s = ?sign @ map digit_char [0] @ ''.'' @ map digit_char (replicate (nat (- ?e)) 0 @ digits d)"
    | (inner) "0 < ?e" "?e < int ?L" "s = ?sign @ map digit_char (take (nat ?e) (digits d)) @ ''.'' @ map digit_char (drop (nat ?e) (digits d))"
    | (large) "0 < ?e" "int ?L \<le> ?e" "?e \<le> int m" "s = ?sign @ map digit_char (digits d @ replicate (nat ?e - ?L) 0)" by blast
  then show ?thesis
  proof cases
    case small
    have "Decimal_FromString B (?sign @ map digit_char [0] @ (if True then ''.'' else []) @ map digit_char (replicate (nat (- ?e)) 0 @ digits d) @ []) = Inr d"
      by (rule text_of_decimal [OF B d, where n = "Suc (nat (- ?e))" and t = 0 and e = 0]) (use small m in auto)
    then show ?thesis using small(3) by simp
  next
    case inner
    have "Decimal_FromString B (?sign @ map digit_char (take (nat ?e) (digits d)) @ (if True then ''.'' else [])
        @ map digit_char (drop (nat ?e) (digits d)) @ []) = Inr d"
      by (rule text_of_decimal [OF B d, where n = 0 and t = 0 and e = 0]) (use canonical_digits(6) [OF d] inner in \<open>auto simp: dec_ok_def\<close>)
    then show ?thesis using inner(3) by simp
  next
    case large
    have "Decimal_FromString B (?sign @ map digit_char (digits d @ replicate (nat ?e - ?L) 0) @ (if False then ''.'' else [])
        @ map digit_char [] @ []) = Inr d"
      by (rule text_of_decimal [OF B d, where n = 0 and t = "nat ?e - ?L" and e = 0]) (use False large m in auto)
    then show ?thesis using large(4) by simp
  qed
qed

lemma Decimal_text_round_trip:
  assumes B: "bn_laws B" and d: "canonical d"
  shows "Decimal_FromString B (Decimal_ToString B d) = Inr d"
proof (cases "ToPointString B kDefaultMaxLength d")
  case (Inl c)
  then have "digits d \<noteq> []" by (auto simp: ToPointString_def)
  then show ?thesis using Inl scientific_round_trip [OF assms] by (simp add: Decimal_ToString_def)
next
  case (Inr s)
  then show ?thesis using point_round_trip [OF assms _ Inr] by (simp add: Decimal_ToString_def kDefaultMaxLength_def)
qed

lemma decimal_val_digits: "list_all (\<lambda>x. x < 10) ds \<Longrightarrow> decimal_val (map digit_char ds) = digits_num ds"
proof (induction ds rule: rev_induct)
  case (snoc d ds)
  then show ?case by (simp add: decimal_val_def digit_char_facts digits_num_append)
qed (simp add: decimal_val_def)

lemma digit_text: "list_all (\<lambda>x. x < 10) ds \<Longrightarrow> list_all is_digit (map digit_char ds)"
  by (simp add: list_all_iff digit_char_facts)

text \<open>The integers convert exactly, as far as the text has room for them.\<close>
lemma ToVarInt_val:
  assumes B: "bn_laws B" and d: "canonical d"
  shows "ToVarInt B d = Inr z \<Longrightarrow> dec_val d = of_int z"
proof -
  assume z: "ToVarInt B d = Inr z"
  then obtain s where s: "ToPointString B kUnlimitedMaxLength d = Inr s" "is_integer B d" "VarInt_FromStdString B s = Inr z"
    by (auto simp: ToVarInt_def split: sum.splits if_splits)
  show "dec_val d = of_int z"
  proof (cases "digits d = []")
    case True
    then have "s = map digit_char [0]" using s(1) by (simp add: ToPointString_def digit_char_0)
    then show ?thesis using s(3) True VarInt_FromString_digits(1) [OF B, of "map digit_char [0]"] digit_text [of "[0]"]
      by (simp add: VarInt_FromStdString_def no_nul decimal_val_digits dec_val_def) (simp add: digit_char_0 is_digit_def decimal_val_def digit_val_def)
  next
    case False
    let ?e = "exponent d" and ?L = "length (digits d)"
    let ?ds = "digits d @ replicate (nat ?e - ?L) 0"
    have e: "int ?L \<le> ?e" using s(2) False canonical_digits(6) [OF d]
      by (simp add: is_integer_def VarInt_CompareTo_def bn_rules [OF B] VarInt_of_int64_val [OF B] sint_of_nat dec_ok_def sgn_if split: if_splits)
    with False have "0 < ?e" by (cases "digits d") auto
    with ToPointString_text [OF B False s(1)] e have t: "s = (if is_positive d then [] else ''-'') @ map digit_char ?ds" by auto
    have ok: "list_all (\<lambda>x. x < 10) ?ds" using canonical_digits(1) [OF d] by (auto simp: list_all_iff)
    define X where "X = map digit_char ?ds"
    have X: "list_all is_digit X" "X \<noteq> []" "decimal_val X = digits_num ?ds"
      using digit_text [OF ok] decimal_val_digits [OF ok] False by (simp_all add: X_def)
    have "z = (if is_positive d then int (digits_num ?ds) else - int (digits_num ?ds))"
      using s(3) t [folded X_def] VarInt_FromString_digits(1,2) [OF B X(2,1)] no_nul [OF X(1)]
      by (cases "is_positive d") (simp_all add: VarInt_FromStdString_def X(3))
    moreover have "dec_val d = (if is_positive d then 1 else - 1) * of_nat (digits_num ?ds)"
      using e by (simp add: dec_val_def digits_num_append power_int_def nat_diff_distrib)
    ultimately show ?thesis by simp
  qed
qed

subsection \<open>The serialised form\<close>

lemma length_digits10: "n < 10 ^ k \<Longrightarrow> 0 < k \<Longrightarrow> length (digits10 n) \<le> k"
proof (induction n arbitrary: k rule: digits10.induct)
  case (1 n)
  show ?case
  proof (cases "n < 10")
    case True
    then show ?thesis using 1 by (subst digits10.simps) simp
  next
    case False
    obtain j where j: "k = Suc j" using 1 by (cases k) auto
    then have "n div 10 < 10 ^ j" "0 < j" using 1(2) False by (auto intro: ccontr)
    then show ?thesis using 1(1) [OF False] False j by (subst digits10.simps) simp
  qed
qed

lemma digits10_digits:
  "digits_num (map digit_val (digits10 n)) = n" "list_all (\<lambda>x. x < 10) (map digit_val (digits10 n))"
proof -
  have "digits_num (map digit_val s) = decimal_val s" for s
    by (induction s rule: rev_induct) (simp_all add: decimal_val_def digits_num_append)
  then show "digits_num (map digit_val (digits10 n)) = n" by (simp add: digits10_facts)
  show "list_all (\<lambda>x. x < 10) (map digit_val (digits10 n))"
    using digits10_facts(2) [of n] by (auto simp: list_all_iff is_digit_def digit_val_def)
qed

lemma digits10_short:
  assumes d: "canonical d"
  shows "length (digits10 (digits_num (digits d))) < 2 ^ 31"
proof (cases "digits d = []")
  case True
  then show ?thesis by (subst digits10.simps) simp
next
  case False
  then have "length (digits10 (digits_num (digits d))) \<le> length (digits d)"
    using digits_num_less [OF canonical_digits(1) [OF d]] by (intro length_digits10) simp_all
  then show ?thesis using canonical_digits(6) [OF d] by (simp add: dec_ok_def)
qed

lemma decoded_mantissa:
  assumes B: "bn_laws B" and d: "canonical d" and n: "n = digits_num (digits d)"
  shows "make_canonical B \<lparr>digits = map digit_val (digits10 n),
      exponent = int (length (digits10 n)) - (int (length (digits d)) - exponent d), is_positive = is_positive d\<rparr> = d"
proof -
  let ?r = "\<lparr>digits = map digit_val (digits10 n),
      exponent = int (length (digits10 n)) - (int (length (digits d)) - exponent d), is_positive = is_positive d\<rparr>"
  have ok: "dec_ok ?r" using digits10_short [OF d] digits10_digits(2) [of n] by (simp add: dec_ok_def n)
  have "dec_val ?r = dec_val d" using digits10_digits(1) [of n] by (simp add: dec_val_def n)
  then show ?thesis using canonical_unique [OF B make_canonical_ok(1) [OF B ok] d] make_canonical_ok(2) [OF B ok] by simp
qed

lemma BigDecimal_round_trip:
  assumes B: "bn_laws B" and d: "canonical d"
  defines "scale \<equiv> int (length (digits d)) - exponent d"
  shows "if tc_range 4 scale
    then \<exists>bs. EncodeToSerializedBigDecimal B d = Some (False, bs) \<and> DecodeFromSerializedBigDecimal B bs = Some (Inr d)
    else EncodeToSerializedBigDecimal B d = Some (True, [])"
proof -
  define n where "n = digits_num (digits d)"
  define z where "z = (if is_positive d then int n else - int n)"
  note c = canonical_digits [OF d]
  have scale: "BN_sub B (VarInt_of_int64 B (of_nat (length (digits d)))) (exponent d) = scale"
    using c(6) by (simp add: bn_rules [OF B] VarInt_of_int64_val [OF B] sint_of_nat dec_ok_def scale_def)
  obtain sb where sbs: "EncodeToTwosComplement B scale = Some sb" "sb \<noteq> []" "tc_val sb = scale" "length sb \<le> 4 \<longleftrightarrow> tc_range 4 scale"
    using EncodeToTwosComplement_fits [OF B, of 4 scale] by auto
  obtain me where me: "EncodeToTwosComplement B z = Some me" "me \<noteq> []" "tc_val me = z"
    using EncodeToTwosComplement_val [OF B, of z] by blast
  have parsed: "VarInt_FromString B (map digit_char (digits d)) = Inr (int n)" if "digits d \<noteq> []"
    using VarInt_FromString_digits(1) [OF B, of "map digit_char (digits d)"] digit_text [OF c(1)] decimal_val_digits [OF c(1)] that
    by (simp add: n_def)
  have zneg: "z < 0 \<longleftrightarrow> \<not> is_positive d"
    using c(2,4) digits_num_pos [of "digits d"] by (auto simp: z_def n_def)
  have mant: "(if is_positive d then int n else Negate B (int n)) = z" "digits d = [] \<Longrightarrow> z = 0"
    using c(4) by (simp_all add: z_def Negate_def bn_rules [OF B] n_def)
  define s4 where "s4 = replicate (4 - length sb) (if Sign B scale < 0 then 0xFF else 0) @ sb"
  have enc: "EncodeToSerializedBigDecimal B d = Some (if tc_range 4 scale then (False, s4 @ me) else (True, []))"
    using sbs(1,4) parsed mant me(1) c(4) unfolding EncodeToSerializedBigDecimal_def Let_def scale
    by (cases "digits d = []") (auto simp: s4_def VarInt_of_int64_val [OF B])
  have "DecodeFromSerializedBigDecimal B (s4 @ me) = Some (Inr d)" if "tc_range 4 scale"
  proof -
    have l: "length s4 = 4" using that sbs(4) by (simp add: s4_def)
    have "Sign B scale < 0 \<longleftrightarrow> tc_val sb < 0" by (simp add: Sign_def bn_rules [OF B] sbs(3))
    then have "tc_val s4 = scale" using tc_val_extend [OF sbs(2), of "4 - length sb"] sbs(3) by (simp add: s4_def)
    then have "DecodeFromTwosComplement B s4 = Some (Inr scale)" "DecodeFromTwosComplement B me = Some (Inr z)"
      using DecodeFromTwosComplement_val [OF B, of s4] DecodeFromTwosComplement_val [OF B me(2)] me(3) l by (cases s4; simp)+
    moreover have "VarInt_ToString B (if Sign B z < 0 then Negate B z else z) = digits10 n"
      by (simp add: VarInt_ToString_def bn_rules [OF B] Sign_def Negate_def int_to_string_def z_def)
    moreover have "length (digits10 n) < 2 ^ 31" using digits10_short [OF d] by (simp add: n_def)
    moreover have "Sign B z < 0 \<longleftrightarrow> \<not> is_positive d" using zneg by (auto simp: Sign_def bn_rules [OF B])
    ultimately show ?thesis using l me(2) decoded_mantissa [OF B d n_def]
      by (cases me) (simp_all add: DecodeFromSerializedBigDecimal_def Let_def bn_rules [OF B] VarInt_of_int64_val [OF B] sint_of_nat scale_def)
  qed
  with enc show ?thesis by auto
qed

lemma parse_mantissa_digits_ok:
  "parse_mantissa s acc p = Inr (ds, q, rest) \<Longrightarrow> list_all (\<lambda>x. x < 10) acc \<Longrightarrow>
    list_all (\<lambda>x. x < 10) ds \<and> length ds \<le> length acc + length s"
proof (induction s acc p rule: parse_mantissa.induct)
  case (2 c cs acc p)
  have "digit_val c < 10" if "is_digit c" using that by (auto simp: is_digit_def digit_val_def)
  then show ?case using 2 by (fastforce split: if_splits)
qed auto

text \<open>What is parsed is in canonical form.\<close>
lemma Decimal_FromString_canonical:
  assumes B: "bn_laws B" and d: "Decimal_FromString B s = Inr d" and s: "length s < 2 ^ 31"
  shows "canonical d"
proof -
  let ?t = "if hd s = CHR ''+'' \<or> hd s = CHR ''-'' then tl s else s"
  obtain ds q rest e where p: "parse_mantissa ?t [] None = Inr (ds, q, rest)"
      and r: "d = make_canonical B \<lparr>digits = ds, exponent = e, is_positive = (hd s \<noteq> CHR ''-'')\<rparr>"
    using d by (auto simp: Decimal_FromString_def split: if_splits sum.splits prod.splits)
  from parse_mantissa_digits_ok [OF p] have "list_all (\<lambda>x. x < 10) ds" "length ds \<le> length ?t" by simp_all
  moreover have "length ?t \<le> length s" by simp
  ultimately have "dec_ok \<lparr>digits = ds, exponent = e, is_positive = (hd s \<noteq> CHR ''-'')\<rparr>" using s by (simp add: dec_ok_def)
  then show ?thesis unfolding r by (rule make_canonical_ok(1) [OF B])
qed

subsection \<open>Properties\<close>

text \<open>(C7)
  The comparable encoding of canonical decimals orders byte strings as the numbers,
  whatever bytes follow, so a decimal can be a column of a key.
\<close>
theorem decimal_comparable_order:
  assumes "bn_laws B" "canonical x" "canonical y"
  shows "\<exists>ex ey. Decimal_EncodeToComparable B x = Some ex \<and> Decimal_EncodeToComparable B y = Some ey
    \<and> (bytes_less (ex @ us) (ey @ vs) \<longleftrightarrow> dec_val x < dec_val y \<or> x = y \<and> bytes_less us vs)"
proof -
  have "dec_val x = dec_val y \<longleftrightarrow> x = y" using canonical_unique assms by blast
  then show ?thesis
    using assms decimal_key.total [of B x] decimal_key.total [of B y]
      decimal_key.row_order [where B = B and x = x and y = y and us = us and vs = vs] by metis
qed

theorem decimal_comparable_order_witness:
  "\<exists>ex ey. Decimal_EncodeToComparable int_bignum \<lparr>digits = [1, 2, 5], exponent = - 3, is_positive = False\<rparr> = Some ex
    \<and> Decimal_EncodeToComparable int_bignum \<lparr>digits = [7], exponent = 1, is_positive = True\<rparr> = Some ey \<and> bytes_less ex ey"
proof -
  let ?x = "\<lparr>digits = [1, 2, 5], exponent = - 3, is_positive = False\<rparr>" and ?y = "\<lparr>digits = [7], exponent = 1, is_positive = True\<rparr>"
  have "canonical ?x" "canonical ?y" by (simp_all add: canonical_def dec_ok_def)
  moreover have "dec_val ?x < dec_val ?y" by (simp add: dec_val_def power_int_def power_one_over)
  ultimately show ?thesis using decimal_comparable_order [OF int_bignum_laws, of ?x ?y "[]" "[]"] by auto
qed

text \<open>(C24)
  Decoding a canonical decimal from its comparable encoding gives the same decimal and
  takes exactly its bytes, whatever follows.
\<close>
theorem decimal_comparable_round_trip:
  assumes "bn_laws B" "canonical d"
  shows "\<exists>e. Decimal_EncodeToComparable B d = Some e \<and> Decimal_DecodeFromComparable B (e @ rest) = Some (Inr (d, length e))"
  using decimal_key.total [of B d] decimal_key.decodes [of B d] assms by blast

theorem decimal_comparable_round_trip_witness:
  "\<exists>e. Decimal_EncodeToComparable int_bignum \<lparr>digits = [9, 0, 1], exponent = 40, is_positive = False\<rparr> = Some e
    \<and> Decimal_DecodeFromComparable int_bignum (e @ [3]) = Some (Inr (\<lparr>digits = [9, 0, 1], exponent = 40, is_positive = False\<rparr>, length e))"
  by (rule decimal_comparable_round_trip [OF int_bignum_laws]) (simp add: canonical_def dec_ok_def)

text \<open>(C9)
  The sum of two canonical decimals is canonical and has the value of the sum, whatever
  the signs, provided the digits that the alignment needs fit a 32-bit count.
\<close>
theorem decimal_addition:
  assumes "bn_laws B" "canonical x" "canonical y"
    and "nat \<bar>exponent x - exponent y\<bar> + length (digits x) + length (digits y) < 2 ^ 31 - 1"
  shows "\<exists>z. Decimal_add B x y = Some z \<and> canonical z \<and> dec_val z = dec_val x + dec_val y"
  by (rule Decimal_add_val [OF assms])

theorem decimal_addition_witness:
  "\<exists>z. Decimal_add int_bignum \<lparr>digits = [9, 9], exponent = 2, is_positive = True\<rparr> \<lparr>digits = [1], exponent = - 1, is_positive = False\<rparr> = Some z
    \<and> canonical z \<and> dec_val z = 99 - 1 / 100"
proof -
  let ?x = "\<lparr>digits = [9, 9], exponent = 2, is_positive = True\<rparr>" and ?y = "\<lparr>digits = [1], exponent = - 1, is_positive = False\<rparr>"
  have c: "canonical ?x" "canonical ?y" by (simp_all add: canonical_def dec_ok_def)
  have sum: "dec_val ?x + dec_val ?y = 99 - 1 / 100" by (simp add: dec_val_def power_int_def power_one_over)
  have "nat \<bar>exponent ?x - exponent ?y\<bar> + length (digits ?x) + length (digits ?y) < 2 ^ 31 - 1" by simp
  from decimal_addition [OF int_bignum_laws c this] show ?thesis unfolding sum .
qed

text \<open>(C18)
  Printing a canonical decimal and parsing the text gives the same decimal, in the
  point notation and in the scientific one; an integer decimal that converts to an
  integer converts to its value.
\<close>
theorem decimal_text_round_trip:
  assumes "bn_laws B" "canonical d"
  shows "Decimal_FromString B (Decimal_ToString B d) = Inr d \<and> (\<forall>z. ToVarInt B d = Inr z \<longrightarrow> dec_val d = of_int z)"
  using Decimal_text_round_trip [OF assms] ToVarInt_val [OF assms] by blast

theorem decimal_text_round_trip_witness:
  "Decimal_FromString int_bignum (Decimal_ToString int_bignum \<lparr>digits = [3, 1, 4], exponent = 77, is_positive = False\<rparr>)
    = Inr \<lparr>digits = [3, 1, 4], exponent = 77, is_positive = False\<rparr>"
  using decimal_text_round_trip [OF int_bignum_laws, of "\<lparr>digits = [3, 1, 4], exponent = 77, is_positive = False\<rparr>"]
  by (simp add: canonical_def dec_ok_def)

text \<open>(C25)
  The serialised form keeps a decimal whose scale fits four bytes and is refused, with
  the flag set and no bytes, exactly for the others.
\<close>
theorem decimal_serialized_round_trip:
  assumes "bn_laws B" "canonical d"
  shows "if - (2 ^ 31) \<le> int (length (digits d)) - exponent d \<and> int (length (digits d)) - exponent d < 2 ^ 31
    then \<exists>bs. EncodeToSerializedBigDecimal B d = Some (False, bs) \<and> DecodeFromSerializedBigDecimal B bs = Some (Inr d)
    else EncodeToSerializedBigDecimal B d = Some (True, [])"
  using BigDecimal_round_trip [OF assms] by (simp add: tc_range_def)

theorem decimal_serialized_round_trip_witness:
  "(\<exists>bs. EncodeToSerializedBigDecimal int_bignum \<lparr>digits = [1, 2], exponent = 1, is_positive = False\<rparr> = Some (False, bs)
     \<and> DecodeFromSerializedBigDecimal int_bignum bs = Some (Inr \<lparr>digits = [1, 2], exponent = 1, is_positive = False\<rparr>))
   \<and> EncodeToSerializedBigDecimal int_bignum \<lparr>digits = [1], exponent = 2 ^ 40, is_positive = True\<rparr> = Some (True, [])"
  using decimal_serialized_round_trip [OF int_bignum_laws, of "\<lparr>digits = [1, 2], exponent = 1, is_positive = False\<rparr>"]
    decimal_serialized_round_trip [OF int_bignum_laws, of "\<lparr>digits = [1], exponent = 2 ^ 40, is_positive = True\<rparr>"]
  by (simp add: canonical_def dec_ok_def)

end
