(* ===== verification/Sql_Values.thy ===== *)
theory Sql_Values
  imports Sql_Types Decimal_Num
begin

text \<open>
  SQL values (entities/value.h, value.cc): construction from a backend datum,
  the setters, comparison and the next larger value used for scan bounds.
  The conversion function of a type entity is a parameter, as it is a function
  pointer in the code.  A decimal is stored in its comparable encoding, so that the
  byte-wise comparison of values is the numerical one.
\<close>

datatype ValueType = VT_BOOL | VT_INT | VT_FLOAT | VT_DOUBLE | VT_SLICE | VT_UNKNOWN

text \<open>The member of the value that is in use; \<open>D_none\<close> is uninitialised.\<close>
datatype sql_data = D_none | D_bool bool | D_int "64 word" | D_float "32 word" | D_double "64 word"
  | D_slice string

record sql_value =
  sv_type :: ValueType
  sv_data :: sql_data
  sv_null :: bool

definition SqlValue_bool :: "bool \<Rightarrow> sql_value" where
  "SqlValue_bool b = \<lparr>sv_type = VT_BOOL, sv_data = D_bool b, sv_null = False\<rparr>"
definition SqlValue_int :: "64 word \<Rightarrow> sql_value" where
  "SqlValue_int v = \<lparr>sv_type = VT_INT, sv_data = D_int v, sv_null = False\<rparr>"
definition SqlValue_float :: "32 word \<Rightarrow> sql_value" where
  "SqlValue_float f = \<lparr>sv_type = VT_FLOAT, sv_data = D_float f, sv_null = False\<rparr>"
definition SqlValue_double :: "64 word \<Rightarrow> sql_value" where
  "SqlValue_double d = \<lparr>sv_type = VT_DOUBLE, sv_data = D_double d, sv_null = False\<rparr>"
definition SqlValue_slice :: "string \<Rightarrow> sql_value" where
  "SqlValue_slice s = \<lparr>sv_type = VT_SLICE, sv_data = D_slice s, sv_null = False\<rparr>"

subsection \<open>From a datum\<close>

record type_entity =
  te_type :: DataType
  te_datum_to_k2pg :: "64 word \<Rightarrow> cell"

text \<open>Value type of a column type; other types abort with an internal error.\<close>
fun value_type_of :: "DataType \<Rightarrow> ValueType option" where
  "value_type_of DT_INT8 = Some VT_INT"
| "value_type_of DT_INT16 = Some VT_INT"
| "value_type_of DT_INT32 = Some VT_INT"
| "value_type_of DT_INT64 = Some VT_INT"
| "value_type_of DT_UINT32 = Some VT_INT"
| "value_type_of DT_UINT8 = Some VT_INT"
| "value_type_of DT_UINT16 = Some VT_INT"
| "value_type_of DT_UINT64 = Some VT_INT"
| "value_type_of DT_STRING = Some VT_SLICE"
| "value_type_of DT_BOOL = Some VT_BOOL"
| "value_type_of DT_FLOAT = Some VT_FLOAT"
| "value_type_of DT_DOUBLE = Some VT_DOUBLE"
| "value_type_of DT_BINARY = Some VT_SLICE"
| "value_type_of DT_TIMESTAMP = Some VT_INT"
| "value_type_of DT_DECIMAL = Some VT_SLICE"
| "value_type_of _ = None"

definition string_of_bytes :: "byte list \<Rightarrow> string" where
  "string_of_bytes = map (\<lambda>b. char_of (unat b))"

text \<open>
  Widening of the converted datum to the stored member: the type of the column selects
  the variable the conversion writes to; signed types extend their sign, unsigned types
  extend with zeros, and a 64-bit unsigned value is stored as it is in the signed member.
  A conversion that writes a variable of another kind has no meaning.
\<close>
definition data_of_cell :: "bignum \<Rightarrow> type_entity \<Rightarrow> cell \<Rightarrow> sql_data checked" where
  "data_of_cell B te c = (case te_type te of
      DT_INT8 \<Rightarrow> (case c of C_i8 w \<Rightarrow> Some (D_int (scast w)) | _ \<Rightarrow> None)
    | DT_INT16 \<Rightarrow> (case c of C_i16 w \<Rightarrow> Some (D_int (scast w)) | _ \<Rightarrow> None)
    | DT_INT32 \<Rightarrow> (case c of C_i32 w \<Rightarrow> Some (D_int (scast w)) | _ \<Rightarrow> None)
    | DT_INT64 \<Rightarrow> (case c of C_i64 w \<Rightarrow> Some (D_int w) | _ \<Rightarrow> None)
    | DT_UINT32 \<Rightarrow> (case c of C_u32 w \<Rightarrow> Some (D_int (ucast w)) | _ \<Rightarrow> None)
    | DT_UINT8 \<Rightarrow> (case c of C_u8 w \<Rightarrow> Some (D_int (ucast w)) | _ \<Rightarrow> None)
    | DT_UINT16 \<Rightarrow> (case c of C_u16 w \<Rightarrow> Some (D_int (ucast w)) | _ \<Rightarrow> None)
    | DT_UINT64 \<Rightarrow> (case c of C_u64 w \<Rightarrow> Some (D_int w) | _ \<Rightarrow> None)
    | DT_STRING \<Rightarrow> (case c of C_slice s \<Rightarrow> Some (D_slice s) | _ \<Rightarrow> None)
    | DT_BOOL \<Rightarrow> (case c of C_bool b \<Rightarrow> Some (D_bool b) | _ \<Rightarrow> None)
    | DT_FLOAT \<Rightarrow> (case c of C_float f \<Rightarrow> Some (D_float f) | _ \<Rightarrow> None)
    | DT_DOUBLE \<Rightarrow> (case c of C_double d \<Rightarrow> Some (D_double d) | _ \<Rightarrow> None)
    | DT_BINARY \<Rightarrow> (case c of C_slice s \<Rightarrow> Some (D_slice s) | _ \<Rightarrow> None)
    | DT_TIMESTAMP \<Rightarrow> (case c of C_i64 w \<Rightarrow> Some (D_int w) | _ \<Rightarrow> None)
    | DT_DECIMAL \<Rightarrow> (case c of
        C_slice s \<Rightarrow> do { d \<leftarrow> Decimal_of_string B s; e \<leftarrow> Decimal_EncodeToComparable B d; Some (D_slice (string_of_bytes e)) }
      | _ \<Rightarrow> None)
    | _ \<Rightarrow> None)"

definition SqlValue_of_datum :: "bignum \<Rightarrow> type_entity \<Rightarrow> 64 word \<Rightarrow> bool \<Rightarrow> sql_value checked" where
  "SqlValue_of_datum B te datum is_null = do {
     vt \<leftarrow> value_type_of (te_type te);
     data \<leftarrow> (if is_null then Some D_none else data_of_cell B te (te_datum_to_k2pg te datum));
     Some \<lparr>sv_type = vt, sv_data = data, sv_null = is_null\<rparr> }"

subsection \<open>Setters\<close>

definition Clear :: "sql_value \<Rightarrow> sql_value" where
  "Clear v = v\<lparr>sv_null := True\<rparr>"

definition set_value :: "ValueType \<Rightarrow> sql_data \<Rightarrow> bool \<Rightarrow> sql_value \<Rightarrow> sql_value" where
  "set_value vt d is_null v =
    (let v1 = v\<lparr>sv_type := vt\<rparr> in if is_null then Clear v1 else v1\<lparr>sv_data := d, sv_null := False\<rparr>)"

definition set_bool_value :: "bool \<Rightarrow> bool \<Rightarrow> sql_value \<Rightarrow> sql_value" where
  "set_bool_value b = set_value VT_BOOL (D_bool b)"
definition set_int8_value :: "8 word \<Rightarrow> bool \<Rightarrow> sql_value \<Rightarrow> sql_value" where
  "set_int8_value w = set_value VT_INT (D_int (scast w))"
definition set_int16_value :: "16 word \<Rightarrow> bool \<Rightarrow> sql_value \<Rightarrow> sql_value" where
  "set_int16_value w = set_value VT_INT (D_int (scast w))"
definition set_int32_value :: "32 word \<Rightarrow> bool \<Rightarrow> sql_value \<Rightarrow> sql_value" where
  "set_int32_value w = set_value VT_INT (D_int (scast w))"
definition set_int64_value :: "64 word \<Rightarrow> bool \<Rightarrow> sql_value \<Rightarrow> sql_value" where
  "set_int64_value w = set_value VT_INT (D_int w)"
definition set_float_value :: "32 word \<Rightarrow> bool \<Rightarrow> sql_value \<Rightarrow> sql_value" where
  "set_float_value f = set_value VT_FLOAT (D_float f)"
definition set_double_value :: "64 word \<Rightarrow> bool \<Rightarrow> sql_value \<Rightarrow> sql_value" where
  "set_double_value d = set_value VT_DOUBLE (D_double d)"

text \<open>A C string ends at its first zero byte; a binary value has an explicit length.\<close>
definition set_string_value :: "string \<Rightarrow> bool \<Rightarrow> sql_value \<Rightarrow> sql_value" where
  "set_string_value s = set_value VT_SLICE (D_slice (takeWhile (\<lambda>c. c \<noteq> char_of (0::nat)) s))"
definition set_binary_value :: "string \<Rightarrow> nat \<Rightarrow> bool \<Rightarrow> sql_value \<Rightarrow> sql_value" where
  "set_binary_value s n = set_value VT_SLICE (D_slice (take n s))"

subsection \<open>Comparison and bounds\<close>

definition IsMaxInteger :: "sql_value \<Rightarrow> bool checked" where
  "IsMaxInteger v = (if sv_type v \<noteq> VT_INT then Some False
     else if sv_null v then None else Some (sv_data v = D_int 0x7FFFFFFFFFFFFFFF))"

text \<open>
  The next value; the assertion excludes null, a non-integer throws, and the
  increment of the largest integer is undefined behaviour.
\<close>
definition UpperBound :: "sql_value \<Rightarrow> (std_exception + sql_value) checked" where
  "UpperBound v = (if sv_null v then None
     else if sv_type v \<noteq> VT_INT then Some (Inl Invalid_argument)
     else case sv_data v of
       D_int w \<Rightarrow> if w = 0x7FFFFFFFFFFFFFFF then None else Some (Inr (SqlValue_int (w + 1)))
     | _ \<Rightarrow> None)"

definition eq_less_compare :: "bool \<Rightarrow> bool \<Rightarrow> int" where
  "eq_less_compare eq lt = (if eq then 0 else if lt then -1 else 1)"

definition Compare :: "sql_value \<Rightarrow> sql_value \<Rightarrow> (std_exception + int) checked" where
  "Compare x y =
    (if sv_null x \<or> sv_null y then None
     else if sv_type x \<noteq> sv_type y then None
     else if sv_type x = VT_UNKNOWN then Some (Inl Invalid_argument)
     else case (sv_data x, sv_data y) of
       (D_bool a, D_bool b) \<Rightarrow> Some (Inr (eq_less_compare (a = b) (a < b)))
     | (D_int a, D_int b) \<Rightarrow> Some (Inr (eq_less_compare (a = b) (sint a < sint b)))
     | (D_float a, D_float b) \<Rightarrow> Some (Inr (eq_less_compare (float_eq 23 a b) (float_lt 23 a b)))
     | (D_double a, D_double b) \<Rightarrow> Some (Inr (eq_less_compare (float_eq 52 a b) (float_lt 52 a b)))
     | (D_slice a, D_slice b) \<Rightarrow> Some (Inr (slice_compare a b))
     | _ \<Rightarrow> None)"

subsection \<open>Lemmas\<close>

lemma Compare_int: "Compare (SqlValue_int a) (SqlValue_int b) = Some (Inr (int_compare (sint a) (sint b)))"
  using word_eq_iff_signed [of a b]
  by (auto simp: Compare_def SqlValue_int_def eq_less_compare_def int_compare_def three_way_def)

lemma Compare_slice: "Compare (SqlValue_slice a) (SqlValue_slice b) = Some (Inr (slice_compare a b))"
  by (simp add: Compare_def SqlValue_slice_def)

text \<open>The number a datum of an integer column is converted to.\<close>
definition int_cell :: "DataType \<Rightarrow> cell \<Rightarrow> int option" where
  "int_cell t c = (case c of
      C_i8 w \<Rightarrow> if t = DT_INT8 then Some (sint w) else None
    | C_i16 w \<Rightarrow> if t = DT_INT16 then Some (sint w) else None
    | C_i32 w \<Rightarrow> if t = DT_INT32 then Some (sint w) else None
    | C_i64 w \<Rightarrow> if t = DT_INT64 \<or> t = DT_TIMESTAMP then Some (sint w) else None
    | C_u8 w \<Rightarrow> if t = DT_UINT8 then Some (uint w) else None
    | C_u16 w \<Rightarrow> if t = DT_UINT16 then Some (uint w) else None
    | C_u32 w \<Rightarrow> if t = DT_UINT32 then Some (uint w) else None
    | C_u64 w \<Rightarrow> if t = DT_UINT64 then Some (uint w) else None
    | _ \<Rightarrow> None)"

lemma sint_bounds_63: "- (2 ^ 63) \<le> sint (w :: 'a::len word) \<and> sint w < 2 ^ 63" if "LENGTH('a) \<le> 64"
proof -
  have "(2 :: int) ^ (LENGTH('a) - 1) \<le> 2 ^ 63" by (rule power_increasing) (use that in auto)
  then show ?thesis using sint_ge [of w] sint_lt [of w] by linarith
qed

lemma uint_bounds_63: "0 \<le> uint (w :: 'a::len word) \<and> uint w < 2 ^ 63" if "LENGTH('a) < 64"
proof -
  have "(2 :: int) ^ LENGTH('a) \<le> 2 ^ 63" by (rule power_increasing) (use that in auto)
  moreover have "uint w < 2 ^ LENGTH('a)" "0 \<le> uint w" by simp_all
  ultimately show ?thesis by linarith
qed

lemma signed_63_self: "signed_take_bit 63 (sint (w :: 'a::len word)) = sint w" if "LENGTH('a) \<le> 64"
  using sint_bounds_63 [OF that, of w] by (intro signed_take_bit_int_eq_self) simp_all

lemma unsigned_63_self: "signed_take_bit 63 (uint (w :: 'a::len word)) = uint w" if "LENGTH('a) < 64"
  using uint_bounds_63 [OF that, of w] by (intro signed_take_bit_int_eq_self) linarith+

lemma sint_widen:
  "sint (scast (w8 :: 8 word) :: 64 word) = sint w8" "sint (scast (w16 :: 16 word) :: 64 word) = sint w16"
  "sint (scast (w32 :: 32 word) :: 64 word) = sint w32"
  "sint (ucast (w8 :: 8 word) :: 64 word) = uint w8" "sint (ucast (w16 :: 16 word) :: 64 word) = uint w16"
  "sint (ucast (w32 :: 32 word) :: 64 word) = uint w32"
  by (simp_all add: signed_scast_eq signed_ucast_eq signed_63_self unsigned_63_self)

lemma sint_uint_64:
  fixes w :: "64 word"
  shows "uint w < 2 ^ 63 \<Longrightarrow> sint w = uint w" "2 ^ 63 \<le> uint w \<Longrightarrow> sint w = uint w - 2 ^ 64"
proof -
  have *: "sint w = signed_take_bit 63 (uint w)" by (simp add: sint_uint)
  have b: "0 \<le> uint w" "uint w < 2 ^ 64" using unsigned_less [of w, where ?'a = int] by simp_all
  show "uint w < 2 ^ 63 \<Longrightarrow> sint w = uint w"
    unfolding * by (rule signed_take_bit_int_eq_self) (use b(1) in linarith)+
  assume "2 ^ 63 \<le> uint w"
  then have "(uint w - 2 ^ 63) mod 2 ^ 64 = uint w - 2 ^ 63"
    using b by (intro mod_pos_pos_trivial) simp_all
  moreover have "uint w + 2 ^ 63 = (uint w - 2 ^ 63) + 2 ^ 64" by simp
  ultimately have "(uint w + 2 ^ 63) mod 2 ^ 64 = uint w + 2 ^ 63 - 2 ^ 64"
    by (metis add_diff_cancel_right' mod_add_self2)
  then show "sint w = uint w - 2 ^ 64"
    unfolding * by (simp add: signed_take_bit_eq_take_bit_shift take_bit_eq_mod)
qed

text \<open>The signed 64-bit number that represents an integer of a column.\<close>
definition stored_int :: "int \<Rightarrow> int" where
  "stored_int i = (if i < 2 ^ 63 then i else i - 2 ^ 64)"

lemma data_of_int_cell:
  assumes "int_cell (te_type te) c = Some i"
  shows "\<exists>w. data_of_cell B te c = Some (D_int w) \<and> sint w = stored_int i"
  using assms sint_bounds_63 [where ?'a = 8] sint_bounds_63 [where ?'a = 16] sint_bounds_63 [where ?'a = 32]
    sint_bounds_63 [where ?'a = 64] uint_bounds_63 [where ?'a = 8] uint_bounds_63 [where ?'a = 16]
    uint_bounds_63 [where ?'a = 32]
  by (cases c) (auto simp: data_of_cell_def int_cell_def sint_widen sint_uint_64 stored_int_def not_le [symmetric] split: if_splits)

lemma int_cell_type: "int_cell t c = Some i \<Longrightarrow> value_type_of t = Some VT_INT"
  by (cases c) (auto simp: int_cell_def split: if_splits)

lemma int_cell_range:
  assumes "int_cell t c = Some i"
  shows "i < 2 ^ 64" "t \<noteq> DT_UINT64 \<Longrightarrow> i < 2 ^ 63" "t = DT_UINT64 \<Longrightarrow> 0 \<le> i"
proof -
  have u: "uint (w :: 64 word) < 2 ^ 64" for w using unsigned_less [of w, where ?'a = int] by simp
  have *: "(t = DT_UINT64 \<and> 0 \<le> i \<and> i < 2 ^ 64) \<or> (t \<noteq> DT_UINT64 \<and> i < 2 ^ 63)"
    using assms u sint_bounds_63 [where ?'a = 8] sint_bounds_63 [where ?'a = 16] sint_bounds_63 [where ?'a = 32]
      sint_bounds_63 [where ?'a = 64] uint_bounds_63 [where ?'a = 8] uint_bounds_63 [where ?'a = 16]
      uint_bounds_63 [where ?'a = 32]
    by (cases c) (auto simp: int_cell_def split: if_splits)
  then show "i < 2 ^ 64" "t \<noteq> DT_UINT64 \<Longrightarrow> i < 2 ^ 63" "t = DT_UINT64 \<Longrightarrow> 0 \<le> i" by auto
qed

lemma slice_compare_bytes:
  "slice_compare (string_of_bytes xs) (string_of_bytes ys) = (if xs = ys then 0 else if bytes_less xs ys then - 1 else 1)"
proof (induction xs arbitrary: ys)
  case Nil
  show ?case by (cases ys) (simp_all add: string_of_bytes_def)
next
  case (Cons x xs)
  have "unat b < 256" for b :: byte by (rule unat_byte)
  then show ?case using Cons
    by (cases ys) (auto simp: string_of_bytes_def word_less_nat_alt word_unat_eq_iff)
qed

subsection \<open>Properties\<close>

text \<open>(C33)
  Integer datums of one column, of numbers \<open>i1\<close> and \<open>i2\<close>, are stored as 64-bit integers
  and compared as these: every number below \<open>2^63\<close> is stored as itself, and an unsigned
  64-bit number from \<open>2^63\<close> on as that number less \<open>2^64\<close>, which is negative.  Two numbers
  that are both below \<open>2^63\<close>, or both not, compare as they should; when exactly one of them
  is below \<open>2^63\<close> their order is inverted.
\<close>
theorem datum_integer_order:
  assumes "int_cell (te_type te) (te_datum_to_k2pg te d1) = Some i1"
    and "int_cell (te_type te) (te_datum_to_k2pg te d2) = Some i2"
  shows "\<exists>w1 w2. SqlValue_of_datum B te d1 False = Some (SqlValue_int w1)
    \<and> SqlValue_of_datum B te d2 False = Some (SqlValue_int w2)
    \<and> sint w1 = (if i1 < 2 ^ 63 then i1 else i1 - 2 ^ 64) \<and> (2 ^ 63 \<le> i1 \<longrightarrow> sint w1 < 0)
    \<and> Compare (SqlValue_int w1) (SqlValue_int w2)
        = Some (Inr (if (i1 < 2 ^ 63) = (i2 < 2 ^ 63) then int_compare i1 i2 else int_compare i2 i1))"
proof -
  from data_of_int_cell [OF assms(1), of B] obtain w1 where
    w1: "data_of_cell B te (te_datum_to_k2pg te d1) = Some (D_int w1)" "sint w1 = stored_int i1" by blast
  from data_of_int_cell [OF assms(2), of B] obtain w2 where
    w2: "data_of_cell B te (te_datum_to_k2pg te d2) = Some (D_int w2)" "sint w2 = stored_int i2" by blast
  have "SqlValue_of_datum B te d1 False = Some (SqlValue_int w1)" "SqlValue_of_datum B te d2 False = Some (SqlValue_int w2)"
    using int_cell_type [OF assms(1)] w1(1) w2(1) by (simp_all add: SqlValue_of_datum_def SqlValue_int_def)
  moreover have "int_compare (stored_int i1) (stored_int i2)
      = (if (i1 < 2 ^ 63) = (i2 < 2 ^ 63) then int_compare i1 i2 else int_compare i2 i1)"
    using int_cell_range [OF assms(1)] int_cell_range [OF assms(2)]
    by (cases "te_type te = DT_UINT64") (auto simp: stored_int_def int_compare_def three_way_def)
  moreover have "sint w1 = (if i1 < 2 ^ 63 then i1 else i1 - 2 ^ 64)" "2 ^ 63 \<le> i1 \<longrightarrow> sint w1 < 0"
    using w1(2) int_cell_range(1) [OF assms(1)] by (simp_all add: stored_int_def)
  ultimately show ?thesis
    using w1(2) w2(2) by (intro exI [of _ w1] exI [of _ w2] conjI) (simp_all only: Compare_int)
qed

definition uint64_entity :: type_entity where
  "uint64_entity = \<lparr>te_type = DT_UINT64, te_datum_to_k2pg = C_u64\<rparr>"

theorem datum_integer_order_witness:
  "\<exists>w1 w2. SqlValue_of_datum int_bignum uint64_entity (2 ^ 63 + 1) False = Some (SqlValue_int w1)
    \<and> SqlValue_of_datum int_bignum uint64_entity 5 False = Some (SqlValue_int w2)
    \<and> sint w1 < 0 \<and> Compare (SqlValue_int w1) (SqlValue_int w2) = Some (Inr (- 1))"
  using datum_integer_order [of uint64_entity "2 ^ 63 + 1" "2 ^ 63 + 1" 5 5 int_bignum]
  by (auto simp: uint64_entity_def int_cell_def int_compare_def three_way_def)

text \<open>(C32)
  The upper bound of an integer value is its immediate successor in the comparison
  order: it is larger, and no integer value lies strictly between.  It exists for
  every integer but the largest, which is recognised as such.
\<close>
theorem UpperBound_is_successor:
  assumes "w \<noteq> 0x7FFFFFFFFFFFFFFF"
  shows "\<exists>u. UpperBound (SqlValue_int w) = Some (Inr (SqlValue_int u))
    \<and> Compare (SqlValue_int w) (SqlValue_int u) = Some (Inr (-1))
    \<and> (\<forall>x. sint w < sint x \<longrightarrow> sint u \<le> sint x)
    \<and> IsMaxInteger (SqlValue_int w) = Some False \<and> IsMaxInteger (SqlValue_int 0x7FFFFFFFFFFFFFFF) = Some True"
proof -
  have "sint w \<noteq> sint (0x7FFFFFFFFFFFFFFF :: 64 word)" using assms by (metis signed_word_eqI)
  then have "sint w \<noteq> 2 ^ 63 - 1" by simp
  with sint_bounds_63 [of w] have "sint w + 1 < 2 ^ 63" "- (2 ^ 63) \<le> sint w" by simp_all
  then have "sint (w + 1) = sint w + 1"
    using sint_word_ariths(1) [of w 1] by (simp add: signed_take_bit_int_eq_self)
  then show ?thesis
    using assms by (auto simp: UpperBound_def IsMaxInteger_def SqlValue_int_def
        Compare_int [unfolded SqlValue_int_def] int_compare_def three_way_def)
qed

theorem UpperBound_is_successor_witness:
  "\<exists>u. UpperBound (SqlValue_int 41) = Some (Inr (SqlValue_int u))
    \<and> Compare (SqlValue_int 41) (SqlValue_int u) = Some (Inr (-1))"
  using UpperBound_is_successor [of 41] by auto

text \<open>(C19)
  Decimal datums of one column compare as the numbers their texts denote, although the
  values hold bytes and are compared byte by byte.
\<close>
theorem datum_decimal_order:
  assumes B: "bn_laws B" and te: "te_type te = DT_DECIMAL"
    and x: "te_datum_to_k2pg te d1 = C_slice s1" "Decimal_FromString B s1 = Inr x" "length s1 < 2 ^ 31"
    and y: "te_datum_to_k2pg te d2 = C_slice s2" "Decimal_FromString B s2 = Inr y" "length s2 < 2 ^ 31"
  shows "\<exists>v1 v2 c. SqlValue_of_datum B te d1 False = Some v1 \<and> SqlValue_of_datum B te d2 False = Some v2
    \<and> Compare v1 v2 = Some (Inr c) \<and> of_int c = sgn (dec_val x - dec_val y)"
proof -
  have ok: "canonical x" "canonical y" using Decimal_FromString_canonical [OF B] x(2,3) y(2,3) by blast+
  obtain ex ey where e: "Decimal_EncodeToComparable B x = Some ex" "Decimal_EncodeToComparable B y = Some ey"
    using decimal_key.total ok B by meson
  have "SqlValue_of_datum B te d1 False = Some (SqlValue_slice (string_of_bytes ex))"
    "SqlValue_of_datum B te d2 False = Some (SqlValue_slice (string_of_bytes ey))"
    using te x y e by (simp_all add: SqlValue_of_datum_def data_of_cell_def Decimal_of_string_def SqlValue_slice_def)
  moreover have "bytes_less ex ey \<longleftrightarrow> dec_val x < dec_val y" "ex = ey \<longleftrightarrow> dec_val x = dec_val y"
    using decimal_key.row_order [of B x y ex ey "[]" "[]"] decimal_key.same_bytes [of B x y ex ey] canonical_unique [OF B ok] B ok e
    by auto
  ultimately show ?thesis by (auto simp: Compare_slice slice_compare_bytes)
qed

definition decimal_entity :: type_entity where
  "decimal_entity = \<lparr>te_type = DT_DECIMAL, te_datum_to_k2pg = (\<lambda>d. C_slice (if d = 1 then ''-0.5'' else ''12e3''))\<rparr>"

theorem datum_decimal_order_witness:
  "\<exists>v1 v2. SqlValue_of_datum int_bignum decimal_entity 1 False = Some v1
    \<and> SqlValue_of_datum int_bignum decimal_entity 2 False = Some v2 \<and> Compare v1 v2 = Some (Inr (- 1))"
proof -
  let ?x = "\<lparr>digits = [5], exponent = 0, is_positive = False\<rparr>" and ?y = "\<lparr>digits = [1, 2], exponent = 5, is_positive = True\<rparr>"
  have p: "Decimal_FromString int_bignum ''-0.5'' = Inr ?x" "Decimal_FromString int_bignum ''12e3'' = Inr ?y"
    by code_simp+
  have sgn: "sgn (dec_val ?x - dec_val ?y) = - 1" by (simp add: dec_val_def power_int_def power_one_over)
  have "\<exists>v1 v2 c. SqlValue_of_datum int_bignum decimal_entity 1 False = Some v1 \<and> SqlValue_of_datum int_bignum decimal_entity 2 False = Some v2
      \<and> Compare v1 v2 = Some (Inr c) \<and> of_int c = sgn (dec_val ?x - dec_val ?y)"
    by (rule datum_decimal_order [OF int_bignum_laws _ _ p(1) _ _ p(2)]) (simp_all add: decimal_entity_def)
  then show ?thesis unfolding sgn by auto
qed

end
