(* ===== verification/Sql_Schema.thy ===== *)
theory Sql_Schema
  imports Sql_Types
begin

text \<open>
  Table schemas (entities/schema.h, schema.cc): column schemas, schemas with
  their index maps, and the schema builder.  The lemmas relate the maps to the
  column list after a successful reset, characterise when a reset succeeds,
  show what copying keeps, and that the builder keeps its invariant.
\<close>

subsection \<open>Columns\<close>

datatype SortingType = kNotSpecified | kAscending | kDescending | kAscendingNullsLast | kDescendingNullsLast

record ColumnSchema =
  col_name :: string
  col_type :: SQLType
  col_is_nullable :: bool
  col_is_primary :: bool
  col_is_hash :: bool
  col_order :: int
  col_sorting_type :: SortingType

definition col_is_key :: "ColumnSchema \<Rightarrow> bool" where
  "col_is_key c = (col_is_hash c \<or> col_is_primary c)"

definition col_type_info :: "ColumnSchema \<Rightarrow> TypeInfo checked" where
  "col_type_info c = GetTypeInfo (type_id (col_type c))"

fun sorting_type_string :: "SortingType \<Rightarrow> string" where
  "sorting_type_string kNotSpecified = ''none''"
| "sorting_type_string kAscending = ''asc''"
| "sorting_type_string kDescending = ''desc''"
| "sorting_type_string kAscendingNullsLast = ''asc nulls last''"
| "sorting_type_string kDescendingNullsLast = ''desc nulls last''"

definition col_TypeToString :: "ColumnSchema \<Rightarrow> string checked" where
  "col_TypeToString c = do {
     ti \<leftarrow> col_type_info c;
     Some (ti_name ti @ '', '' @ (if col_is_nullable c then ''NULLABLE'' else ''NOT NULL'')
       @ '', '' @ (if col_is_primary c then ''PRIMARY KEY'' else ''NOT A PRIMARY KEY'')
       @ '', '' @ (if col_is_hash c then ''HASH KEY'' else ''NOT A HASH KEY'')
       @ '', '' @ int_to_string (col_order c)) }"

definition col_ToString :: "ColumnSchema \<Rightarrow> string checked" where
  "col_ToString c = do { t \<leftarrow> col_TypeToString c; Some (col_name c @ ''['' @ t @ '']'') }"

definition col_EqualsType :: "ColumnSchema \<Rightarrow> ColumnSchema \<Rightarrow> bool checked" where
  "col_EqualsType c d =
    (if \<not> (col_is_nullable c = col_is_nullable d \<and> col_is_primary c = col_is_primary d
         \<and> col_is_hash c = col_is_hash d \<and> col_sorting_type c = col_sorting_type d) then Some False
     else do { t \<leftarrow> col_type_info c; u \<leftarrow> col_type_info d; Some (ti_type t = ti_type u) })"

definition col_Equals :: "ColumnSchema \<Rightarrow> ColumnSchema \<Rightarrow> bool checked" where
  "col_Equals c d = do { b \<leftarrow> col_EqualsType c d; Some (b \<and> col_name c = col_name d) }"

subsection \<open>Schemas\<close>

text \<open>\<open>max_col_id\<close> is \<^term>\<open>None\<close> while the member is uninitialised.\<close>
record Schema =
  schema_cols :: "ColumnSchema list"
  num_key_columns :: nat
  num_hash_key_columns :: nat
  max_col_id :: "int option"
  col_ids :: "int list"
  col_offsets :: "nat list"
  name_to_index :: "string \<rightharpoonup> nat"
  id_to_index :: "int \<rightharpoonup> nat"
  has_nullables :: bool
  schema_version :: "32 word"

definition empty_schema :: Schema where
  "empty_schema = \<lparr>schema_cols = [], num_key_columns = 0, num_hash_key_columns = 0, max_col_id = None,
     col_ids = [], col_offsets = [], name_to_index = Map.empty, id_to_index = Map.empty,
     has_nullables = False, schema_version = 0\<rparr>"

text \<open>The map that a loop of assignments \<open>m[name] = i++\<close> builds.\<close>
fun index_from :: "nat \<Rightarrow> 'k list \<Rightarrow> ('k \<rightharpoonup> nat) \<Rightarrow> ('k \<rightharpoonup> nat)" where
  "index_from i [] m = m"
| "index_from i (k # ks) m = index_from (Suc i) ks (m(k \<mapsto> i))"

text \<open>The map that a loop of \<open>insert\<close> calls builds: the first entry of a key stays.\<close>
fun insert_from :: "nat \<Rightarrow> 'k list \<Rightarrow> ('k \<rightharpoonup> nat) \<Rightarrow> ('k \<rightharpoonup> nat)" where
  "insert_from i [] m = m"
| "insert_from i (k # ks) m = insert_from (Suc i) ks (if m k = None then m(k \<mapsto> i) else m)"

text \<open>Copying leaves the version and the largest column id of the target alone.\<close>
definition CopyFrom :: "Schema \<Rightarrow> Schema \<Rightarrow> Schema" where
  "CopyFrom other s = s\<lparr>num_key_columns := num_key_columns other,
     num_hash_key_columns := num_hash_key_columns other, schema_cols := schema_cols other, col_ids := col_ids other,
     col_offsets := col_offsets other, id_to_index := id_to_index other,
     name_to_index := index_from 0 (map col_name (schema_cols other)) Map.empty,
     has_nullables := has_nullables other\<rparr>"

definition copy_schema :: "Schema \<Rightarrow> Schema" where
  "copy_schema other = CopyFrom other empty_schema"

definition swap_schema :: "Schema \<Rightarrow> Schema \<Rightarrow> Schema \<times> Schema" where
  "swap_schema s other =
    (s\<lparr>num_key_columns := num_key_columns other, num_hash_key_columns := num_hash_key_columns other,
       schema_cols := schema_cols other, col_ids := col_ids other, col_offsets := col_offsets other,
       name_to_index := name_to_index other, id_to_index := id_to_index other,
       has_nullables := has_nullables other\<rparr>,
     other\<lparr>num_key_columns := num_key_columns s, num_hash_key_columns := num_hash_key_columns s,
       schema_cols := schema_cols s, col_ids := col_ids s, col_offsets := col_offsets s,
       name_to_index := name_to_index s, id_to_index := id_to_index s,
       has_nullables := has_nullables s\<rparr>)"

text \<open>
  The offset loop of a reset: index map and offsets so far; the flag reports a
  duplicate name, where the loop returns.
\<close>
fun offset_loop :: "nat \<Rightarrow> nat \<Rightarrow> ColumnSchema list \<Rightarrow> (string \<rightharpoonup> nat) \<Rightarrow> nat list \<Rightarrow>
    (bool \<times> (string \<rightharpoonup> nat) \<times> nat list \<times> nat) checked" where
  "offset_loop i off [] m offs = Some (False, m, offs, off)"
| "offset_loop i off (c # cs) m offs =
    (if m (col_name c) \<noteq> None then Some (True, m, offs, off)
     else do { ti \<leftarrow> col_type_info c;
               offset_loop (Suc i) (off + ti_size ti) cs (m(col_name c \<mapsto> i)) (offs @ [off]) })"

definition default_sorting :: "nat \<Rightarrow> nat \<Rightarrow> ColumnSchema list \<Rightarrow> ColumnSchema list" where
  "default_sorting lo hi cs = map (\<lambda>(i, c).
     if lo \<le> i \<and> i < hi \<and> col_sorting_type c = kNotSpecified then c\<lparr>col_sorting_type := kAscending\<rparr> else c)
     (enumerate 0 cs)"

text \<open>
  Reset with column ids.  The number of key columns is compared as an unsigned
  number first, so a negative one is rejected there.  The offsets are appended to
  those the object already has.
\<close>
definition Schema_Reset :: "ColumnSchema list \<Rightarrow> int list \<Rightarrow> int \<Rightarrow> Schema \<Rightarrow> (code \<times> Schema) checked" where
  "Schema_Reset cs ids key_columns s =
    (let s1 = s\<lparr>schema_cols := cs, num_key_columns := nat (key_columns mod 2 ^ 64),
                num_hash_key_columns := length (filter col_is_key cs),
                has_nullables := (\<exists>c \<in> set cs. col_is_nullable c)\<rparr> in
     if int (length cs) < key_columns mod 2 ^ 64 then Some (kInvalidArgument, s1)
     else if key_columns < 0 then Some (kInvalidArgument, s1)
     else if ids \<noteq> [] \<and> length ids \<noteq> length cs then Some (kInvalidArgument, s1)
     else if \<exists>c \<in> set (take (nat key_columns) cs). col_is_nullable c then Some (kInvalidArgument, s1)
     else do {
       (dup, m, offs, off) \<leftarrow> offset_loop 0 0 cs Map.empty (col_offsets s1);
       if dup then Some (kInvalidArgument, s1\<lparr>name_to_index := m, col_offsets := offs\<rparr>)
       else Some (kOk, s1\<lparr>name_to_index := m, col_offsets := offs @ [off], col_ids := ids,
              id_to_index := insert_from 0 ids Map.empty,
              max_col_id := Some (foldl (\<lambda>m i. if i > m then i else m) 0 ids),
              schema_cols := default_sorting (num_hash_key_columns s1) (num_key_columns s1) cs\<rparr>) })"

text \<open>The constructors abort when the reset fails.\<close>
definition Schema_make :: "ColumnSchema list \<Rightarrow> int list \<Rightarrow> int \<Rightarrow> Schema checked" where
  "Schema_make cs ids key_columns = do {
     (c, s) \<leftarrow> Schema_Reset cs ids key_columns empty_schema;
     if c = kOk then Some s else None }"

definition num_columns :: "Schema \<Rightarrow> nat" where
  "num_columns s = length (schema_cols s)"

definition num_range_key_columns :: "Schema \<Rightarrow> 64 word" where
  "num_range_key_columns s = of_nat (num_key_columns s) - of_nat (num_hash_key_columns s)"

definition schema_column :: "Schema \<Rightarrow> nat \<Rightarrow> ColumnSchema checked" where
  "schema_column s i = (if i < length (schema_cols s) then Some (schema_cols s ! i) else None)"

definition has_column_ids :: "Schema \<Rightarrow> bool" where
  "has_column_ids s = (col_ids s \<noteq> [])"

definition column_id :: "Schema \<Rightarrow> nat \<Rightarrow> int checked" where
  "column_id s i = (if has_column_ids s \<and> i < length (schema_cols s) \<and> i < length (col_ids s)
     then Some (col_ids s ! i) else None)"

definition kColumnNotFound :: int where "kColumnNotFound = -1"

definition find_column :: "Schema \<Rightarrow> string \<Rightarrow> int" where
  "find_column s n = (case name_to_index s n of None \<Rightarrow> kColumnNotFound | Some i \<Rightarrow> int i)"

definition find_column_by_id :: "Schema \<Rightarrow> int \<Rightarrow> int checked" where
  "find_column_by_id s i = (if schema_cols s = [] \<or> has_column_ids s
     then Some (case id_to_index s i of None \<Rightarrow> kColumnNotFound | Some j \<Rightarrow> int j) else None)"

definition column_by_id :: "Schema \<Rightarrow> int \<Rightarrow> ColumnSchema result checked" where
  "column_by_id s i = do {
     idx \<leftarrow> find_column_by_id s i;
     if idx < 0 then Some (Inl kInvalidArgument) else map_option Inr (schema_column s (nat idx)) }"

definition ColumnIdByName :: "Schema \<Rightarrow> string \<Rightarrow> int result checked" where
  "ColumnIdByName s n =
    (if find_column s n = kColumnNotFound then Some (Inl kNotFound)
     else map_option Inr (column_id s (nat (find_column s n))))"

definition FindColumnIdByName :: "Schema \<Rightarrow> string \<Rightarrow> (bool \<times> int) checked" where
  "FindColumnIdByName s n =
    (if find_column s n = kColumnNotFound then Some (False, -1)
     else map_option (Pair True) (column_id s (nat (find_column s n))))"

text \<open>Membership in the key prefix, by position.\<close>
definition is_key_column_at :: "Schema \<Rightarrow> nat \<Rightarrow> bool" where
  "is_key_column_at s i = (i < num_key_columns s)"
definition is_hash_key_column_at :: "Schema \<Rightarrow> nat \<Rightarrow> bool" where
  "is_hash_key_column_at s i = (i < num_hash_key_columns s)"
definition is_range_column_at :: "Schema \<Rightarrow> nat \<Rightarrow> bool" where
  "is_range_column_at s i = (is_key_column_at s i \<and> \<not> is_hash_key_column_at s i)"

text \<open>
  By column id and by name.  A column id is a plain \<open>int\<close>, and so is the position
  the lookup returns, hence the inner call resolves to the same overload.
\<close>
partial_function (option) is_key_column :: "Schema \<Rightarrow> int \<Rightarrow> bool option" where
  "is_key_column s cid = do { i \<leftarrow> find_column_by_id s cid; is_key_column s i }"

definition is_key_column_by_name :: "Schema \<Rightarrow> string \<Rightarrow> bool option" where
  "is_key_column_by_name s n = is_key_column s (find_column s n)"

partial_function (option) is_hash_key_column :: "Schema \<Rightarrow> int \<Rightarrow> bool option" where
  "is_hash_key_column s cid = do { i \<leftarrow> find_column_by_id s cid; is_hash_key_column s i }"

partial_function (option) is_range_column :: "Schema \<Rightarrow> int \<Rightarrow> bool option" where
  "is_range_column s cid = do { i \<leftarrow> find_column_by_id s cid; is_range_column s i }"

fun Equals_loop :: "ColumnSchema list \<Rightarrow> ColumnSchema list \<Rightarrow> bool checked" where
  "Equals_loop (c # cs) (d # ds) = do { b \<leftarrow> col_Equals c d; if b then Equals_loop cs ds else Some False }"
| "Equals_loop _ _ = Some True"

definition Schema_Equals :: "Schema \<Rightarrow> Schema \<Rightarrow> bool checked" where
  "Schema_Equals s other =
    (if num_key_columns s \<noteq> num_key_columns other then Some False
     else if length (schema_cols s) \<noteq> length (schema_cols other) then Some False
     else Equals_loop (schema_cols s) (schema_cols other))"

fun strings_of :: "Schema \<Rightarrow> nat \<Rightarrow> ColumnSchema list \<Rightarrow> string list checked" where
  "strings_of s i [] = Some []"
| "strings_of s i (c # cs) = do {
     t \<leftarrow> col_ToString c;
     r \<leftarrow> strings_of s (Suc i) cs;
     Some ((if has_column_ids s then int_to_string (col_ids s ! i) @ '':'' @ t else t) # r) }"

fun join_strings :: "string list \<Rightarrow> string" where
  "join_strings [] = []"
| "join_strings [x] = x"
| "join_strings (x # xs) = x @ '','' @ [char_of (10::nat), char_of (9::nat)] @ join_strings xs"

definition Schema_ToString :: "Schema \<Rightarrow> string checked" where
  "Schema_ToString s = do {
     ss \<leftarrow> strings_of s 0 (schema_cols s);
     Some (''Schema ['' @ [char_of (10::nat), char_of (9::nat)] @ join_strings ss) }"

subsection \<open>The builder\<close>

record builder =
  b_next_id :: int
  b_col_ids :: "int list"
  b_cols :: "ColumnSchema list"
  b_col_names :: "string set"
  b_num_key_columns :: nat

definition kFirstColumnId :: int where "kFirstColumnId = 0"

definition builder_Reset :: "builder \<Rightarrow> builder" where
  "builder_Reset b = b\<lparr>b_cols := [], b_col_ids := [], b_col_names := {}, b_num_key_columns := 0,
     b_next_id := kFirstColumnId\<rparr>"

text \<open>Reset from a schema keeps the names the builder already had.\<close>
definition builder_Reset_schema :: "Schema \<Rightarrow> builder \<Rightarrow> builder" where
  "builder_Reset_schema s b =
    (let ids = (if col_ids s = [] then map (\<lambda>i. kFirstColumnId + int i) [0..<length (schema_cols s)] else col_ids s)
     in b\<lparr>b_cols := schema_cols s, b_col_ids := ids, b_num_key_columns := num_key_columns s,
          b_col_names := b_col_names b \<union> set (map col_name (schema_cols s)),
          b_next_id := (if ids = [] then kFirstColumnId else Max (set ids) + 1)\<rparr>)"

text \<open>
  A column id is a 32-bit number in the code; the next id of the model is the number the
  code holds as long as fewer than \<open>2^31\<close> ids have been given out, after which the increment
  of the code has no meaning.
\<close>
definition AddColumn :: "ColumnSchema \<Rightarrow> bool \<Rightarrow> builder \<Rightarrow> code \<times> builder" where
  "AddColumn column is_key b =
    (if col_name column \<in> b_col_names b then (kAlreadyPresent, b)
     else let k = b_num_key_columns b;
              b1 = b\<lparr>b_col_names := insert (col_name column) (b_col_names b)\<rparr>;
              b2 = (if is_key
                    then b1\<lparr>b_cols := insert_at k column (b_cols b),
                            b_col_ids := insert_at k (b_next_id b) (b_col_ids b),
                            b_num_key_columns := k + 1\<rparr>
                    else b1\<lparr>b_cols := b_cols b @ [column], b_col_ids := b_col_ids b @ [b_next_id b]\<rparr>)
          in (kOk, b2\<lparr>b_next_id := b_next_id b + 1\<rparr>))"

definition AddColumn_fields ::
  "string \<Rightarrow> SQLType \<Rightarrow> bool \<Rightarrow> bool \<Rightarrow> int \<Rightarrow> SortingType \<Rightarrow> builder \<Rightarrow> code \<times> builder" where
  "AddColumn_fields n ty is_nullable is_key order sorting =
     AddColumn \<lparr>col_name = n, col_type = ty, col_is_nullable = is_nullable, col_is_primary = is_key,
       col_is_hash = False, col_order = order, col_sorting_type = sorting\<rparr> is_key"

definition AddNullableColumn :: "string \<Rightarrow> SQLType \<Rightarrow> builder \<Rightarrow> code \<times> builder" where
  "AddNullableColumn n ty = AddColumn_fields n ty True False 0 kNotSpecified"

text \<open>Position of the first column with the given name.\<close>
fun position_of :: "string \<Rightarrow> ColumnSchema list \<Rightarrow> nat option" where
  "position_of n [] = None"
| "position_of n (c # cs) = (if n = col_name c then Some 0 else map_option Suc (position_of n cs))"

text \<open>A name in the name set without a column aborts.\<close>
definition RemoveColumn :: "string \<Rightarrow> builder \<Rightarrow> (code \<times> builder) checked" where
  "RemoveColumn n b =
    (if n \<notin> b_col_names b then Some (kNotFound, b)
     else case position_of n (b_cols b) of
       None \<Rightarrow> None
     | Some i \<Rightarrow> Some (kOk, b\<lparr>b_col_names := b_col_names b - {n}, b_cols := delete_at i (b_cols b),
          b_col_ids := delete_at i (b_col_ids b),
          b_num_key_columns := (if i < b_num_key_columns b then b_num_key_columns b - 1 else b_num_key_columns b)\<rparr>))"

definition RenameColumn :: "string \<Rightarrow> string \<Rightarrow> builder \<Rightarrow> (code \<times> builder) checked" where
  "RenameColumn old_name new_name b =
    (if new_name \<in> b_col_names b then Some (kAlreadyPresent, b)
     else if old_name \<notin> b_col_names b then Some (kNotFound, b)
     else case position_of old_name (b_cols b) of
       None \<Rightarrow> None
     | Some i \<Rightarrow> Some (kOk, b\<lparr>b_col_names := insert new_name (b_col_names b - {old_name}),
          b_cols := (b_cols b)[i := (b_cols b ! i)\<lparr>col_name := new_name\<rparr>]\<rparr>))"

definition set_next_column_id :: "int \<Rightarrow> builder \<Rightarrow> builder checked" where
  "set_next_column_id i b = (if i < 0 then None else Some (b\<lparr>b_next_id := i\<rparr>))"

definition Build :: "builder \<Rightarrow> Schema checked" where
  "Build b = Schema_make (b_cols b) (b_col_ids b) (int (b_num_key_columns b))"

definition BuildWithoutIds :: "builder \<Rightarrow> Schema checked" where
  "BuildWithoutIds b = Schema_make (b_cols b) [] (int (b_num_key_columns b))"


subsection \<open>Index maps\<close>

lemma index_from_notin: "k \<notin> set ks \<Longrightarrow> index_from i ks m k = m k"
  by (induction ks arbitrary: i m) auto

lemma index_from_nth: "distinct ks \<Longrightarrow> j < length ks \<Longrightarrow> index_from i ks m (ks ! j) = Some (i + j)"
proof (induction ks arbitrary: i j m)
  case (Cons k ks)
  then show ?case by (cases j) (auto simp: index_from_notin)
qed simp

lemma insert_from_eq: "distinct ks \<Longrightarrow> set ks \<inter> dom m = {} \<Longrightarrow> insert_from i ks m = index_from i ks m"
  by (induction ks arbitrary: i m) (auto simp: domIff)

definition col_size :: "ColumnSchema \<Rightarrow> nat" where
  "col_size c = (case col_type_info c of Some ti \<Rightarrow> ti_size ti | None \<Rightarrow> 0)"

text \<open>Offset of the column at a position: the sizes of the columns before it.\<close>
definition offset_at :: "ColumnSchema list \<Rightarrow> nat \<Rightarrow> nat" where
  "offset_at cs i = sum_list (map col_size (take i cs))"

lemma offset_loop_ok:
  assumes "\<forall>c \<in> set cs. col_type_info c \<noteq> None" "distinct (map col_name cs)" "col_name ` set cs \<inter> dom m = {}"
  shows "offset_loop i off cs m offs =
    Some (False, index_from i (map col_name cs) m, offs @ map (\<lambda>j. off + offset_at cs j) [0..<length cs],
          off + offset_at cs (length cs))"
  using assms
proof (induction cs arbitrary: i off m offs)
  case (Cons c cs)
  from Cons.prems obtain ti where ti: "col_type_info c = Some ti" by auto
  let ?m = "m(col_name c \<mapsto> i)"
  have new: "m (col_name c) = None" and disj: "col_name ` set cs \<inter> dom ?m = {}"
    using Cons.prems by (auto simp: domIff)
  have IH: "offset_loop (Suc i) (off + ti_size ti) cs ?m (offs @ [off]) =
    Some (False, index_from (Suc i) (map col_name cs) ?m,
      (offs @ [off]) @ map (\<lambda>j. off + ti_size ti + offset_at cs j) [0..<length cs],
      off + ti_size ti + offset_at cs (length cs))"
    by (rule Cons.IH [OF _ _ disj]) (use Cons.prems in simp_all)
  have "map (\<lambda>j. off + offset_at (c # cs) j) [0..<length (c # cs)] =
      off # map (\<lambda>j. off + ti_size ti + offset_at cs j) [0..<length cs]"
    unfolding length_Cons map_upt_Suc by (simp add: offset_at_def col_size_def ti add.assoc)
  moreover have "offset_at (c # cs) (length (c # cs)) = ti_size ti + offset_at cs (length cs)"
    by (simp add: offset_at_def col_size_def ti)
  ultimately show ?case by (simp add: ti new IH del: upt_Suc)
qed (simp add: offset_at_def)

lemma offset_loop_dup:
  assumes "\<forall>c \<in> set cs. col_type_info c \<noteq> None"
    "\<not> (distinct (map col_name cs) \<and> col_name ` set cs \<inter> dom m = {})"
  shows "\<exists>m' offs' off'. offset_loop i off cs m offs = Some (True, m', offs', off')"
  using assms
proof (induction cs arbitrary: i off m offs)
  case (Cons c cs)
  from Cons.prems obtain ti where ti: "col_type_info c = Some ti" by auto
  show ?case
  proof (cases "m (col_name c)")
    case None
    let ?m = "m(col_name c \<mapsto> i)"
    have nd: "\<not> (distinct (map col_name cs) \<and> col_name ` set cs \<inter> dom ?m = {})"
      using Cons.prems(2) None by (auto simp: domIff)
    have "\<exists>m' offs' off'. offset_loop (Suc i) (off + ti_size ti) cs ?m (offs @ [off]) = Some (True, m', offs', off')"
      by (rule Cons.IH [OF _ nd]) (use Cons.prems(1) in simp)
    with None show ?thesis by (simp add: ti)
  qed simp
qed simp

subsection \<open>Reset\<close>

definition reset_accepts :: "ColumnSchema list \<Rightarrow> int list \<Rightarrow> int \<Rightarrow> bool" where
  "reset_accepts cs ids k = (0 \<le> k \<and> k \<le> int (length cs) \<and> (ids = [] \<or> length ids = length cs)
     \<and> (\<forall>c \<in> set (take (nat k) cs). \<not> col_is_nullable c) \<and> distinct (map col_name cs))"

lemma unsigned_key_count:
  assumes "- (2 ^ 31) \<le> k" "k < (2 ^ 31 :: int)" "n < 2 ^ 63"
  shows "int n < k mod 2 ^ 64 \<longleftrightarrow> int n < k \<or> k < 0"
proof (cases "k < 0")
  case True
  have "(k + 2 ^ 64) mod 2 ^ 64 = k + 2 ^ 64"
    using assms True by (intro mod_pos_pos_trivial) auto
  then have "k mod 2 ^ 64 = k + 2 ^ 64" by simp
  with True assms show ?thesis by simp
next
  case False
  with assms have "k mod 2 ^ 64 = k" by (intro mod_pos_pos_trivial) auto
  with False show ?thesis by simp
qed

lemma default_sorting_names [simp]: "map col_name (default_sorting lo hi cs) = map col_name cs"
  by (rule nth_equalityI) (simp_all add: default_sorting_def nth_enumerate_eq split: if_splits)

lemma length_default_sorting [simp]: "length (default_sorting lo hi cs) = length cs"
  by (simp add: default_sorting_def)

lemma Schema_Reset_cases:
  assumes types: "\<forall>c \<in> set cs. col_type_info c \<noteq> None"
    and bounds: "- (2 ^ 31) \<le> k" "k < 2 ^ 31" "length cs < 2 ^ 63"
  shows "\<exists>c s'. Schema_Reset cs ids k s = Some (c, s') \<and> (c = kOk \<longleftrightarrow> reset_accepts cs ids k)
     \<and> c \<in> {kOk, kInvalidArgument}"
proof (cases "reset_accepts cs ids k")
  case True
  then have acc: "0 \<le> k" "k \<le> int (length cs)" "ids = [] \<or> length ids = length cs"
      "\<forall>c \<in> set (take (nat k) cs). \<not> col_is_nullable c" "distinct (map col_name cs)"
    by (simp_all add: reset_accepts_def)
  have "\<not> int (length cs) < k mod 2 ^ 64" using unsigned_key_count [OF bounds] acc by simp
  with True acc show ?thesis
    using offset_loop_ok [OF types acc(5), of Map.empty 0 0 "col_offsets s"]
    by (auto simp: Schema_Reset_def Let_def)
next
  case False
  show ?thesis
  proof (cases "distinct (map col_name cs)")
    case True
    with False unsigned_key_count [OF bounds] show ?thesis by (auto simp: Schema_Reset_def reset_accepts_def Let_def)
  next
    case dup: False
    then obtain m offs off where "offset_loop 0 0 cs Map.empty (col_offsets s) = Some (True, m, offs, off)"
      using offset_loop_dup [OF types, of Map.empty 0 0 "col_offsets s"] by auto
    with False show ?thesis by (auto simp: Schema_Reset_def Let_def)
  qed
qed

lemma Schema_Reset_result:
  assumes types: "\<forall>c \<in> set cs. col_type_info c \<noteq> None"
    and bounds: "- (2 ^ 31) \<le> k" "k < 2 ^ 31" "length cs < 2 ^ 63"
    and acc: "reset_accepts cs ids k"
  shows "Schema_Reset cs ids k s = Some (kOk, s\<lparr>
      schema_cols := default_sorting (length (filter col_is_key cs)) (nat k) cs,
      num_key_columns := nat k, num_hash_key_columns := length (filter col_is_key cs),
      has_nullables := (\<exists>c \<in> set cs. col_is_nullable c),
      name_to_index := index_from 0 (map col_name cs) Map.empty,
      col_offsets := col_offsets s @ map (offset_at cs) [0..<Suc (length cs)],
      col_ids := ids, id_to_index := insert_from 0 ids Map.empty,
      max_col_id := Some (foldl (\<lambda>m i. if i > m then i else m) 0 ids)\<rparr>)"
proof -
  from acc have a: "0 \<le> k" "k \<le> int (length cs)" "ids = [] \<or> length ids = length cs"
      "\<forall>c \<in> set (take (nat k) cs). \<not> col_is_nullable c" "distinct (map col_name cs)"
    by (simp_all add: reset_accepts_def)
  have "\<not> int (length cs) < k mod 2 ^ 64" using unsigned_key_count [OF bounds] a by simp
  moreover have "k mod 2 ^ 64 = k" using a(1) bounds(2) by (intro mod_pos_pos_trivial) auto
  ultimately show ?thesis
    using a offset_loop_ok [OF types a(5), of Map.empty 0 0 "col_offsets s"]
    by (simp add: Schema_Reset_def Let_def)
qed

text \<open>Interface of a schema's lookups, as the table and index components use them.\<close>
locale schema_lookup =
  fixes names :: "'s \<Rightarrow> string list"
    and ids :: "'s \<Rightarrow> int list"
    and by_name :: "'s \<Rightarrow> string \<Rightarrow> int"
    and by_id :: "'s \<Rightarrow> int \<Rightarrow> int checked"
    and ok :: "'s \<Rightarrow> bool"
  assumes names_distinct: "ok s \<Longrightarrow> distinct (names s)"
    and ids_distinct: "ok s \<Longrightarrow> distinct (ids s)"
    and ids_length: "ok s \<Longrightarrow> length (ids s) = length (names s)"
    and by_name_nth: "ok s \<Longrightarrow> i < length (names s) \<Longrightarrow> by_name s (names s ! i) = int i"
    and by_name_other: "ok s \<Longrightarrow> n \<notin> set (names s) \<Longrightarrow> by_name s n = kColumnNotFound"
    and by_id_nth: "ok s \<Longrightarrow> i < length (ids s) \<Longrightarrow> by_id s (ids s ! i) = Some (int i)"
    and by_id_other: "ok s \<Longrightarrow> j \<notin> set (ids s) \<Longrightarrow> by_id s j = Some kColumnNotFound"
begin

text \<open>A column found by its name is the one found by its id.\<close>
lemma name_id_agree: "ok s \<Longrightarrow> n \<in> set (names s) \<Longrightarrow> by_id s (ids s ! nat (by_name s n)) = Some (by_name s n)"
  by (auto simp: in_set_conv_nth by_name_nth by_id_nth ids_length)

lemma found_iff: "ok s \<Longrightarrow> by_name s n = kColumnNotFound \<longleftrightarrow> n \<notin> set (names s)"
  using by_name_nth by_name_other by (fastforce simp: in_set_conv_nth kColumnNotFound_def)

end

text \<open>What a successful reset with distinct ids establishes.\<close>
definition schema_ok :: "Schema \<Rightarrow> bool" where
  "schema_ok s = (let n = length (schema_cols s) in
     distinct (map col_name (schema_cols s)) \<and> distinct (col_ids s) \<and> length (col_ids s) = n
     \<and> name_to_index s = index_from 0 (map col_name (schema_cols s)) Map.empty
     \<and> id_to_index s = index_from 0 (col_ids s) Map.empty
     \<and> num_key_columns s \<le> n \<and> (\<forall>c \<in> set (take (num_key_columns s) (schema_cols s)). \<not> col_is_nullable c)
     \<and> (has_nullables s \<longleftrightarrow> (\<exists>c \<in> set (schema_cols s). col_is_nullable c)))"

interpretation schema_names: schema_lookup "\<lambda>s. map col_name (schema_cols s)" col_ids find_column find_column_by_id schema_ok
proof unfold_locales
  fix s :: Schema and i n j
  assume ok: "schema_ok s"
  show "distinct (map col_name (schema_cols s))" "distinct (col_ids s)"
      "length (col_ids s) = length (map col_name (schema_cols s))"
    using ok by (simp_all add: schema_ok_def Let_def)
  show "find_column s (map col_name (schema_cols s) ! i) = int i" if "i < length (map col_name (schema_cols s))"
    using ok that index_from_nth [of "map col_name (schema_cols s)" i 0 Map.empty]
    by (simp add: schema_ok_def Let_def find_column_def)
  show "find_column s n = kColumnNotFound" if "n \<notin> set (map col_name (schema_cols s))"
    using ok index_from_notin [OF that, of 0 Map.empty] by (simp add: schema_ok_def Let_def find_column_def)
  show "find_column_by_id s (col_ids s ! i) = Some (int i)" if "i < length (col_ids s)"
    using ok that index_from_nth [of "col_ids s" i 0 Map.empty]
    by (auto simp: schema_ok_def Let_def find_column_by_id_def has_column_ids_def)
  show "find_column_by_id s j = Some kColumnNotFound" if "j \<notin> set (col_ids s)"
    using ok index_from_notin [OF that, of 0 Map.empty]
    by (auto simp: schema_ok_def Let_def find_column_by_id_def has_column_ids_def)
qed

lemma default_sorting_nullable [simp]:
  "map col_is_nullable (default_sorting lo hi cs) = map col_is_nullable cs"
  by (rule nth_equalityI) (simp_all add: default_sorting_def nth_enumerate_eq split: if_splits)

lemma nullable_in_default_sorting:
  "(\<exists>c \<in> set (take k (default_sorting lo hi cs)). col_is_nullable c) \<longleftrightarrow> (\<exists>c \<in> set (take k cs). col_is_nullable c)"
proof -
  have "map col_is_nullable (take k (default_sorting lo hi cs)) = map col_is_nullable (take k cs)"
    by (simp add: take_map [symmetric])
  then have "True \<in> set (map col_is_nullable (take k (default_sorting lo hi cs))) \<longleftrightarrow>
      True \<in> set (map col_is_nullable (take k cs))" by simp
  then show ?thesis by (auto simp: image_iff)
qed

lemma Schema_Reset_establishes:
  assumes "\<forall>c \<in> set cs. col_type_info c \<noteq> None" "- (2 ^ 31) \<le> k" "k < 2 ^ 31" "length cs < 2 ^ 63"
    and acc: "reset_accepts cs ids k" and ids: "distinct ids" "length ids = length cs"
  shows "\<exists>s'. Schema_Reset cs ids k s = Some (kOk, s') \<and> schema_ok s'
    \<and> map col_name (schema_cols s') = map col_name cs \<and> col_ids s' = ids \<and> num_key_columns s' = nat k
    \<and> col_offsets s' = col_offsets s @ map (offset_at cs) [0..<Suc (length cs)]
    \<and> schema_version s' = schema_version s"
  using acc ids nullable_in_default_sorting [of "nat k" "length (filter col_is_key cs)" "nat k" cs]
    nullable_in_default_sorting [of "length cs" "length (filter col_is_key cs)" "nat k" cs]
  by (auto simp: Schema_Reset_result [OF assms(1-5)] schema_ok_def Let_def insert_from_eq reset_accepts_def)


subsection \<open>Builder invariant\<close>

definition builder_ok :: "builder \<Rightarrow> bool" where
  "builder_ok b = (length (b_col_ids b) = length (b_cols b) \<and> distinct (map col_name (b_cols b))
     \<and> b_col_names b = set (map col_name (b_cols b)) \<and> distinct (b_col_ids b)
     \<and> (\<forall>i \<in> set (b_col_ids b). i < b_next_id b) \<and> b_num_key_columns b \<le> length (b_cols b))"

lemma builder_ok_Reset [inv_intros]: "builder_ok (builder_Reset b)"
  by (simp add: builder_ok_def builder_Reset_def)

lemma builder_ok_AddColumn [inv_intros]: "builder_ok b \<Longrightarrow> builder_ok (snd (AddColumn c is_key b))"
  by (auto simp: builder_ok_def AddColumn_def Let_def map_insert_at)

lemma position_of_Some:
  "position_of n cs = Some i \<Longrightarrow> i < length cs \<and> col_name (cs ! i) = n"
  by (induction cs arbitrary: i) (auto split: if_splits)

lemma position_of_None: "position_of n cs = None \<longleftrightarrow> n \<notin> set (map col_name cs)"
  by (induction cs) auto

lemma builder_ok_RemoveColumn [inv_intros]:
  assumes "builder_ok b"
  shows "\<exists>c b'. RemoveColumn n b = Some (c, b') \<and> builder_ok b' \<and> (c = kOk \<longleftrightarrow> n \<in> b_col_names b)"
proof (cases "n \<in> b_col_names b")
  case True
  with assms obtain i where i: "position_of n (b_cols b) = Some i"
    by (metis builder_ok_def option.exhaust position_of_None)
  from position_of_Some [OF i] have pos: "i < length (b_cols b)" "map col_name (b_cols b) ! i = n" by simp_all
  have names: "set (map col_name (delete_at i (b_cols b))) = b_col_names b - {n}"
    unfolding map_delete_at using assms pos by (subst set_delete_at) (simp_all add: builder_ok_def)
  have ids: "\<forall>j \<in> set (delete_at i (b_col_ids b)). j < b_next_id b"
    using set_delete_at_subset [of i "b_col_ids b"] assms by (auto simp: builder_ok_def)
  let ?b = "b\<lparr>b_col_names := b_col_names b - {n}, b_cols := delete_at i (b_cols b),
    b_col_ids := delete_at i (b_col_ids b),
    b_num_key_columns := (if i < b_num_key_columns b then b_num_key_columns b - 1 else b_num_key_columns b)\<rparr>"
  have "RemoveColumn n b = Some (kOk, ?b)" using True i by (simp add: RemoveColumn_def)
  moreover have "builder_ok ?b"
    using assms pos(1) names ids
    by (simp add: builder_ok_def length_delete_at map_delete_at distinct_delete_at) linarith
  ultimately show ?thesis using True by blast
qed (use assms in \<open>simp add: RemoveColumn_def\<close>)

lemma builder_ok_RenameColumn [inv_intros]:
  assumes "builder_ok b"
  shows "\<exists>c b'. RenameColumn old new b = Some (c, b') \<and> builder_ok b'
    \<and> (c = kOk \<longleftrightarrow> old \<in> b_col_names b \<and> new \<notin> b_col_names b)"
proof (cases "new \<notin> b_col_names b \<and> old \<in> b_col_names b")
  case True
  with assms obtain i where i: "position_of old (b_cols b) = Some i"
    by (metis builder_ok_def option.exhaust position_of_None)
  from position_of_Some [OF i] have pos: "i < length (b_cols b)" "map col_name (b_cols b) ! i = old" by simp_all
  let ?ns = "map col_name (b_cols b)"
  let ?b = "b\<lparr>b_col_names := insert new (b_col_names b - {old}),
    b_cols := (b_cols b)[i := (b_cols b ! i)\<lparr>col_name := new\<rparr>]\<rparr>"
  have ns: "map col_name (b_cols ?b) = ?ns[i := new]" by (simp add: map_update)
  have d: "distinct ?ns" "set ?ns = b_col_names b" using assms by (simp_all add: builder_ok_def)
  have "new \<notin> set ?ns" using True d(2) by blast
  then have dist: "distinct (?ns[i := new])" using d(1) by (intro distinct_list_update) auto
  have names: "set (?ns[i := new]) = insert new (b_col_names b - {old})"
    using set_update_distinct [OF d(1), of i new] pos d(2) by (simp del: set_map)
  have "builder_ok ?b"
    using assms dist names unfolding builder_ok_def ns by (simp del: set_map)
  moreover have "RenameColumn old new b = Some (kOk, ?b)" using True i by (simp add: RenameColumn_def)
  ultimately show ?thesis using True by blast
qed (use assms in \<open>auto simp: RenameColumn_def\<close>)


text \<open>Builders reachable from an empty one; a failed call leaves the builder usable.\<close>
inductive built :: "builder \<Rightarrow> bool" where
  built_new: "built (builder_Reset b)"
| built_add: "built b \<Longrightarrow> built (snd (AddColumn c is_key b))"
| built_remove: "built b \<Longrightarrow> RemoveColumn n b = Some (c, b') \<Longrightarrow> built b'"
| built_rename: "built b \<Longrightarrow> RenameColumn old new b = Some (c, b') \<Longrightarrow> built b'"

lemma built_ok: "built b \<Longrightarrow> builder_ok b"
proof (induction rule: built.induct)
  case (built_remove b n c b')
  then show ?case using builder_ok_RemoveColumn [of b n] by auto
next
  case (built_rename b old new c b')
  then show ?case using builder_ok_RenameColumn [of b old new] by auto
qed (auto intro: inv_intros)

lemma is_key_column_diverges: "is_key_column s i = Some b \<Longrightarrow> False"
  by (rule is_key_column.raw_induct [where P = "\<lambda>s i b. False"])
    (auto split: Option.bind_splits)

lemma default_sorting_empty: "hi \<le> lo \<Longrightarrow> default_sorting lo hi cs = cs"
  by (rule nth_equalityI) (simp_all add: default_sorting_def nth_enumerate_eq)

subsection \<open>Properties\<close>

definition example_column :: "string \<Rightarrow> bool \<Rightarrow> ColumnSchema" where
  "example_column n key = \<lparr>col_name = n, col_type = SQLType DT_INT64 [], col_is_nullable = \<not> key,
     col_is_primary = key, col_is_hash = False, col_order = 1, col_sorting_type = kNotSpecified\<rparr>"

lemma example_type_info [simp]: "col_type_info (example_column n key) =
    Some \<lparr>ti_type = DT_INT64, ti_physical = DT_INT64, ti_name = ''int64'', ti_size = 8\<rparr>"
  by (simp add: col_type_info_def example_column_def GetTypeInfo_def type_traits_def)

lemma example_column_fields [simp]:
  "col_name (example_column n key) = n" "col_is_nullable (example_column n key) \<longleftrightarrow> \<not> key"
  "col_is_key (example_column n key) = key" "col_sorting_type (example_column n key) = kNotSpecified"
  by (simp_all add: example_column_def col_is_key_def)

text \<open>(C26)
  When a schema reset is accepted: exactly for a number of key columns between zero
  and the number of columns, ids that are absent or as many as the columns, key
  columns that are not nullable, and distinct names.  Every other input is an
  invalid argument, and the reset never aborts on columns of registered types.
\<close>
theorem schema_reset_accepts_exactly:
  assumes "\<forall>c \<in> set cs. col_type_info c \<noteq> None" "- (2 ^ 31) \<le> k" "k < 2 ^ 31" "length cs < 2 ^ 63"
  shows "\<exists>c s'. Schema_Reset cs ids k s = Some (c, s')
    \<and> (c = kOk \<longleftrightarrow> 0 \<le> k \<and> k \<le> int (length cs) \<and> (ids = [] \<or> length ids = length cs)
        \<and> (\<forall>x \<in> set (take (nat k) cs). \<not> col_is_nullable x) \<and> distinct (map col_name cs))
    \<and> c \<in> {kOk, kInvalidArgument}"
  using Schema_Reset_cases [OF assms] by (simp add: reset_accepts_def)

theorem schema_reset_accepts_exactly_witness:
  "\<exists>c s'. Schema_Reset [example_column ''k'' True, example_column ''v'' False] [3, 9] (-1) empty_schema = Some (c, s')
    \<and> c = kInvalidArgument"
  using schema_reset_accepts_exactly
    [of "[example_column ''k'' True, example_column ''v'' False]" "-1" "[3, 9]" empty_schema]
  by auto

text \<open>(C23)
  After an accepted reset with distinct ids every column is found at its position by
  its name and by its id, its id is the one given, an unknown name is reported as
  not found, and the offsets are the running sizes, appended to what the object had.
\<close>
theorem schema_reset_lookups:
  assumes "\<forall>c \<in> set cs. col_type_info c \<noteq> None" "- (2 ^ 31) \<le> k" "k < 2 ^ 31" "length cs < 2 ^ 63"
    "reset_accepts cs ids k" "distinct ids" "length ids = length cs"
  shows "\<exists>s'. Schema_Reset cs ids k s = Some (kOk, s')
    \<and> (\<forall>i < length cs. find_column s' (col_name (cs ! i)) = int i
         \<and> find_column_by_id s' (ids ! i) = Some (int i)
         \<and> ColumnIdByName s' (col_name (cs ! i)) = Some (Inr (ids ! i)))
    \<and> (\<forall>n. n \<notin> col_name ` set cs \<longrightarrow> ColumnIdByName s' n = Some (Inl kNotFound))
    \<and> col_offsets s' = col_offsets s @ map (offset_at cs) [0..<Suc (length cs)]"
proof -
  from Schema_Reset_establishes [OF assms] obtain s' where
    s': "Schema_Reset cs ids k s = Some (kOk, s')" "schema_ok s'"
      "map col_name (schema_cols s') = map col_name cs" "col_ids s' = ids"
      "col_offsets s' = col_offsets s @ map (offset_at cs) [0..<Suc (length cs)]" by blast
  have len: "length (schema_cols s') = length cs" using arg_cong [OF s'(3), of length] by simp
  have name: "find_column s' (col_name (cs ! i)) = int i" if "i < length cs" for i
    using schema_names.by_name_nth [OF s'(2), of i] that len s'(3) by (metis length_map nth_map)
  have cid: "find_column_by_id s' (ids ! i) = Some (int i)" if "i < length cs" for i
    using schema_names.by_id_nth [OF s'(2), of i] that assms(7) s'(4) by simp
  have missing: "ColumnIdByName s' n = Some (Inl kNotFound)" if "n \<notin> col_name ` set cs" for n
    using schema_names.found_iff [OF s'(2), of n] that arg_cong [OF s'(3), of set] by (simp add: ColumnIdByName_def)
  have "ColumnIdByName s' (col_name (cs ! i)) = Some (Inr (ids ! i))" if "i < length cs" for i
    using name [OF that] that assms(7) s'(4) len
    by (auto simp: ColumnIdByName_def column_id_def has_column_ids_def kColumnNotFound_def)
  with s'(1,5) name cid missing show ?thesis by blast
qed

theorem schema_reset_lookups_witness:
  "\<exists>s'. Schema_Reset [example_column ''k'' True, example_column ''v'' False] [3, 9] 1 empty_schema = Some (kOk, s')
    \<and> find_column s' ''v'' = 1 \<and> ColumnIdByName s' ''v'' = Some (Inr 9) \<and> ColumnIdByName s' ''w'' = Some (Inl kNotFound)"
proof -
  let ?cs = "[example_column ''k'' True, example_column ''v'' False]"
  have acc: "reset_accepts ?cs [3, 9] 1" by (simp add: reset_accepts_def)
  have "\<exists>s'. Schema_Reset ?cs [3, 9] 1 empty_schema = Some (kOk, s')
    \<and> (\<forall>i < length ?cs. find_column s' (col_name (?cs ! i)) = int i
         \<and> find_column_by_id s' ([3, 9] ! i) = Some (int i)
         \<and> ColumnIdByName s' (col_name (?cs ! i)) = Some (Inr ([3, 9] ! i)))
    \<and> (\<forall>n. n \<notin> col_name ` set ?cs \<longrightarrow> ColumnIdByName s' n = Some (Inl kNotFound))
    \<and> col_offsets s' = col_offsets empty_schema @ map (offset_at ?cs) [0..<Suc (length ?cs)]"
    by (rule schema_reset_lookups [OF _ _ _ _ acc]) simp_all
  then obtain s' where "Schema_Reset ?cs [3, 9] 1 empty_schema = Some (kOk, s')"
    and f: "\<And>i. i < length ?cs \<Longrightarrow> find_column s' (col_name (?cs ! i)) = int i
         \<and> ColumnIdByName s' (col_name (?cs ! i)) = Some (Inr ([3, 9] ! i))"
    and "\<And>n. n \<notin> col_name ` set ?cs \<Longrightarrow> ColumnIdByName s' n = Some (Inl kNotFound)" by blast
  with f [of 1] show ?thesis by (intro exI [of _ s']) simp
qed

text \<open>(C20)
  Whatever sequence of additions, removals and renamings built it, a builder with
  non-nullable key columns and all columns of registered types, fewer than \<open>2^31\<close> of them,
  builds a schema with columns of its names, in its order, with its ids and its number of
  key columns, in which all lookups agree; building never aborts.
\<close>
theorem built_schema_ok:
  assumes "built b" "\<forall>c \<in> set (b_cols b). col_type_info c \<noteq> None" "length (b_cols b) < 2 ^ 31"
    "\<forall>c \<in> set (take (b_num_key_columns b) (b_cols b)). \<not> col_is_nullable c"
  shows "\<exists>s. Build b = Some s \<and> schema_ok s \<and> map col_name (schema_cols s) = map col_name (b_cols b)
    \<and> col_ids s = b_col_ids b \<and> num_key_columns s = b_num_key_columns b"
proof -
  have ok: "builder_ok b" using assms(1) by (rule built_ok)
  then have acc: "reset_accepts (b_cols b) (b_col_ids b) (int (b_num_key_columns b))"
    using assms(4) by (simp add: reset_accepts_def builder_ok_def)
  show ?thesis
    using Schema_Reset_establishes [OF assms(2) _ _ _ acc, of empty_schema] ok assms(3)
    by (auto simp: Build_def Schema_make_def builder_ok_def)
qed

theorem built_schema_ok_witness:
  "\<exists>s. Build (snd (AddColumn (example_column ''k'' True) True
         (snd (AddColumn (example_column ''v'' False) False
           (builder_Reset \<lparr>b_next_id = 0, b_col_ids = [], b_cols = [], b_col_names = {}, b_num_key_columns = 0\<rparr>)))))
       = Some s \<and> col_ids s = [1, 0] \<and> map col_name (schema_cols s) = [''k'', ''v'']"
proof -
  let ?b = "snd (AddColumn (example_column ''k'' True) True (snd (AddColumn (example_column ''v'' False) False
      (builder_Reset \<lparr>b_next_id = 0, b_col_ids = [], b_cols = [], b_col_names = {}, b_num_key_columns = 0\<rparr>))))"
  have b: "b_cols ?b = [example_column ''k'' True, example_column ''v'' False]" "b_col_ids ?b = [1, 0]"
      "b_num_key_columns ?b = 1"
    by (simp_all add: AddColumn_def builder_Reset_def example_column_def kFirstColumnId_def insert_at_def)
  have "built ?b" by (intro built.intros)
  from built_schema_ok [OF this] b show ?thesis
    by auto
qed

text \<open>
  Asking whether a column is a key by its id or by its name never returns.
\<close>
theorem is_key_column_never_returns:
  "is_key_column s i = None \<and> is_key_column_by_name s n = None"
proof -
  have "is_key_column s j = None" for j
    using is_key_column_diverges by (cases "is_key_column s j") auto
  then show ?thesis by (simp add: is_key_column_by_name_def)
qed

text \<open>
  A copy of a schema has its columns, ids and lookups, but not its version: the copy
  always has version zero, and its largest column id is uninitialised.
\<close>
theorem copy_drops_version:
  assumes "schema_ok s"
  shows "schema_ok (copy_schema s) \<and> schema_cols (copy_schema s) = schema_cols s
    \<and> col_ids (copy_schema s) = col_ids s \<and> (\<forall>n. find_column (copy_schema s) n = find_column s n)
    \<and> (\<forall>i. find_column_by_id (copy_schema s) i = find_column_by_id s i)
    \<and> schema_version (copy_schema s) = 0 \<and> max_col_id (copy_schema s) = None"
  using assms
  by (simp add: copy_schema_def CopyFrom_def schema_ok_def empty_schema_def find_column_def find_column_by_id_def
      has_column_ids_def Let_def)

theorem copy_drops_version_witness:
  "schema_version (empty_schema\<lparr>schema_version := 7\<rparr>) = 7
   \<and> schema_version (copy_schema (empty_schema\<lparr>schema_version := 7\<rparr>)) = 0"
  using copy_drops_version [of "empty_schema\<lparr>schema_version := 7\<rparr>"]
  by (simp add: schema_ok_def empty_schema_def)

text \<open>
  The default ascending order is never given to a key column when the columns marked
  as key are at least as many as the key prefix: the reset counts key columns where
  it means hash columns, so no range column is left to default.
\<close>
theorem reset_keeps_unspecified_sorting:
  assumes "Schema_Reset cs ids k s = Some (kOk, s')" "0 \<le> k" "k < 2 ^ 64" "nat k \<le> length (filter col_is_key cs)"
  shows "schema_cols s' = cs \<and> num_hash_key_columns s' = length (filter col_is_key cs)"
proof -
  have "k mod 2 ^ 64 = k" using assms(2,3) by (intro mod_pos_pos_trivial) auto
  then show ?thesis
    using assms by (auto simp: Schema_Reset_def Let_def default_sorting_empty bind_eq_Some_conv split: if_splits)
qed

theorem reset_keeps_unspecified_sorting_witness:
  "\<exists>s'. Schema_Reset [example_column ''k'' True] [0] 1 empty_schema = Some (kOk, s')
    \<and> map col_sorting_type (schema_cols s') = [kNotSpecified]"
proof -
  have acc: "reset_accepts [example_column ''k'' True] [0] 1" by (simp add: reset_accepts_def)
  have "\<exists>s'. Schema_Reset [example_column ''k'' True] [0] 1 empty_schema = Some (kOk, s')"
    by (subst Schema_Reset_result [OF _ _ _ _ acc]) simp_all
  then obtain s' where s': "Schema_Reset [example_column ''k'' True] [0] 1 empty_schema = Some (kOk, s')" ..
  from reset_keeps_unspecified_sorting [OF s'] s' show ?thesis by auto
qed

end
