(* ===== verification/Pg_Expr.thy ===== *)
theory Pg_Expr
  imports Sql_Values Entity_Ids
begin

text \<open>
  Expressions (entities/expr.h, expr.cc) and the part of the gate that builds them
  (pggate/pg_gate_impl.cc, lines 731 to 819).  The class hierarchy of \<open>PgExpr\<close> is a
  datatype with one constructor per concrete class; the argument vector of an
  operator, which holds pointers in the code, is the list of the expressions they
  point to.
\<close>

subsection \<open>Opcodes\<close>

datatype Opcode =
    PG_EXPR_CONSTANT | PG_EXPR_COLREF
  | PG_EXPR_NOT | PG_EXPR_EQ | PG_EXPR_NE | PG_EXPR_GE | PG_EXPR_GT | PG_EXPR_LE | PG_EXPR_LT
  | PG_EXPR_EXISTS
  | PG_EXPR_AND | PG_EXPR_OR | PG_EXPR_IN | PG_EXPR_BETWEEN
  | PG_EXPR_AVG | PG_EXPR_SUM | PG_EXPR_COUNT | PG_EXPR_MAX | PG_EXPR_MIN
  | PG_EXPR_EVAL_EXPR_CALL

fun Opcode_print :: "Opcode \<Rightarrow> string" where
  "Opcode_print PG_EXPR_CONSTANT = ''PG_EXPR_CONSTANT''"
| "Opcode_print PG_EXPR_COLREF = ''PG_EXPR_COLREF''"
| "Opcode_print PG_EXPR_NOT = ''PG_EXPR_NOT''"
| "Opcode_print PG_EXPR_EQ = ''PG_EXPR_EQ''"
| "Opcode_print PG_EXPR_NE = ''PG_EXPR_NE''"
| "Opcode_print PG_EXPR_GE = ''PG_EXPR_GE''"
| "Opcode_print PG_EXPR_GT = ''PG_EXPR_GT''"
| "Opcode_print PG_EXPR_LE = ''PG_EXPR_LE''"
| "Opcode_print PG_EXPR_LT = ''PG_EXPR_LT''"
| "Opcode_print PG_EXPR_EXISTS = ''PG_EXPR_EXISTS''"
| "Opcode_print PG_EXPR_AND = ''PG_EXPR_AND''"
| "Opcode_print PG_EXPR_OR = ''PG_EXPR_OR''"
| "Opcode_print PG_EXPR_IN = ''PG_EXPR_IN''"
| "Opcode_print PG_EXPR_BETWEEN = ''PG_EXPR_BETWEEN''"
| "Opcode_print PG_EXPR_AVG = ''PG_EXPR_AVG''"
| "Opcode_print PG_EXPR_SUM = ''PG_EXPR_SUM''"
| "Opcode_print PG_EXPR_COUNT = ''PG_EXPR_COUNT''"
| "Opcode_print PG_EXPR_MAX = ''PG_EXPR_MAX''"
| "Opcode_print PG_EXPR_MIN = ''PG_EXPR_MIN''"
| "Opcode_print PG_EXPR_EVAL_EXPR_CALL = ''PG_EXPR_EVAL_EXPR_CALL''"

definition kOperatorNames :: "string \<rightharpoonup> Opcode" where
  "kOperatorNames = map_of [
     (''!'', PG_EXPR_NOT), (''not'', PG_EXPR_NOT), (''='', PG_EXPR_EQ),
     (''<>'', PG_EXPR_NE), (''!='', PG_EXPR_NE),
     (''>'', PG_EXPR_GT), (''>='', PG_EXPR_GE), (''<'', PG_EXPR_LT), (''<='', PG_EXPR_LE),
     (''and'', PG_EXPR_AND), (''or'', PG_EXPR_OR), (''in'', PG_EXPR_IN), (''between'', PG_EXPR_BETWEEN),
     (''avg'', PG_EXPR_AVG), (''sum'', PG_EXPR_SUM), (''count'', PG_EXPR_COUNT),
     (''max'', PG_EXPR_MAX), (''min'', PG_EXPR_MIN), (''eval_expr_call'', PG_EXPR_EVAL_EXPR_CALL)]"

definition CheckOperatorName :: "string \<Rightarrow> code" where
  "CheckOperatorName name = (if kOperatorNames name = None then kInvalidArgument else kOk)"

text \<open>The final check aborts on an unknown name.\<close>
definition NameToOpcode :: "string \<Rightarrow> Opcode checked" where
  "NameToOpcode name = kOperatorNames name"

subsection \<open>Expressions\<close>

datatype PgExpr =
    PgConstant Opcode type_entity sql_value
  | PgColumnRef (colref_attr_num: int) (colref_attr_name: string) type_entity (colref_typmod: int)
  | PgOperator Opcode string type_entity "PgExpr list"

fun opcode :: "PgExpr \<Rightarrow> Opcode" where
  "opcode (PgConstant oc _ _) = oc"
| "opcode (PgColumnRef _ _ _ _) = PG_EXPR_COLREF"
| "opcode (PgOperator oc _ _ _) = oc"

fun expr_type_entity :: "PgExpr \<Rightarrow> type_entity" where
  "expr_type_entity (PgConstant _ te _) = te"
| "expr_type_entity (PgColumnRef _ _ te _) = te"
| "expr_type_entity (PgOperator _ _ te _) = te"

definition is_constant :: "PgExpr \<Rightarrow> bool" where
  "is_constant e = (opcode e = PG_EXPR_CONSTANT)"

definition is_colref :: "PgExpr \<Rightarrow> bool" where
  "is_colref e = (opcode e = PG_EXPR_COLREF)"

definition is_aggregate :: "PgExpr \<Rightarrow> bool" where
  "is_aggregate e = (opcode e \<in> {PG_EXPR_SUM, PG_EXPR_COUNT, PG_EXPR_MAX, PG_EXPR_MIN})"

definition is_logic_expr :: "PgExpr \<Rightarrow> bool" where
  "is_logic_expr e = (opcode e \<in>
     {PG_EXPR_NOT, PG_EXPR_EQ, PG_EXPR_NE, PG_EXPR_GE, PG_EXPR_GT, PG_EXPR_LE, PG_EXPR_LT})"

fun is_k2pgbasetid :: "PgExpr \<Rightarrow> bool" where
  "is_k2pgbasetid (PgColumnRef n _ _ _) = (n = attr_num kPgIdxBaseTupleId)"
| "is_k2pgbasetid _ = False"

text \<open>
  The checks shared by the constructors; a type entity of the model always has its
  two conversion functions, so the checks on these pointers do not appear.
\<close>
definition expr_type_ok :: "type_entity \<Rightarrow> bool" where
  "expr_type_ok te = (te_type te \<notin> {DT_NOT_SUPPORTED, DT_UNKNOWN_DATA, DT_NULL_VALUE_TYPE})"

definition new_PgConstant :: "bignum \<Rightarrow> type_entity \<Rightarrow> 64 word \<Rightarrow> bool \<Rightarrow> Opcode \<Rightarrow> PgExpr checked" where
  "new_PgConstant B te datum is_null oc = do {
     check_that (expr_type_ok te);
     v \<leftarrow> SqlValue_of_datum B te datum is_null;
     Some (PgConstant oc te v) }"

definition new_PgConstant_value :: "type_entity \<Rightarrow> sql_value \<Rightarrow> PgExpr checked" where
  "new_PgConstant_value te v = do { check_that (expr_type_ok te); Some (PgConstant PG_EXPR_CONSTANT te v) }"

definition new_PgColumnRef :: "int \<Rightarrow> type_entity \<Rightarrow> int \<Rightarrow> PgExpr checked" where
  "new_PgColumnRef n te typmod = do { check_that (expr_type_ok te); Some (PgColumnRef n [] te typmod) }"

definition new_PgOperator :: "string \<Rightarrow> type_entity \<Rightarrow> PgExpr checked" where
  "new_PgOperator name te = do {
     oc \<leftarrow> NameToOpcode name;
     check_that (expr_type_ok te);
     Some (PgOperator oc name te []) }"

text \<open>Calls through a pointer of the wrong class have no meaning.\<close>
fun AppendArg :: "PgExpr \<Rightarrow> PgExpr \<Rightarrow> PgExpr checked" where
  "AppendArg a (PgOperator oc name te args) = Some (PgOperator oc name te (args @ [a]))"
| "AppendArg a _ = None"

fun getArgs :: "PgExpr \<Rightarrow> PgExpr list checked" where
  "getArgs (PgOperator _ _ _ args) = Some args"
| "getArgs _ = None"

fun getValue :: "PgExpr \<Rightarrow> sql_value checked" where
  "getValue (PgConstant _ _ v) = Some v"
| "getValue _ = None"

fun set_attr_name :: "string \<Rightarrow> PgExpr \<Rightarrow> PgExpr checked" where
  "set_attr_name s (PgColumnRef n _ te typmod) = Some (PgColumnRef n s te typmod)"
| "set_attr_name s _ = None"

fun attr_name :: "PgExpr \<Rightarrow> string checked" where
  "attr_name (PgColumnRef _ s _ _) = Some s"
| "attr_name _ = None"

text \<open>The eight overloads of \<open>UpdateConstant\<close> apply a setter of the value.\<close>
datatype constant_update =
    Upd_int8 "8 word" | Upd_int16 "16 word" | Upd_int32 "32 word" | Upd_int64 "64 word"
  | Upd_float "32 word" | Upd_double "64 word" | Upd_text string | Upd_bytes string nat

fun update_value :: "constant_update \<Rightarrow> bool \<Rightarrow> sql_value \<Rightarrow> sql_value" where
  "update_value (Upd_int8 w) = set_int8_value w"
| "update_value (Upd_int16 w) = set_int16_value w"
| "update_value (Upd_int32 w) = set_int32_value w"
| "update_value (Upd_int64 w) = set_int64_value w"
| "update_value (Upd_float w) = set_float_value w"
| "update_value (Upd_double w) = set_double_value w"
| "update_value (Upd_text s) = set_string_value s"
| "update_value (Upd_bytes s n) = set_binary_value s n"

fun UpdateConstant :: "constant_update \<Rightarrow> bool \<Rightarrow> PgExpr \<Rightarrow> PgExpr checked" where
  "UpdateConstant u is_null (PgConstant oc te v) = Some (PgConstant oc te (update_value u is_null v))"
| "UpdateConstant u is_null _ = None"

subsection \<open>Building expressions through the gate\<close>

text \<open>
  Each call either reports an invalid argument or yields the new expression.  A
  statement handle is present or absent; the expressions a statement owns are the
  ones returned.
\<close>
definition NewColumnRef :: "bool \<Rightarrow> int \<Rightarrow> type_entity \<Rightarrow> int \<Rightarrow> PgExpr result checked" where
  "NewColumnRef stmt n te typmod =
    (if \<not> stmt then Some (Inl kInvalidArgument) else map_option Inr (new_PgColumnRef n te typmod))"

definition NewConstant :: "bignum \<Rightarrow> bool \<Rightarrow> type_entity \<Rightarrow> 64 word \<Rightarrow> bool \<Rightarrow> PgExpr result checked" where
  "NewConstant B stmt te datum is_null =
    (if \<not> stmt then Some (Inl kInvalidArgument)
     else map_option Inr (new_PgConstant B te datum is_null PG_EXPR_CONSTANT))"

definition NewConstantOp :: "bignum \<Rightarrow> bool \<Rightarrow> type_entity \<Rightarrow> 64 word \<Rightarrow> bool \<Rightarrow> bool \<Rightarrow> PgExpr result checked" where
  "NewConstantOp B stmt te datum is_null is_gt =
    (if \<not> stmt then Some (Inl kInvalidArgument)
     else map_option Inr (new_PgConstant B te datum is_null (if is_gt then PG_EXPR_GT else PG_EXPR_LT)))"

definition NewOperator :: "bool \<Rightarrow> string \<Rightarrow> type_entity \<Rightarrow> PgExpr result checked" where
  "NewOperator stmt name te =
    (if \<not> stmt then Some (Inl kInvalidArgument)
     else if CheckOperatorName name \<noteq> kOk then Some (Inl (CheckOperatorName name))
     else map_option Inr (new_PgOperator name te))"

definition OperatorAppendArg :: "PgExpr option \<Rightarrow> PgExpr option \<Rightarrow> PgExpr result checked" where
  "OperatorAppendArg oph arg = (case (oph, arg) of
      (Some e, Some a) \<Rightarrow> map_option Inr (AppendArg a e)
    | _ \<Rightarrow> Some (Inl kInvalidArgument))"

definition UpdateConstant_text :: "PgExpr \<Rightarrow> string \<Rightarrow> bool \<Rightarrow> PgExpr result checked" where
  "UpdateConstant_text e s is_null =
    (if opcode e \<noteq> PG_EXPR_CONSTANT then Some (Inl kInvalidArgument)
     else map_option Inr (UpdateConstant (Upd_text s) is_null e))"

definition UpdateConstant_bytes :: "PgExpr \<Rightarrow> string \<Rightarrow> nat \<Rightarrow> bool \<Rightarrow> PgExpr result checked" where
  "UpdateConstant_bytes e s n is_null =
    (if opcode e \<noteq> PG_EXPR_CONSTANT then Some (Inl kInvalidArgument)
     else map_option Inr (UpdateConstant (Upd_bytes s n) is_null e))"

subsection \<open>Well-formed expressions\<close>

text \<open>
  What the gate can build: a constant carries its own opcode or one of the two bounds,
  and an operator carries the opcode of its name.
\<close>
fun wf_expr :: "PgExpr \<Rightarrow> bool" where
  "wf_expr (PgConstant oc te v) =
     (oc \<in> {PG_EXPR_CONSTANT, PG_EXPR_GT, PG_EXPR_LT} \<and> expr_type_ok te)"
| "wf_expr (PgColumnRef n s te typmod) = expr_type_ok te"
| "wf_expr (PgOperator oc name te args) =
     (kOperatorNames name = Some oc \<and> expr_type_ok te \<and> (\<forall>a \<in> set args. wf_expr a))"

lemma kOperatorNames_range:
  "kOperatorNames name = Some oc \<Longrightarrow> oc \<notin> {PG_EXPR_CONSTANT, PG_EXPR_COLREF, PG_EXPR_EXISTS}"
  by (auto simp: kOperatorNames_def split: if_splits)

lemma is_colref_iff: "wf_expr e \<Longrightarrow> is_colref e \<longleftrightarrow> (\<exists>n s te m. e = PgColumnRef n s te m)"
  by (cases e) (auto simp: is_colref_def dest: kOperatorNames_range)

lemma is_constant_iff: "wf_expr e \<Longrightarrow> is_constant e \<longleftrightarrow> (\<exists>te v. e = PgConstant PG_EXPR_CONSTANT te v)"
  by (cases e) (auto simp: is_constant_def dest: kOperatorNames_range)

lemma NewOperator_never_crashes:
  "expr_type_ok te \<Longrightarrow> NewOperator True name te =
     Some (case kOperatorNames name of None \<Rightarrow> Inl kInvalidArgument | Some oc \<Rightarrow> Inr (PgOperator oc name te []))"
  by (auto simp: NewOperator_def CheckOperatorName_def new_PgOperator_def NameToOpcode_def check_that_def
      split: option.splits)

lemma gate_exprs_wf [inv_intros]:
  "NewColumnRef b n te m = Some (Inr e) \<Longrightarrow> wf_expr e"
  "NewConstant B b te d nl = Some (Inr e) \<Longrightarrow> wf_expr e"
  "NewConstantOp B b te d nl gt = Some (Inr e) \<Longrightarrow> wf_expr e"
  "NewOperator b name te = Some (Inr e) \<Longrightarrow> wf_expr e"
  "wf_expr a \<Longrightarrow> wf_expr e1 \<Longrightarrow> OperatorAppendArg (Some e1) (Some a) = Some (Inr e) \<Longrightarrow> wf_expr e"
  "wf_expr e1 \<Longrightarrow> UpdateConstant_text e1 s nl = Some (Inr e) \<Longrightarrow> wf_expr e"
  "wf_expr e1 \<Longrightarrow> UpdateConstant_bytes e1 s n' nl = Some (Inr e) \<Longrightarrow> wf_expr e"
  subgoal by (auto simp: NewColumnRef_def new_PgColumnRef_def check_that_def split: if_splits)
  subgoal by (auto simp: NewConstant_def new_PgConstant_def check_that_def split: if_splits Option.bind_splits)
  subgoal by (auto simp: NewConstantOp_def new_PgConstant_def check_that_def split: if_splits Option.bind_splits)
  subgoal by (auto simp: NewOperator_def new_PgOperator_def NameToOpcode_def check_that_def
      split: if_splits Option.bind_splits)
  subgoal by (cases e1) (auto simp: OperatorAppendArg_def)
  subgoal by (cases e1) (auto simp: UpdateConstant_text_def split: if_splits)
  subgoal by (cases e1) (auto simp: UpdateConstant_bytes_def split: if_splits)
  done

end
