(* ===== verification/Index_Table.thy ===== *)
theory Index_Table
  imports Sql_Schema Pg_Expr
begin

text \<open>
  Secondary indexes and tables as the catalog describes them (entities/index.h,
  index.cc, table.h, table.cc).
\<close>

subsection \<open>Index permissions\<close>

datatype IndexPermissions =
    INDEX_PERM_DELETE_ONLY | INDEX_PERM_WRITE_AND_DELETE | INDEX_PERM_DO_BACKFILL
  | INDEX_PERM_READ_WRITE_AND_DELETE | INDEX_PERM_WRITE_AND_DELETE_WHILE_REMOVING
  | INDEX_PERM_DELETE_ONLY_WHILE_REMOVING | INDEX_PERM_INDEX_UNUSED | INDEX_PERM_NOT_USED

fun permission_value :: "IndexPermissions \<Rightarrow> int" where
  "permission_value INDEX_PERM_DELETE_ONLY = 0"
| "permission_value INDEX_PERM_WRITE_AND_DELETE = 2"
| "permission_value INDEX_PERM_DO_BACKFILL = 4"
| "permission_value INDEX_PERM_READ_WRITE_AND_DELETE = 6"
| "permission_value INDEX_PERM_WRITE_AND_DELETE_WHILE_REMOVING = 8"
| "permission_value INDEX_PERM_DELETE_ONLY_WHILE_REMOVING = 10"
| "permission_value INDEX_PERM_INDEX_UNUSED = 12"
| "permission_value INDEX_PERM_NOT_USED = 14"

instantiation IndexPermissions :: linorder
begin

definition less_eq_IndexPermissions :: "IndexPermissions \<Rightarrow> IndexPermissions \<Rightarrow> bool" where
  "p \<le> q \<longleftrightarrow> permission_value p \<le> permission_value q"

definition less_IndexPermissions :: "IndexPermissions \<Rightarrow> IndexPermissions \<Rightarrow> bool" where
  "p < q \<longleftrightarrow> permission_value p < permission_value q"

instance
proof
  fix p q :: IndexPermissions
  show "p \<le> q \<Longrightarrow> q \<le> p \<Longrightarrow> p = q"
    by (cases p; cases q) (simp_all add: less_eq_IndexPermissions_def)
qed (auto simp: less_eq_IndexPermissions_def less_IndexPermissions_def)

end

subsection \<open>Indexes\<close>

record IndexColumn =
  ic_column_id :: int
  ic_column_name :: string
  ic_type :: DataType
  ic_is_nullable :: bool
  ic_is_hash :: bool
  ic_is_range :: bool
  ic_order :: int
  ic_sorting_type :: SortingType
  ic_base_column_id :: int
  ic_colexpr :: "PgExpr option"

record IndexInfo =
  ix_table_name :: string
  ix_table_oid :: oid
  ix_table_id :: string
  ix_table_uuid :: string
  ix_base_table_id :: string
  ix_version :: "32 word"
  ix_is_unique :: bool
  ix_is_shared :: bool
  ix_columns :: "IndexColumn list"
  ix_hash_column_count :: nat
  ix_range_column_count :: nat
  ix_indexed_hash_column_ids :: "int list"
  ix_indexed_range_column_ids :: "int list"
  ix_permissions :: IndexPermissions

text \<open>The constructor that is given the key counts and the key columns of the base table.\<close>
definition IndexInfo_full ::
  "string \<Rightarrow> oid \<Rightarrow> string \<Rightarrow> string \<Rightarrow> 32 word \<Rightarrow> bool \<Rightarrow> bool \<Rightarrow> IndexColumn list \<Rightarrow> nat \<Rightarrow> nat \<Rightarrow>
   int list \<Rightarrow> int list \<Rightarrow> IndexPermissions \<Rightarrow> IndexInfo" where
  "IndexInfo_full name toid uuid base version uniq shared cols nhash nrange hash_ids range_ids perm =
    \<lparr>ix_table_name = name, ix_table_oid = toid, ix_table_id = GetTableId toid, ix_table_uuid = uuid,
     ix_base_table_id = base, ix_version = version, ix_is_unique = uniq, ix_is_shared = shared,
     ix_columns = cols, ix_hash_column_count = nhash, ix_range_column_count = nrange,
     ix_indexed_hash_column_ids = hash_ids, ix_indexed_range_column_ids = range_ids, ix_permissions = perm\<rparr>"

text \<open>The counting loop of the second constructor; hash takes precedence over range.\<close>
fun count_key_columns :: "IndexColumn list \<Rightarrow> nat \<times> nat \<Rightarrow> nat \<times> nat" where
  "count_key_columns [] acc = acc"
| "count_key_columns (c # cs) (h, r) =
    count_key_columns cs (if ic_is_hash c then (h + 1, r) else if ic_is_range c then (h, r + 1) else (h, r))"

definition IndexInfo_make ::
  "string \<Rightarrow> oid \<Rightarrow> string \<Rightarrow> string \<Rightarrow> 32 word \<Rightarrow> bool \<Rightarrow> bool \<Rightarrow> IndexColumn list \<Rightarrow> IndexPermissions \<Rightarrow> IndexInfo" where
  "IndexInfo_make name toid uuid base version uniq shared cols perm =
    (let (h, r) = count_key_columns cols (0, 0)
     in IndexInfo_full name toid uuid base version uniq shared cols h r [] [] perm)"

definition base_table_oid :: "IndexInfo \<Rightarrow> oid checked" where
  "base_table_oid ix = GetTableOidByTableUuid (ix_base_table_id ix)"

definition key_column_count :: "IndexInfo \<Rightarrow> nat" where
  "key_column_count ix = ix_hash_column_count ix + ix_range_column_count ix"

definition HasReadPermission :: "IndexInfo \<Rightarrow> bool" where
  "HasReadPermission ix = (ix_permissions ix = INDEX_PERM_READ_WRITE_AND_DELETE)"

definition HasWritePermission :: "IndexInfo \<Rightarrow> bool" where
  "HasWritePermission ix = (ix_permissions ix \<ge> INDEX_PERM_WRITE_AND_DELETE
     \<and> ix_permissions ix \<le> INDEX_PERM_WRITE_AND_DELETE_WHILE_REMOVING)"

definition HasDeletePermission :: "IndexInfo \<Rightarrow> bool" where
  "HasDeletePermission ix = (ix_permissions ix \<ge> INDEX_PERM_DELETE_ONLY
     \<and> ix_permissions ix \<le> INDEX_PERM_DELETE_ONLY_WHILE_REMOVING)"

definition IsBackfilling :: "IndexInfo \<Rightarrow> bool" where
  "IsBackfilling ix = (ix_permissions ix = INDEX_PERM_DO_BACKFILL)"

text \<open>The map from base column to index column; the subscript operator yields 0 for an absent key.\<close>
definition base_to_index :: "IndexColumn list \<Rightarrow> (int \<rightharpoonup> int)" where
  "base_to_index cols = fold (\<lambda>c m. m(ic_base_column_id c \<mapsto> ic_column_id c)) cols Map.empty"

definition index_key_column_ids :: "IndexInfo \<Rightarrow> int list" where
  "index_key_column_ids ix =
    (let m = base_to_index (ix_columns ix); get = (\<lambda>i. case m i of None \<Rightarrow> 0 | Some j \<Rightarrow> j)
     in map get (ix_indexed_hash_column_ids ix) @ map get (ix_indexed_range_column_ids ix))"

text \<open>
  The loop reads the first key columns; an index past the vector has no meaning.
  The schema is asked by column id.
\<close>
fun key_columns_loop :: "Schema \<Rightarrow> IndexColumn list \<Rightarrow> nat \<Rightarrow> nat \<Rightarrow> bool option" where
  "key_columns_loop s cols i 0 = Some True"
| "key_columns_loop s cols i (Suc n) =
    (if i < length cols then do {
       b \<leftarrow> is_key_column s (ic_base_column_id (cols ! i));
       if b then key_columns_loop s cols (i + 1) n else Some False }
     else None)"

definition PrimaryKeyColumnsOnly :: "Schema \<Rightarrow> IndexInfo \<Rightarrow> bool option" where
  "PrimaryKeyColumnsOnly s ix = key_columns_loop s (ix_columns ix) 0 (key_column_count ix)"

fun depends_loop :: "int \<Rightarrow> IndexColumn list \<Rightarrow> bool" where
  "depends_loop i [] = False"
| "depends_loop i (c # cs) = (if ic_base_column_id c = i then True else depends_loop i cs)"

definition CheckColumnDependency :: "int \<Rightarrow> IndexInfo \<Rightarrow> bool" where
  "CheckColumnDependency i ix = depends_loop i (ix_columns ix)"

text \<open>\<open>std::string::find\<close> succeeds.\<close>
fun contains :: "string \<Rightarrow> string \<Rightarrow> bool" where
  "contains [] pat = (pat = [])"
| "contains (c # cs) pat = (take (length pat) (c # cs) = pat \<or> contains cs pat)"

fun find_key_loop :: "string \<Rightarrow> IndexColumn list \<Rightarrow> nat \<Rightarrow> nat \<Rightarrow> int checked" where
  "find_key_loop name cols i 0 = Some (-1)"
| "find_key_loop name cols i (Suc n) =
    (if i < length cols then
       (let c = ic_column_name (cols ! i) in
        if c \<noteq> [] \<and> contains name c then Some (int i) else find_key_loop name cols (i + 1) n)
     else None)"

definition FindKeyIndex :: "string \<Rightarrow> IndexInfo \<Rightarrow> int checked" where
  "FindKeyIndex name ix = find_key_loop name (ix_columns ix) 0 (key_column_count ix)"

definition IndexMap_FindIndex :: "(string \<rightharpoonup> IndexInfo) \<Rightarrow> string \<Rightarrow> IndexInfo result" where
  "IndexMap_FindIndex m index_id = (case m index_id of None \<Rightarrow> Inl kNotFound | Some ix \<Rightarrow> Inr ix)"

subsection \<open>Tables\<close>

record TableInfo =
  ti_database_id :: string
  ti_database_name :: string
  ti_table_oid :: oid
  ti_table_id :: string
  ti_table_name :: string
  ti_table_uuid :: string
  ti_schema :: Schema
  ti_index_map :: "string \<rightharpoonup> IndexInfo"
  ti_next_column_id :: int
  ti_is_sys_table :: bool
  ti_is_shared_table :: bool

text \<open>
  A schema has no move constructor, so the member is initialised by a copy, which
  loses the version.
\<close>
definition TableInfo_make :: "string \<Rightarrow> string \<Rightarrow> oid \<Rightarrow> string \<Rightarrow> string \<Rightarrow> Schema \<Rightarrow> TableInfo" where
  "TableInfo_make db_id db_name toid name uuid s =
    \<lparr>ti_database_id = db_id, ti_database_name = db_name, ti_table_oid = toid, ti_table_id = GetTableId toid,
     ti_table_name = name, ti_table_uuid = uuid, ti_schema = copy_schema s, ti_index_map = Map.empty,
     ti_next_column_id = 0, ti_is_sys_table = False, ti_is_shared_table = False\<rparr>"

definition has_secondary_indexes :: "TableInfo \<Rightarrow> bool" where
  "has_secondary_indexes t = (ti_index_map t \<noteq> Map.empty)"

text \<open>\<open>emplace\<close> keeps an entry that is already there.\<close>
definition add_secondary_index :: "string \<Rightarrow> IndexInfo \<Rightarrow> TableInfo \<Rightarrow> TableInfo" where
  "add_secondary_index index_id ix t = (if ti_index_map t index_id = None
     then t\<lparr>ti_index_map := (ti_index_map t)(index_id \<mapsto> ix)\<rparr> else t)"

definition drop_index :: "string \<Rightarrow> TableInfo \<Rightarrow> TableInfo" where
  "drop_index index_id t = t\<lparr>ti_index_map := (ti_index_map t)(index_id := None)\<rparr>"

definition TableInfo_FindIndex :: "TableInfo \<Rightarrow> string \<Rightarrow> IndexInfo result" where
  "TableInfo_FindIndex t index_id = IndexMap_FindIndex (ti_index_map t) index_id"

text \<open>
  \<open>entries\<close> is the order in which the hash map is walked.  The schema is copied a
  first time for the argument of the constructor.
\<close>
definition TableInfo_Clone ::
  "(string \<times> IndexInfo) list \<Rightarrow> TableInfo \<Rightarrow> string \<Rightarrow> string \<Rightarrow> string \<Rightarrow> string \<Rightarrow> TableInfo" where
  "TableInfo_Clone entries t db_id db_name uuid name =
    (let n0 = TableInfo_make db_id db_name (ti_table_oid t) name uuid (copy_schema (ti_schema t));
         n1 = n0\<lparr>ti_next_column_id := ti_next_column_id t, ti_is_sys_table := ti_is_sys_table t\<rparr>
     in if has_secondary_indexes t then fold (\<lambda>(i, ix) n. add_secondary_index i ix n) entries n1 else n1)"

subsection \<open>Lemmas\<close>

lemma count_key_columns_acc: "count_key_columns cols (h, r) =
    (h + length (filter ic_is_hash cols), r + length (filter (\<lambda>c. \<not> ic_is_hash c \<and> ic_is_range c) cols))"
  by (induction cols arbitrary: h r) auto

lemma hash_range_partition:
  "length (filter ic_is_hash cols) + length (filter (\<lambda>c. \<not> ic_is_hash c \<and> ic_is_range c) cols)
     = length (filter (\<lambda>c. ic_is_hash c \<or> ic_is_range c) cols)"
  by (induction cols) auto

lemma key_column_count_make: "key_column_count (IndexInfo_make name toid uuid base ver uniq shared cols perm)
    = length (filter (\<lambda>c. ic_is_hash c \<or> ic_is_range c) cols)"
  by (simp add: key_column_count_def IndexInfo_make_def IndexInfo_full_def count_key_columns_acc hash_range_partition)

lemma contains_iff: "contains s pat \<longleftrightarrow> (\<exists>pre post. s = pre @ pat @ post)"
proof (induction s)
  case (Cons c cs)
  have "take (length pat) (c # cs) = pat \<longleftrightarrow> (\<exists>post. c # cs = pat @ post)"
    by (metis append_eq_conv_conj append_take_drop_id)
  with Cons show ?case by (auto simp: Cons_eq_append_conv)
qed auto

text \<open>Named columns that occur in an expression.\<close>
definition mentions :: "string \<Rightarrow> IndexColumn \<Rightarrow> bool" where
  "mentions name c = (ic_column_name c \<noteq> [] \<and> (\<exists>pre post. name = pre @ ic_column_name c @ post))"

lemma find_key_loop_spec:
  assumes "i + n \<le> length cols"
  shows "\<exists>k. find_key_loop name cols i n = Some k \<and>
    (k = -1 \<and> (\<forall>j < n. \<not> mentions name (cols ! (i + j))) \<or>
     (\<exists>j < n. k = int (i + j) \<and> mentions name (cols ! (i + j)) \<and> (\<forall>l < j. \<not> mentions name (cols ! (i + l)))))"
  using assms
proof (induction n arbitrary: i)
  case (Suc n)
  show ?case
  proof (cases "mentions name (cols ! i)")
    case True
    with Suc.prems show ?thesis
      by (intro exI [of _ "int i"]) (auto simp: mentions_def contains_iff Let_def intro!: exI [of _ 0])
  next
    case False
    then have step: "find_key_loop name cols i (Suc n) = find_key_loop name cols (Suc i) n"
      using Suc.prems by (auto simp: mentions_def contains_iff Let_def)
    have shift: "(\<forall>j < Suc m. \<not> mentions name (cols ! (i + j))) \<longleftrightarrow> (\<forall>j < m. \<not> mentions name (cols ! (Suc i + j)))" for m
      using False by (auto simp: less_Suc_eq_0_disj)
    from Suc.IH [of "Suc i"] Suc.prems obtain k where k: "find_key_loop name cols (Suc i) n = Some k"
      "k = -1 \<and> (\<forall>j < n. \<not> mentions name (cols ! (Suc i + j))) \<or>
       (\<exists>j < n. k = int (Suc i + j) \<and> mentions name (cols ! (Suc i + j)) \<and> (\<forall>l < j. \<not> mentions name (cols ! (Suc i + l))))"
      by auto
    from k(2) show ?thesis
    proof (elim disjE exE conjE)
      fix j assume "j < n" "k = int (Suc i + j)" "mentions name (cols ! (Suc i + j))"
        "\<forall>l < j. \<not> mentions name (cols ! (Suc i + l))"
      then show ?thesis using step k(1) shift [of j] by (intro exI [of _ k]) (auto intro!: exI [of _ "Suc j"])
    qed (use step k(1) shift [of n] in auto)
  qed
qed auto

lemma add_indexes_map:
  "ti_index_map (fold (\<lambda>(i, ix) n. add_secondary_index i ix n) entries t)
     = map_of entries ++ ti_index_map t"
proof (induction entries arbitrary: t)
  case (Cons e es)
  obtain i ix where e: "e = (i, ix)" by (cases e)
  have "map_of es ++ ti_index_map (add_secondary_index i ix t) = map_of (e # es) ++ ti_index_map t"
    by (rule ext) (auto simp: e add_secondary_index_def map_add_def split: option.splits)
  then show ?case using Cons [of "add_secondary_index i ix t"] by (simp add: e fun_upd_def)
qed simp

lemma add_indexes_rest:
  "ti_schema (fold (\<lambda>(i, ix) n. add_secondary_index i ix n) entries t) = ti_schema t"
  "ti_table_oid (fold (\<lambda>(i, ix) n. add_secondary_index i ix n) entries t) = ti_table_oid t"
  "ti_next_column_id (fold (\<lambda>(i, ix) n. add_secondary_index i ix n) entries t) = ti_next_column_id t"
  "ti_is_sys_table (fold (\<lambda>(i, ix) n. add_secondary_index i ix n) entries t) = ti_is_sys_table t"
  "ti_is_shared_table (fold (\<lambda>(i, ix) n. add_secondary_index i ix n) entries t) = ti_is_shared_table t"
  by (induction entries arbitrary: t) (auto simp: add_secondary_index_def split: if_splits)

lemma copy_schema_idem [simp]: "copy_schema (copy_schema s) = copy_schema s"
  by (simp add: copy_schema_def CopyFrom_def)

subsection \<open>Properties\<close>

text \<open>
  Permissions form a ladder: a readable index is written, a written one sees
  deletions, and an index being backfilled is written but not read.
\<close>
lemma permission_ladder:
  "HasReadPermission ix \<Longrightarrow> HasWritePermission ix" "HasWritePermission ix \<Longrightarrow> HasDeletePermission ix"
  "IsBackfilling ix \<Longrightarrow> HasWritePermission ix \<and> \<not> HasReadPermission ix"
  "HasDeletePermission ix \<longleftrightarrow> ix_permissions ix \<notin> {INDEX_PERM_INDEX_UNUSED, INDEX_PERM_NOT_USED}"
  by (cases "ix_permissions ix"; simp add: HasReadPermission_def HasWritePermission_def HasDeletePermission_def
      IsBackfilling_def less_eq_IndexPermissions_def)+

text \<open>The question by column id never gets an answer once there is a key column.\<close>
lemma PrimaryKeyColumnsOnly_diverges:
  "key_column_count ix > 0 \<Longrightarrow> PrimaryKeyColumnsOnly s ix = None"
proof -
  have "is_key_column s i = None" for i using is_key_column_diverges [of s i] by fastforce
  then show "key_column_count ix > 0 \<Longrightarrow> PrimaryKeyColumnsOnly s ix = None"
    by (cases "key_column_count ix") (simp_all add: PrimaryKeyColumnsOnly_def)
qed

text \<open>
  An index built from its columns finds the key column of an expression: the search
  always ends, it looks at as many leading columns as there are hash or range columns,
  and it reports the first of them whose name occurs in the expression, or -1 when no
  name does.
\<close>
theorem FindKeyIndex_first:
  fixes cols :: "IndexColumn list"
  defines "n \<equiv> length (filter (\<lambda>c. ic_is_hash c \<or> ic_is_range c) cols)"
  shows "\<exists>k. FindKeyIndex name (IndexInfo_make tname toid uuid base ver uniq shared cols perm) = Some k \<and>
    (k = -1 \<and> (\<forall>j < n. \<not> mentions name (cols ! j)) \<or>
     (\<exists>j < n. k = int j \<and> mentions name (cols ! j) \<and> (\<forall>l < j. \<not> mentions name (cols ! l))))"
proof -
  have "ix_columns (IndexInfo_make tname toid uuid base ver uniq shared cols perm) = cols"
    by (simp add: IndexInfo_make_def IndexInfo_full_def split: prod.split)
  moreover have "n \<le> length cols" by (simp add: n_def)
  ultimately show ?thesis
    using find_key_loop_spec [of 0 n cols name] by (simp add: FindKeyIndex_def key_column_count_make n_def)
qed

definition example_index_column :: "string \<Rightarrow> bool \<Rightarrow> IndexColumn" where
  "example_index_column s h = \<lparr>ic_column_id = 0, ic_column_name = s, ic_type = DT_INT64, ic_is_nullable = False,
     ic_is_hash = h, ic_is_range = False, ic_order = 1, ic_sorting_type = kAscending, ic_base_column_id = 0,
     ic_colexpr = None\<rparr>"

theorem FindKeyIndex_first_witness:
  "FindKeyIndex ''lower(bc)'' (IndexInfo_make ''i'' 5 [] [] 1 True False
     [example_index_column ''a'' True, example_index_column ''bc'' True, example_index_column ''c'' False]
     INDEX_PERM_READ_WRITE_AND_DELETE) \<noteq> None"
  using FindKeyIndex_first [of "''lower(bc)''" "''i''" 5 "[]" "[]" 1 True False
     "[example_index_column ''a'' True, example_index_column ''bc'' True, example_index_column ''c'' False]"
     INDEX_PERM_READ_WRITE_AND_DELETE] by blast

text \<open>
  Cloning a table into another database keeps its object id, its columns, its column
  counter, its system flag and every secondary index, and takes the new identity; the
  shared flag is reset, whatever it was, and the schema of any table has version 0.
\<close>
theorem TableInfo_Clone_keeps:
  assumes "map_of entries = ti_index_map t" "ti_schema t = copy_schema s"
  shows "let n = TableInfo_Clone entries t db_id db_name uuid name in
    ti_table_oid n = ti_table_oid t \<and> ti_schema n = ti_schema t \<and> ti_next_column_id n = ti_next_column_id t
    \<and> ti_is_sys_table n = ti_is_sys_table t \<and> (\<forall>i. TableInfo_FindIndex n i = TableInfo_FindIndex t i)
    \<and> \<not> ti_is_shared_table n \<and> schema_version (ti_schema n) = 0"
proof -
  let ?n = "TableInfo_Clone entries t db_id db_name uuid name"
  have "ti_index_map ?n = ti_index_map t"
    using assms(1) by (simp add: TableInfo_Clone_def add_indexes_map TableInfo_make_def has_secondary_indexes_def Let_def)
  moreover have "schema_version (copy_schema s) = 0" for s
    by (simp add: copy_schema_def CopyFrom_def empty_schema_def)
  ultimately show ?thesis
    using assms(2) by (simp add: TableInfo_Clone_def TableInfo_make_def add_indexes_rest TableInfo_FindIndex_def Let_def)
qed

theorem TableInfo_Clone_keeps_witness:
  "let t = (TableInfo_make ''d'' ''db'' 7 ''t'' ''u'' empty_schema)\<lparr>ti_is_shared_table := True\<rparr>;
       n = TableInfo_Clone [] t ''e'' ''eb'' ''v'' ''w''
   in ti_is_shared_table t \<and> \<not> ti_is_shared_table n \<and> ti_table_oid n = 7"
  using TableInfo_Clone_keeps [of "[]" "(TableInfo_make ''d'' ''db'' 7 ''t'' ''u'' empty_schema)\<lparr>ti_is_shared_table := True\<rparr>"
    empty_schema "''e''" "''eb''" "''v''" "''w''"]
  by (simp add: TableInfo_make_def Let_def)

end
