(* ===== verification/Adapter_Expr.thy ===== *)
theory Adapter_Expr
  imports Pg_Expr
begin

text \<open>
  Translation of SQL conditions to filter expressions of the storage platform
  (pggate/k2_adapter.cc, lines 53 to 284).  The expression builders of the platform
  are kept as constructors, so a translated expression is the term of the calls
  the adapter makes; what the platform computes from it is a parameter of the
  correctness theorem.
\<close>

subsection \<open>Expressions of the platform\<close>

datatype k2_literal = L_bool bool | L_int64 "64 word" | L_float "32 word" | L_double "64 word" | L_string string

datatype k2_value = makeValueLiteral k2_literal | makeValueReference string

datatype k2_operation = K2_EQ | K2_GT | K2_GTE | K2_LT | K2_LTE | K2_IS_NULL | K2_AND | K2_OR | K2_NOT | K2_UNKNOWN

datatype k2_expression = makeExpression k2_operation "k2_value list" "k2_expression list"

subsection \<open>Leaves\<close>

text \<open>
  The member that the type of a value selects; reading a member that was never
  written has no meaning.
\<close>
fun literal_of :: "ValueType \<Rightarrow> sql_data \<Rightarrow> k2_literal run" where
  "literal_of VT_UNKNOWN _ = throwE Invalid_argument"
| "literal_of VT_BOOL (D_bool b) = returnE (L_bool b)"
| "literal_of VT_INT (D_int w) = returnE (L_int64 w)"
| "literal_of VT_FLOAT (D_float w) = returnE (L_float w)"
| "literal_of VT_DOUBLE (D_double w) = returnE (L_double w)"
| "literal_of VT_SLICE (D_slice s) = returnE (L_string s)"
| "literal_of _ _ = None"

definition ToK2Value :: "sql_value \<Rightarrow> k2_value run" where
  "ToK2Value v = (if sv_null v then throwE Invalid_argument
     else bindE (literal_of (sv_type v) (sv_data v)) (\<lambda>l. returnE (makeValueLiteral l)))"

definition ToK2ColumnRef :: "PgExpr \<Rightarrow> k2_value run" where
  "ToK2ColumnRef e = (case attr_name e of None \<Rightarrow> None | Some s \<Rightarrow> returnE (makeValueReference s))"

fun ToK2OperationType :: "Opcode \<Rightarrow> k2_operation" where
  "ToK2OperationType PG_EXPR_NOT = K2_NOT"
| "ToK2OperationType PG_EXPR_EQ = K2_EQ"
| "ToK2OperationType PG_EXPR_NE = K2_NOT"
| "ToK2OperationType PG_EXPR_GE = K2_GTE"
| "ToK2OperationType PG_EXPR_GT = K2_GT"
| "ToK2OperationType PG_EXPR_LE = K2_LTE"
| "ToK2OperationType PG_EXPR_LT = K2_LT"
| "ToK2OperationType PG_EXPR_AND = K2_AND"
| "ToK2OperationType PG_EXPR_OR = K2_OR"
| "ToK2OperationType _ = K2_UNKNOWN"

subsection \<open>Operators\<close>

definition as_value :: "PgExpr \<Rightarrow> sql_value run" where
  "as_value e = (case getValue e of None \<Rightarrow> None | Some v \<Rightarrow> returnE v)"

definition ToK2BinaryLogicOperator :: "Opcode \<Rightarrow> PgExpr list \<Rightarrow> k2_expression run" where
  "ToK2BinaryLogicOperator oc args = (case args of
      [a0, a1] \<Rightarrow>
        if \<not> is_colref a0 then throwE Invalid_argument
        else if \<not> is_constant a1 then throwE Invalid_argument
        else bindE (as_value a1) (\<lambda>v.
          if oc = PG_EXPR_EQ then
            (if sv_null v then bindE (ToK2ColumnRef a0) (\<lambda>c. returnE (makeExpression K2_IS_NULL [c] []))
             else bindE (ToK2ColumnRef a0) (\<lambda>c. bindE (ToK2Value v) (\<lambda>l.
               returnE (makeExpression (ToK2OperationType oc) [c, l] []))))
          else if sv_null v then throwE Invalid_argument
          else bindE (ToK2ColumnRef a0) (\<lambda>c. bindE (ToK2Value v) (\<lambda>l.
            returnE (makeExpression (ToK2OperationType oc) [c, l] []))))
    | _ \<Rightarrow> None)"

text \<open>
  \<open>Compare\<close> takes a value by reference and is called with a pointer: the pointer
  converts to \<open>bool\<close>, so the argument is the boolean value \<open>true\<close>.
\<close>
definition Compare_pointer :: "sql_value \<Rightarrow> sql_value \<Rightarrow> int run" where
  "Compare_pointer v1 v2 = Compare v1 (SqlValue_bool True)"

definition ToK2BetweenOperator :: "PgExpr list \<Rightarrow> k2_expression run" where
  "ToK2BetweenOperator args = (case args of
      [a0, a1, a2] \<Rightarrow>
        if \<not> is_colref a0 then throwE Invalid_argument
        else if \<not> is_constant a1 \<or> \<not> is_constant a2 then throwE Invalid_argument
        else bindE (as_value a1) (\<lambda>v1. bindE (as_value a2) (\<lambda>v2.
          if sv_null v1 \<or> sv_null v2 then None
          else bindE (Compare_pointer v1 v2) (\<lambda>c.
            let lower = (if c > 0 then v2 else v1); higher = (if c > 0 then v1 else v2) in
            bindE (ToK2ColumnRef a0) (\<lambda>r1. bindE (ToK2Value lower) (\<lambda>l.
            bindE (ToK2ColumnRef a0) (\<lambda>r2. bindE (ToK2Value higher) (\<lambda>h.
              returnE (makeExpression K2_AND []
                [makeExpression K2_GTE [r1, l] [], makeExpression K2_LTE [r2, h] []]))))))))
    | _ \<Rightarrow> throwE Invalid_argument)"

text \<open>
  \<open>ToK2AndOrOperator\<close> consumes its argument vector from the back; here the list
  is given last element first.  An empty vector has no back.
\<close>
function (sequential) ToK2Expression :: "PgExpr \<Rightarrow> k2_expression run"
  and ToK2AndOrOperator :: "k2_operation \<Rightarrow> PgExpr list \<Rightarrow> k2_expression run" where
  "ToK2Expression (PgOperator oc name te args) =
    (if oc \<in> {PG_EXPR_EQ, PG_EXPR_GE, PG_EXPR_GT, PG_EXPR_LE, PG_EXPR_LT} then ToK2BinaryLogicOperator oc args
     else if oc = PG_EXPR_AND then ToK2AndOrOperator K2_AND (rev args)
     else if oc = PG_EXPR_BETWEEN then ToK2BetweenOperator args
     else throwE Invalid_argument)"
| "ToK2Expression e =
    (if opcode e \<in> {PG_EXPR_EQ, PG_EXPR_GE, PG_EXPR_GT, PG_EXPR_LE, PG_EXPR_LT, PG_EXPR_AND, PG_EXPR_BETWEEN} then None
     else throwE Invalid_argument)"
| "ToK2AndOrOperator op [] = None"
| "ToK2AndOrOperator op [a] = ToK2Expression a"
| "ToK2AndOrOperator op [b, a] =
    bindE (ToK2Expression b) (\<lambda>e1. bindE (ToK2Expression a) (\<lambda>e2. returnE (makeExpression op [] [e1, e2])))"
| "ToK2AndOrOperator op (b # a # rest) =
    bindE (ToK2Expression b) (\<lambda>e1. bindE (ToK2AndOrOperator op (a # rest)) (\<lambda>e2.
      returnE (makeExpression op [] [e1, e2])))"
  by pat_completeness auto
termination
  by (relation "measure (case_sum (\<lambda>e. 2 * size e) (\<lambda>(_, es). 2 * size_list size es + 1))")
    (auto simp: size_list_conv_sum_list rev_map [symmetric])

subsection \<open>Meaning of a condition\<close>

text \<open>
  A row maps column names to literals, \<^term>\<open>None\<close> being null.  The three-way
  comparison of two literals is a parameter \<open>cmp\<close>, undefined on literals that cannot
  be compared; \<open>sql_holds\<close> is the meaning of a condition: conjunction for \<open>and\<close>, a
  null test for equality with null, and the two comparisons with the bounds as they are
  written for \<open>between\<close>.
\<close>
type_synonym row = "string \<Rightarrow> k2_literal option"
type_synonym literal_order = "k2_literal \<Rightarrow> k2_literal \<Rightarrow> int option"

text \<open>What an SQL comparison and a comparison of the platform say of the order of their operands.\<close>
definition sql_accepts :: "Opcode \<Rightarrow> int \<Rightarrow> bool" where
  "sql_accepts oc d = (oc = PG_EXPR_EQ \<and> d = 0 \<or> oc = PG_EXPR_GE \<and> d \<ge> 0 \<or> oc = PG_EXPR_GT \<and> d > 0
     \<or> oc = PG_EXPR_LE \<and> d \<le> 0 \<or> oc = PG_EXPR_LT \<and> d < 0)"

definition k2_accepts :: "k2_operation \<Rightarrow> int \<Rightarrow> bool" where
  "k2_accepts op d = (op = K2_EQ \<and> d = 0 \<or> op = K2_GTE \<and> d \<ge> 0 \<or> op = K2_GT \<and> d > 0
     \<or> op = K2_LTE \<and> d \<le> 0 \<or> op = K2_LT \<and> d < 0)"

definition the_literal :: "sql_value \<Rightarrow> k2_literal" where
  "the_literal v = (case literal_of (sv_type v) (sv_data v) of Some (Inr l) \<Rightarrow> l | _ \<Rightarrow> L_bool False)"

text \<open>The value of a column compares with a literal in the way \<open>P\<close> asks for.\<close>
definition compares :: "literal_order \<Rightarrow> (int \<Rightarrow> bool) \<Rightarrow> row \<Rightarrow> string \<Rightarrow> k2_literal \<Rightarrow> bool" where
  "compares cmp P r c l = (case Option.bind (r c) (\<lambda>x. cmp x l) of None \<Rightarrow> False | Some d \<Rightarrow> P d)"

definition sql_leaf :: "literal_order \<Rightarrow> Opcode \<Rightarrow> PgExpr list \<Rightarrow> row \<Rightarrow> bool" where
  "sql_leaf cmp oc args r = (case args of
      [PgColumnRef _ c _ _, PgConstant _ _ v] \<Rightarrow>
        if oc = PG_EXPR_EQ \<and> sv_null v then r c = None else compares cmp (sql_accepts oc) r c (the_literal v)
    | _ \<Rightarrow> False)"

definition sql_between :: "literal_order \<Rightarrow> PgExpr list \<Rightarrow> row \<Rightarrow> bool" where
  "sql_between cmp args r = (case args of
      [PgColumnRef _ c _ _, PgConstant _ _ v1, PgConstant _ _ v2] \<Rightarrow>
        compares cmp (sql_accepts PG_EXPR_GE) r c (the_literal v1) \<and> compares cmp (sql_accepts PG_EXPR_LE) r c (the_literal v2)
    | _ \<Rightarrow> False)"

fun sql_holds :: "literal_order \<Rightarrow> PgExpr \<Rightarrow> row \<Rightarrow> bool" where
  "sql_holds cmp (PgOperator oc name te args) r =
    (if oc = PG_EXPR_AND then (\<forall>a \<in> set args. sql_holds cmp a r)
     else if oc = PG_EXPR_BETWEEN then sql_between cmp args r else sql_leaf cmp oc args r)"
| "sql_holds cmp _ r = False"

text \<open>
  What the platform documents of its evaluator: a conjunction holds when its
  children do, a comparison with a null column is false, and the null test.
\<close>
definition filter_laws :: "literal_order \<Rightarrow> (k2_expression \<Rightarrow> row \<Rightarrow> bool) \<Rightarrow> bool" where
  "filter_laws cmp ev \<longleftrightarrow>
    (\<forall>es r. ev (makeExpression K2_AND [] es) r = (\<forall>e \<in> set es. ev e r))
    \<and> (\<forall>op c l r. op \<in> {K2_EQ, K2_GT, K2_GTE, K2_LT, K2_LTE} \<longrightarrow>
         ev (makeExpression op [makeValueReference c, makeValueLiteral l] []) r = compares cmp (k2_accepts op) r c l)
    \<and> (\<forall>c r. ev (makeExpression K2_IS_NULL [makeValueReference c] []) r = (r c = None))"

text \<open>
  Conditions the adapter can send: a comparison of a column with a constant, a \<open>between\<close>
  whose first bound is boolean, and non-empty conjunctions of conditions it can send.
\<close>
definition literal_ok :: "sql_value \<Rightarrow> bool" where
  "literal_ok v = (\<not> sv_null v \<and> (\<exists>l. literal_of (sv_type v) (sv_data v) = returnE l))"

definition leaf_ok :: "Opcode \<Rightarrow> PgExpr list \<Rightarrow> bool" where
  "leaf_ok oc args = (case args of
      [PgColumnRef _ _ _ _, PgConstant oc1 _ v] \<Rightarrow>
        oc \<in> {PG_EXPR_EQ, PG_EXPR_GE, PG_EXPR_GT, PG_EXPR_LE, PG_EXPR_LT} \<and> oc1 = PG_EXPR_CONSTANT
        \<and> (literal_ok v \<or> oc = PG_EXPR_EQ \<and> sv_null v)
    | _ \<Rightarrow> False)"

definition between_ok :: "PgExpr list \<Rightarrow> bool" where
  "between_ok args = (case args of
      [PgColumnRef _ _ _ _, PgConstant oc1 _ v1, PgConstant oc2 _ v2] \<Rightarrow>
        oc1 = PG_EXPR_CONSTANT \<and> oc2 = PG_EXPR_CONSTANT \<and> literal_ok v1 \<and> sv_type v1 = VT_BOOL \<and> literal_ok v2
    | _ \<Rightarrow> False)"

fun translatable :: "PgExpr \<Rightarrow> bool" where
  "translatable (PgOperator oc name te args) =
    (if oc = PG_EXPR_AND then args \<noteq> [] \<and> (\<forall>a \<in> set args. translatable a)
     else if oc = PG_EXPR_BETWEEN then between_ok args else leaf_ok oc args)"
| "translatable _ = False"

subsection \<open>Lemmas\<close>

lemma filter_laws_and: "filter_laws cmp ev \<Longrightarrow> ev (makeExpression K2_AND [] es) r = (\<forall>e \<in> set es. ev e r)"
  by (simp add: filter_laws_def)

lemma filter_laws_cmp: "filter_laws cmp ev \<Longrightarrow> op \<in> {K2_EQ, K2_GT, K2_GTE, K2_LT, K2_LTE} \<Longrightarrow>
    ev (makeExpression op [makeValueReference c, makeValueLiteral l] []) r = compares cmp (k2_accepts op) r c l"
  unfolding filter_laws_def by blast

lemma filter_laws_null: "filter_laws cmp ev \<Longrightarrow> ev (makeExpression K2_IS_NULL [makeValueReference c] []) r = (r c = None)"
  unfolding filter_laws_def by blast

lemma the_literal_eq: "literal_of (sv_type v) (sv_data v) = returnE l \<Longrightarrow> the_literal v = l"
  by (simp add: the_literal_def returnE_def)

lemma leaf_ok_shape:
  assumes "leaf_ok oc args"
  obtains n c te m te' v where "args = [PgColumnRef n c te m, PgConstant PG_EXPR_CONSTANT te' v]"
    "oc \<in> {PG_EXPR_EQ, PG_EXPR_GE, PG_EXPR_GT, PG_EXPR_LE, PG_EXPR_LT}"
    "literal_ok v \<or> oc = PG_EXPR_EQ \<and> sv_null v"
proof -
  obtain a b where args: "args = [a, b]" using assms
    by (cases args; cases "tl args"; cases "tl (tl args)") (auto simp: leaf_ok_def split: PgExpr.splits)
  with assms that show ?thesis by (cases a; cases b) (auto simp: leaf_ok_def)
qed

lemma leaf_correct:
  assumes "filter_laws cmp ev" "leaf_ok oc args"
  shows "\<exists>k. ToK2BinaryLogicOperator oc args = returnE k \<and> (\<forall>r. ev k r = sql_leaf cmp oc args r)"
proof -
  from assms(2) obtain n c te m te' v where args: "args = [PgColumnRef n c te m, PgConstant PG_EXPR_CONSTANT te' v]"
    and oc: "oc \<in> {PG_EXPR_EQ, PG_EXPR_GE, PG_EXPR_GT, PG_EXPR_LE, PG_EXPR_LT}"
    and v: "literal_ok v \<or> oc = PG_EXPR_EQ \<and> sv_null v"
    by (rule leaf_ok_shape)
  note defs = args ToK2BinaryLogicOperator_def is_colref_def is_constant_def as_value_def ToK2ColumnRef_def
    ToK2Value_def sql_leaf_def
  have op: "ToK2OperationType oc \<in> {K2_EQ, K2_GT, K2_GTE, K2_LT, K2_LTE}" using oc by auto
  have same: "k2_accepts (ToK2OperationType oc) = sql_accepts oc"
    using oc by (auto simp: k2_accepts_def sql_accepts_def)
  from v show ?thesis
  proof
    assume "literal_ok v"
    then obtain l where l: "\<not> sv_null v" "literal_of (sv_type v) (sv_data v) = returnE l"
      by (auto simp: literal_ok_def)
    then show ?thesis using filter_laws_cmp [OF assms(1) op] same the_literal_eq [OF l(2)]
      by (cases "oc = PG_EXPR_EQ") (simp_all add: defs)
  next
    assume "oc = PG_EXPR_EQ \<and> sv_null v"
    then show ?thesis using filter_laws_null [OF assms(1)] by (simp add: defs)
  qed
qed

lemma leaf_returns: "ToK2BinaryLogicOperator oc args = returnE k \<Longrightarrow> \<forall>a \<in> set args. wf_expr a \<Longrightarrow>
    oc \<in> {PG_EXPR_EQ, PG_EXPR_GE, PG_EXPR_GT, PG_EXPR_LE, PG_EXPR_LT} \<Longrightarrow> leaf_ok oc args"
  by (auto simp: ToK2BinaryLogicOperator_def leaf_ok_def literal_ok_def ToK2Value_def as_value_def
      is_colref_iff is_constant_iff split: list.splits if_splits option.splits)

lemma Compare_pointer_bool: "literal_ok v \<Longrightarrow> sv_type v = VT_BOOL \<Longrightarrow> \<exists>c \<le> 0. Compare_pointer v v2 = returnE c"
  by (cases "sv_data v") (auto simp: literal_ok_def Compare_pointer_def Compare_def SqlValue_bool_def eq_less_compare_def returnE_def)

lemma Compare_pointer_returns: "Compare_pointer v v2 = returnE c \<Longrightarrow> sv_type v = VT_BOOL"
  by (auto simp: Compare_pointer_def Compare_def SqlValue_bool_def split: if_splits)

lemmas between_defs = ToK2BetweenOperator_def is_colref_def is_constant_def as_value_def ToK2ColumnRef_def ToK2Value_def

text \<open>A boolean first bound is never larger than \<open>true\<close>, so the bounds are sent as they are written.\<close>
lemma between_sent:
  assumes "literal_ok v1" "sv_type v1 = VT_BOOL" "literal_ok v2"
  shows "ToK2BetweenOperator [PgColumnRef n c te m, PgConstant PG_EXPR_CONSTANT te1 v1, PgConstant PG_EXPR_CONSTANT te2 v2]
    = returnE (makeExpression K2_AND []
        [makeExpression K2_GTE [makeValueReference c, makeValueLiteral (the_literal v1)] [],
         makeExpression K2_LTE [makeValueReference c, makeValueLiteral (the_literal v2)] []])"
proof -
  obtain d where "d \<le> 0" "Compare_pointer v1 v2 = returnE d" using Compare_pointer_bool [OF assms(1,2)] by blast
  then show ?thesis
    using assms by (auto simp: between_defs literal_ok_def the_literal_eq)
qed

lemma between_ok_shape:
  assumes "between_ok args"
  obtains n c te m te1 v1 te2 v2 where
    "args = [PgColumnRef n c te m, PgConstant PG_EXPR_CONSTANT te1 v1, PgConstant PG_EXPR_CONSTANT te2 v2]"
    "literal_ok v1" "sv_type v1 = VT_BOOL" "literal_ok v2"
proof -
  obtain a b d where args: "args = [a, b, d]" using assms
    by (cases args; cases "tl args"; cases "tl (tl args)"; cases "tl (tl (tl args))")
      (auto simp: between_ok_def split: PgExpr.splits)
  with assms that show ?thesis by (cases a; cases b; cases d) (auto simp: between_ok_def)
qed

lemma between_correct:
  assumes "filter_laws cmp ev" "between_ok args"
  shows "\<exists>k. ToK2BetweenOperator args = returnE k \<and> (\<forall>r. ev k r = sql_between cmp args r)"
proof -
  from assms(2) obtain n c te m te1 v1 te2 v2 where
    args: "args = [PgColumnRef n c te m, PgConstant PG_EXPR_CONSTANT te1 v1, PgConstant PG_EXPR_CONSTANT te2 v2]"
    and ok: "literal_ok v1" "sv_type v1 = VT_BOOL" "literal_ok v2"
    by (rule between_ok_shape)
  have "k2_accepts K2_GTE = sql_accepts PG_EXPR_GE" "k2_accepts K2_LTE = sql_accepts PG_EXPR_LE"
    by (auto simp: k2_accepts_def sql_accepts_def)
  then show ?thesis
    using between_sent [OF ok] filter_laws_and [OF assms(1)] filter_laws_cmp [OF assms(1)]
    by (simp add: args sql_between_def)
qed

lemma between_returns: "ToK2BetweenOperator args = returnE k \<Longrightarrow> \<forall>a \<in> set args. wf_expr a \<Longrightarrow> between_ok args"
proof -
  assume k: "ToK2BetweenOperator args = returnE k" and wf: "\<forall>a \<in> set args. wf_expr a"
  then obtain a0 a1 a2 where args: "args = [a0, a1, a2]"
    by (auto simp: ToK2BetweenOperator_def split: list.splits)
  with k have shape: "is_colref a0" "is_constant a1" "is_constant a2"
    by (auto simp: ToK2BetweenOperator_def split: if_splits)
  with wf args obtain n c te m te1 v1 te2 v2 where
    as: "a0 = PgColumnRef n c te m" "a1 = PgConstant PG_EXPR_CONSTANT te1 v1" "a2 = PgConstant PG_EXPR_CONSTANT te2 v2"
    by (auto simp: is_colref_iff is_constant_iff)
  with k args shape have "\<exists>d. Compare_pointer v1 v2 = returnE d" and ok: "literal_ok v1 \<and> literal_ok v2"
    by (auto simp: ToK2BetweenOperator_def as_value_def ToK2Value_def literal_ok_def Let_def split: if_splits)
  then show ?thesis by (auto simp: between_ok_def args as dest: Compare_pointer_returns)
qed

lemma and_or_correct:
  assumes "\<And>a. a \<in> set args \<Longrightarrow> \<exists>k. ToK2Expression a = returnE k \<and> (\<forall>r. ev k r = P a r)"
    and "args \<noteq> []" and "filter_laws cmp ev"
  shows "\<exists>k. ToK2AndOrOperator K2_AND args = returnE k \<and> (\<forall>r. ev k r = (\<forall>a \<in> set args. P a r))"
  using assms(1,2)
proof (induction args rule: induct_list012)
  case (3 b a rest)
  obtain e1 where e1: "ToK2Expression b = returnE e1" "\<forall>r. ev e1 r = P b r" using "3.prems"(1) by force
  obtain e2 where e2: "ToK2AndOrOperator K2_AND (a # rest) = returnE e2"
      "\<forall>r. ev e2 r = (\<forall>x \<in> set (a # rest). P x r)" using "3.IH"(2) "3.prems"(1) by force
  then have "ToK2AndOrOperator K2_AND (b # a # rest) = returnE (makeExpression K2_AND [] [e1, e2])"
    using e1 by (cases rest) simp_all
  then show ?case using e1(2) e2(2) filter_laws_and [OF assms(3)] by (intro exI conjI) (assumption, simp)
qed auto

lemma and_or_returns:
  "ToK2AndOrOperator op args = returnE k \<Longrightarrow> args \<noteq> [] \<and> (\<forall>a \<in> set args. \<exists>k. ToK2Expression a = returnE k)"
proof (induction args arbitrary: k rule: induct_list012)
  case (3 b a rest)
  then show ?case by (cases rest) auto
qed auto

lemma translatable_correct:
  assumes "filter_laws cmp ev"
  shows "translatable e \<Longrightarrow> \<exists>k. ToK2Expression e = returnE k \<and> (\<forall>r. ev k r = sql_holds cmp e r)"
proof (induction e)
  case (PgOperator oc name te args)
  show ?case
  proof (cases "oc = PG_EXPR_AND")
    case True
    then have "\<exists>k. ToK2AndOrOperator K2_AND (rev args) = returnE k \<and>
        (\<forall>r. ev k r = (\<forall>a \<in> set (rev args). sql_holds cmp a r))"
      using PgOperator by (intro and_or_correct [OF _ _ assms]) auto
    with True show ?thesis by simp
  next
    case no_and: False
    show ?thesis
    proof (cases "oc = PG_EXPR_BETWEEN")
      case True
      with PgOperator.prems between_correct [OF assms, of args] show ?thesis by simp
    next
      case False
      with no_and have "leaf_ok oc args" using PgOperator.prems by simp
      with no_and False leaf_correct [OF assms this] show ?thesis by (auto elim: leaf_ok_shape)
    qed
  qed
qed auto

lemma returns_translatable:
  "wf_expr e \<Longrightarrow> ToK2Expression e = returnE k \<Longrightarrow> translatable e"
proof (induction e arbitrary: k)
  case (PgOperator oc name te args)
  show ?case
  proof (cases "oc = PG_EXPR_AND")
    case True
    with PgOperator.prems have "args \<noteq> [] \<and> (\<forall>a \<in> set args. \<exists>k. ToK2Expression a = returnE k)"
      by (auto dest: and_or_returns)
    with True PgOperator show ?thesis by auto
  next
    case False
    with PgOperator.prems show ?thesis by (auto intro: leaf_returns between_returns split: if_splits)
  qed
qed (auto split: if_splits)

subsection \<open>Properties\<close>

text \<open>(C11)
  For a condition built by the constructors of the gate (an operator carries the opcode of
  its name, a constant is marked as one), and an evaluator with the documented laws: the
  adapter translates exactly the conditions of the supported shape, which are the
  comparisons of a column with a non-null constant, the equality of a column with null, the
  \<open>between\<close> conditions on a column with constant non-null bounds of which the first is
  boolean, and the non-empty conjunctions of such conditions.  The filter it sends accepts
  exactly the rows that satisfy the condition, equality with null being the null test and
  \<open>between\<close> the two comparisons with its bounds as they are written.
\<close>
theorem ToK2Expression_correct:
  assumes "filter_laws cmp ev" "wf_expr e"
  shows "((\<exists>k. ToK2Expression e = returnE k) \<longleftrightarrow> translatable e)
    \<and> (\<forall>k r. ToK2Expression e = returnE k \<longrightarrow> ev k r = sql_holds cmp e r)"
  using translatable_correct [OF assms(1), of e] returns_translatable [OF assms(2)] by fastforce

text \<open>An evaluator that has the documented laws, and a condition to apply the theorem to.\<close>
fun int_cmp :: literal_order where
  "int_cmp (L_int64 x) (L_int64 y) = Some (sint x - sint y)"
| "int_cmp _ _ = None"

fun eval_filter :: "k2_expression \<Rightarrow> row \<Rightarrow> bool" where
  "eval_filter (makeExpression op vs es) r =
    (if op = K2_AND then (\<forall>e \<in> set es. eval_filter e r) else
     case vs of
       [makeValueReference c] \<Rightarrow> op = K2_IS_NULL \<and> r c = None
     | [makeValueReference c, makeValueLiteral l] \<Rightarrow> compares int_cmp (k2_accepts op) r c l
     | _ \<Rightarrow> False)"

lemma eval_filter_laws: "filter_laws int_cmp eval_filter"
  by (auto simp: filter_laws_def)

definition int64_entity :: type_entity where
  "int64_entity = \<lparr>te_type = DT_INT64, te_datum_to_k2pg = C_i64\<rparr>"

definition column_cond :: "string \<Rightarrow> Opcode \<Rightarrow> string \<Rightarrow> 64 word \<Rightarrow> PgExpr" where
  "column_cond name oc c w = PgOperator oc name int64_entity
     [PgColumnRef 1 c int64_entity 0, PgConstant PG_EXPR_CONSTANT int64_entity (SqlValue_int w)]"

definition example_condition :: PgExpr where
  "example_condition = PgOperator PG_EXPR_AND ''and'' int64_entity
     [column_cond ''='' PG_EXPR_EQ ''a'' 3, column_cond ''<'' PG_EXPR_LT ''b'' 7, column_cond ''>='' PG_EXPR_GE ''b'' 2]"

theorem ToK2Expression_correct_witness:
  "\<exists>k. ToK2Expression example_condition = returnE k
    \<and> (\<forall>r. eval_filter k r = sql_holds int_cmp example_condition r)"
proof -
  have "wf_expr example_condition" "translatable example_condition"
    by (simp_all add: example_condition_def column_cond_def kOperatorNames_def expr_type_ok_def int64_entity_def
        leaf_ok_def literal_ok_def SqlValue_int_def)
  with ToK2Expression_correct [OF eval_filter_laws this(1)] show ?thesis by blast
qed

definition between_cond :: "string \<Rightarrow> sql_value \<Rightarrow> sql_value \<Rightarrow> PgExpr" where
  "between_cond c v1 v2 = PgOperator PG_EXPR_BETWEEN ''between'' int64_entity
     [PgColumnRef 1 c int64_entity 0, PgConstant PG_EXPR_CONSTANT int64_entity v1,
      PgConstant PG_EXPR_CONSTANT int64_entity v2]"

text \<open>(C36)
  The bounds of a \<open>between\<close> condition on a column are never compared with each other: the
  first one is compared with a pointer, which is read as the boolean \<open>true\<close>.  With two
  non-null constants as bounds, a first bound that is not boolean aborts the process,
  whatever the second one is.  Boolean bounds are sent in the order they are written, the
  first as the lower and the second as the upper bound, for all four pairs; in particular
  the bounds \<open>true\<close> and \<open>false\<close> are not exchanged as the code means to do.
\<close>
theorem between_compares_with_pointer:
  assumes "\<not> sv_null v1" "\<not> sv_null v2"
  shows "(sv_type v1 \<noteq> VT_BOOL \<longrightarrow> ToK2Expression (between_cond c v1 v2) = None)
    \<and> ToK2Expression (between_cond c (SqlValue_bool b1) (SqlValue_bool b2)) = returnE (makeExpression K2_AND []
        [makeExpression K2_GTE [makeValueReference c, makeValueLiteral (L_bool b1)] [],
         makeExpression K2_LTE [makeValueReference c, makeValueLiteral (L_bool b2)] []])"
proof
  show "sv_type v1 \<noteq> VT_BOOL \<longrightarrow> ToK2Expression (between_cond c v1 v2) = None"
    using assms by (simp add: between_cond_def between_defs Compare_pointer_def Compare_def SqlValue_bool_def)
  have "literal_ok (SqlValue_bool b)" "the_literal (SqlValue_bool b) = L_bool b" "sv_type (SqlValue_bool b) = VT_BOOL" for b
    by (simp_all add: literal_ok_def SqlValue_bool_def the_literal_def returnE_def)
  then show "ToK2Expression (between_cond c (SqlValue_bool b1) (SqlValue_bool b2)) = returnE (makeExpression K2_AND []
        [makeExpression K2_GTE [makeValueReference c, makeValueLiteral (L_bool b1)] [],
         makeExpression K2_LTE [makeValueReference c, makeValueLiteral (L_bool b2)] []])"
    by (simp add: between_cond_def between_sent)
qed

theorem between_compares_with_pointer_witness:
  "ToK2Expression (between_cond ''a'' (SqlValue_int 1) (SqlValue_int 5)) = None
   \<and> ToK2Expression (between_cond ''a'' (SqlValue_bool True) (SqlValue_bool False)) = returnE (makeExpression K2_AND []
        [makeExpression K2_GTE [makeValueReference ''a'', makeValueLiteral (L_bool True)] [],
         makeExpression K2_LTE [makeValueReference ''a'', makeValueLiteral (L_bool False)] []])"
  using between_compares_with_pointer [of "SqlValue_int 1" "SqlValue_int 5" "''a''" True False]
  by (simp add: SqlValue_int_def)

end
