(* ===== verification/Adapter_Record.thy ===== *)
theory Adapter_Record
  imports Adapter_Expr "HOL-Library.Multiset"
begin

text \<open>
  Records of the storage platform as the adapter fills them (pggate/k2_adapter.cc):
  serialisation of values, of bound key and value columns, and the start and end
  records of a scan that the range conditions of a request determine.  The record
  type belongs to the platform; the calls the adapter makes on a record are
  the parameter \<open>skv\<close>.
\<close>

subsection \<open>The record interface\<close>

record skv_schema =
  skv_fields :: "string list"
  skv_partition_keys :: "nat list"
  skv_range_keys :: "nat list"

text \<open>
  \<open>skv_next\<close> is \<open>serializeNext\<close>, \<open>skv_null\<close> is \<open>serializeNull\<close>; both may throw.
\<close>
record 'r skv =
  skv_next :: "k2_literal \<Rightarrow> 'r \<Rightarrow> std_exception + 'r"
  skv_null :: "'r \<Rightarrow> std_exception + 'r"
  skv_seek :: "nat \<Rightarrow> 'r \<Rightarrow> 'r"
  skv_cursor :: "'r \<Rightarrow> nat"
  skv_schema_of :: "'r \<Rightarrow> skv_schema"

definition SKV_FIELD_OFFSET :: nat where "SKV_FIELD_OFFSET = 2"
definition VIRTUAL_COLUMN :: int where "VIRTUAL_COLUMN = -8"

definition SerializeValueToSKVRecord :: "'r skv \<Rightarrow> sql_value \<Rightarrow> 'r \<Rightarrow> 'r run" where
  "SerializeValueToSKVRecord S v r =
    (if sv_null v then Some (skv_null S r)
     else if sv_type v = VT_UNKNOWN then throwE Logic_error
     else bindE (literal_of (sv_type v) (sv_data v)) (\<lambda>l. Some (skv_next S l r)))"

subsection \<open>Bound columns\<close>

record BindVariable =
  bv_idx :: int
  bv_expr :: "PgExpr option"

text \<open>
  Keys of a record: the two object ids, then the bound key columns up to the first
  unbound one.
\<close>
fun serialize_keys :: "'r skv \<Rightarrow> BindVariable list \<Rightarrow> 'r \<Rightarrow> 'r run" where
  "serialize_keys S [] r = returnE r"
| "serialize_keys S (b # bs) r = (case bv_expr b of
      None \<Rightarrow> returnE r
    | Some e \<Rightarrow> if \<not> is_constant e then throwE Logic_error
        else bindE (as_value e) (\<lambda>v. bindE (SerializeValueToSKVRecord S v r) (serialize_keys S bs)))"

fun serialize_nulls :: "'r skv \<Rightarrow> nat \<Rightarrow> 'r \<Rightarrow> 'r run" where
  "serialize_nulls S 0 r = returnE r"
| "serialize_nulls S (Suc n) r = bindE (Some (skv_null S r)) (serialize_nulls S n)"

definition fill_key_record :: "'r skv \<Rightarrow> oid \<Rightarrow> oid \<Rightarrow> BindVariable list \<Rightarrow> bool \<Rightarrow> 'r \<Rightarrow> 'r run" where
  "fill_key_record S base_oid index_oid keys skip_keys r =
    (if skip_keys then serialize_nulls S (length (skv_partition_keys (skv_schema_of S r))) r
     else bindE (Some (skv_next S (L_int64 (ucast base_oid)) r)) (\<lambda>r1.
          bindE (Some (skv_next S (L_int64 (ucast index_oid)) r1)) (serialize_keys S keys)))"

text \<open>
  Loops \<open>while (cursor != n) serializeNull\<close> and \<open>while (cursor < n) serializeNull\<close>.
\<close>
partial_function (option) skip_to :: "'r skv \<Rightarrow> nat \<Rightarrow> 'r \<Rightarrow> 'r run" where
  "skip_to S n r = (if skv_cursor S r = n then returnE r else bindE (Some (skv_null S r)) (skip_to S n))"

partial_function (option) skip_until :: "'r skv \<Rightarrow> nat \<Rightarrow> 'r \<Rightarrow> 'r run" where
  "skip_until S n r = (if skv_cursor S r < n then bindE (Some (skv_null S r)) (skip_until S n) else returnE r)"

text \<open>
  The value columns, already sorted by index.  A null binding is refused, a column
  without an expression is dereferenced, a negative index fails an assertion.  Returned
  are the record and the fields written.
\<close>
fun serialize_values :: "'r skv \<Rightarrow> BindVariable option list \<Rightarrow> 'r \<times> nat list \<Rightarrow> ('r \<times> nat list) run" where
  "serialize_values S [] (r, ws) = returnE (r, ws)"
| "serialize_values S (None # bs) (r, ws) = throwE Logic_error"
| "serialize_values S (Some b # bs) (r, ws) = (case bv_expr b of
      None \<Rightarrow> None
    | Some e \<Rightarrow>
       if \<not> is_constant e then throwE Logic_error
       else if bv_idx b < 0 then None
       else let i = nat (bv_idx b) + SKV_FIELD_OFFSET; nkeys = length (skv_partition_keys (skv_schema_of S r)) in
         if i < nkeys \<and> nkeys \<le> skv_cursor S r then serialize_values S bs (r, ws)
         else bindE (skip_to S i r) (\<lambda>r1. bindE (as_value e) (\<lambda>v.
              bindE (SerializeValueToSKVRecord S v r1) (\<lambda>r2. serialize_values S bs (r2, ws @ [i])))))"

text \<open>
  Sorting by index: the comparison dereferences both bindings, so that a null binding
  among several has no meaning, while a single one is never compared.  Bindings of equal
  index, whose order \<open>std::sort\<close> leaves open, keep theirs.
\<close>
definition sort_bindings :: "BindVariable option list \<Rightarrow> BindVariable option list checked" where
  "sort_bindings values = (if length values < 2 then Some values
     else if None \<in> set values then None
     else Some (map Some (sort_key bv_idx (map the values))))"

definition SerializeSKVValueFields :: "'r skv \<Rightarrow> BindVariable option list \<Rightarrow> 'r \<Rightarrow> ('r \<times> nat list) run" where
  "SerializeSKVValueFields S values r = (case sort_bindings values of
      None \<Rightarrow> None
    | Some bs \<Rightarrow> bindE (serialize_values S bs (r, [])) (\<lambda>(r1, ws).
        bindE (skip_until S (length (skv_fields (skv_schema_of S r1))) r1) (\<lambda>r2. returnE (r2, ws))))"

subsection \<open>Range conditions\<close>

record 'r range_state =
  rs_idx :: int
  rs_branch :: bool
  rs_left :: "PgExpr list"
  rs_start :: 'r
  rs_end :: 'r

definition arg_at :: "PgExpr \<Rightarrow> nat \<Rightarrow> PgExpr run" where
  "arg_at e i = (case getArgs e of None \<Rightarrow> None
     | Some args \<Rightarrow> if i < length args then returnE (args ! i) else None)"

definition constant_at :: "PgExpr \<Rightarrow> nat \<Rightarrow> sql_value run" where
  "constant_at e i = bindE (arg_at e i) (\<lambda>a. if is_constant a then as_value a else throwE Invalid_argument)"

text \<open>Column name of a child condition, as the key of the multimap.\<close>
definition child_column :: "PgExpr \<Rightarrow> string run" where
  "child_column e = bindE (arg_at e 0) (\<lambda>a. if is_colref a
     then (case attr_name a of None \<Rightarrow> None | Some s \<Rightarrow> returnE s) else throwE Invalid_argument)"

fun children_by_col_name :: "PgExpr list \<Rightarrow> (string \<times> PgExpr) list run" where
  "children_by_col_name [] = returnE []"
| "children_by_col_name (e # es) = bindE (child_column e) (\<lambda>c.
     bindE (children_by_col_name es) (\<lambda>m. returnE ((c, e) # m)))"

text \<open>
  The conditions in the order of the record's fields; entries of a multimap with
  equal keys keep their insertion order.
\<close>
definition sorted_args :: "string list \<Rightarrow> (string \<times> PgExpr) list \<Rightarrow> PgExpr list" where
  "sorted_args fs m =
    concat (map (\<lambda>f. map snd (filter (\<lambda>p. fst p = f) m)) (drop SKV_FIELD_OFFSET fs))"

text \<open>Position of a field; the subscript operator of the map yields 0 for an absent name.\<close>
fun field_index :: "string list \<Rightarrow> nat \<Rightarrow> string \<Rightarrow> int option" where
  "field_index [] i f = None"
| "field_index (g # gs) i f = (case field_index gs (i + 1) f of
      Some k \<Rightarrow> Some k
    | None \<Rightarrow> if g = f \<and> SKV_FIELD_OFFSET \<le> i then Some (int i) else None)"

definition field_map :: "string list \<Rightarrow> string \<Rightarrow> int" where
  "field_map fs f = (case field_index fs 0 f of None \<Rightarrow> 0 | Some k \<Rightarrow> k)"

definition adjacent :: "int \<Rightarrow> int \<Rightarrow> bool" where
  "adjacent cur start_idx = (cur - start_idx = 0 \<or> cur - start_idx = 1)"

definition leave :: "PgExpr \<Rightarrow> bool \<Rightarrow> 'r range_state \<Rightarrow> 'r range_state run" where
  "leave e branch st = returnE (st\<lparr>rs_left := rs_left st @ [e], rs_branch := branch\<rparr>)"

definition range_eq :: "'r skv \<Rightarrow> int \<Rightarrow> PgExpr \<Rightarrow> 'r range_state \<Rightarrow> 'r range_state run" where
  "range_eq S cur e st = bindE (constant_at e 1) (\<lambda>v.
     if adjacent cur (rs_idx st) then
       bindE (SerializeValueToSKVRecord S v (rs_start st)) (\<lambda>s.
       bindE (SerializeValueToSKVRecord S v (rs_end st)) (\<lambda>e1.
         returnE (st\<lparr>rs_idx := cur, rs_start := s, rs_end := e1\<rparr>)))
     else leave e True st)"

definition range_ge :: "'r skv \<Rightarrow> int \<Rightarrow> PgExpr \<Rightarrow> 'r range_state \<Rightarrow> 'r range_state run" where
  "range_ge S cur e st = bindE (constant_at e 1) (\<lambda>v.
     if sv_type v = VT_INT \<and> adjacent cur (rs_idx st) then
       bindE (SerializeValueToSKVRecord S v (rs_start st)) (\<lambda>s.
         leave e False (st\<lparr>rs_idx := cur, rs_start := s\<rparr>))
     else leave e True st)"

definition range_lt :: "'r skv \<Rightarrow> int \<Rightarrow> PgExpr \<Rightarrow> 'r range_state \<Rightarrow> 'r range_state run" where
  "range_lt S cur e st = bindE (constant_at e 1) (\<lambda>v.
     if sv_type v = VT_INT \<and> adjacent cur (rs_idx st) then
       bindE (SerializeValueToSKVRecord S v (rs_end st)) (\<lambda>e1.
         leave e False (st\<lparr>rs_idx := cur, rs_end := e1\<rparr>))
     else leave e True st)"

definition range_le :: "'r skv \<Rightarrow> int \<Rightarrow> PgExpr \<Rightarrow> 'r range_state \<Rightarrow> 'r range_state run" where
  "range_le S cur e st = bindE (constant_at e 1) (\<lambda>v.
     if sv_type v = VT_INT \<and> adjacent cur (rs_idx st) then
       (case IsMaxInteger v of
          None \<Rightarrow> None
        | Some True \<Rightarrow> leave e True (st\<lparr>rs_idx := cur\<rparr>)
        | Some False \<Rightarrow> bindE (UpperBound v) (\<lambda>u.
            bindE (SerializeValueToSKVRecord S u (rs_end st)) (\<lambda>e1.
              leave e False (st\<lparr>rs_idx := cur, rs_end := e1\<rparr>))))
     else leave e True st)"

definition range_between :: "'r skv \<Rightarrow> int \<Rightarrow> PgExpr \<Rightarrow> 'r range_state \<Rightarrow> 'r range_state run" where
  "range_between S cur e st = (case getArgs e of None \<Rightarrow> None | Some args \<Rightarrow>
     if length args \<noteq> 3 then throwE Invalid_argument
     else if \<not> is_constant (args ! 1) \<or> \<not> is_constant (args ! 2) then throwE Invalid_argument
     else bindE (as_value (args ! 1)) (\<lambda>v1. bindE (as_value (args ! 2)) (\<lambda>v2.
       if sv_null v1 \<or> sv_null v2 then None
       else if sv_type v1 = VT_INT \<and> sv_type v2 = VT_INT then
         bindE (Compare_pointer v1 v2) (\<lambda>c.
           let lower = (if c > 0 then v2 else v1); higher = (if c > 0 then v1 else v2) in
           if adjacent cur (rs_idx st) then
             bindE (SerializeValueToSKVRecord S lower (rs_start st)) (\<lambda>s.
             bindE (SerializeValueToSKVRecord S higher (rs_end st)) (\<lambda>e1.
               leave e False (st\<lparr>rs_idx := cur, rs_start := s, rs_end := e1\<rparr>)))
           else leave e True st)
       else leave e True st)))"

definition range_step :: "'r skv \<Rightarrow> (string \<Rightarrow> int) \<Rightarrow> PgExpr \<Rightarrow> 'r range_state \<Rightarrow> 'r range_state run" where
  "range_step S fmap e st =
    (if rs_branch st then leave e True st
     else bindE (child_column e) (\<lambda>c.
       if opcode e = PG_EXPR_EQ then range_eq S (fmap c) e st
       else if opcode e = PG_EXPR_GE \<or> opcode e = PG_EXPR_GT then range_ge S (fmap c) e st
       else if opcode e = PG_EXPR_LT then range_lt S (fmap c) e st
       else if opcode e = PG_EXPR_LE then range_le S (fmap c) e st
       else if opcode e = PG_EXPR_BETWEEN then range_between S (fmap c) e st
       else leave e True st))"

fun range_loop :: "'r skv \<Rightarrow> (string \<Rightarrow> int) \<Rightarrow> PgExpr list \<Rightarrow> 'r range_state \<Rightarrow> 'r range_state run" where
  "range_loop S fmap [] st = returnE st"
| "range_loop S fmap (e # es) st = bindE (range_step S fmap e st) (range_loop S fmap es)"

text \<open>Returned are the status, the conditions left over and the two records.\<close>
definition HandleRangeConditions ::
  "'r skv \<Rightarrow> PgExpr option \<Rightarrow> 'r \<Rightarrow> 'r \<Rightarrow> (code \<times> PgExpr list \<times> 'r \<times> 'r) run" where
  "HandleRangeConditions S range_conds start end1 = (case range_conds of
      None \<Rightarrow> returnE (kOk, [], start, end1)
    | Some c \<Rightarrow>
       if opcode c \<noteq> PG_EXPR_AND then returnE (kInvalidCommand, [], start, end1)
       else (case getArgs c of None \<Rightarrow> None | Some args \<Rightarrow>
         if args = [] then returnE (kOk, [], start, end1)
         else bindE (children_by_col_name args) (\<lambda>m.
           let fs = skv_fields (skv_schema_of S start) in
           bindE (range_loop S (field_map fs) (sorted_args fs m)
             \<lparr>rs_idx = int SKV_FIELD_OFFSET - 1, rs_branch = False, rs_left = [],
              rs_start = skv_seek S SKV_FIELD_OFFSET start, rs_end = skv_seek S SKV_FIELD_OFFSET end1\<rparr>)
           (\<lambda>st. returnE (kOk, rs_left st, rs_start st, rs_end st)))))"

subsection \<open>Laws of the record\<close>

text \<open>
  What the platform documents of a record: \<open>serializeNext\<close> stores a value of the
  type of the field at the cursor (\<open>fits\<close>), \<open>serializeNull\<close> leaves that field null, both move
  the cursor to the next field, and \<open>seekField\<close> only moves the cursor.  \<open>get\<close> reads a
  field.
\<close>
definition steps_to :: "'r skv \<Rightarrow> ('r \<Rightarrow> nat \<Rightarrow> k2_literal option) \<Rightarrow> k2_literal option \<Rightarrow> 'r \<Rightarrow> 'r \<Rightarrow> bool" where
  "steps_to S get l r r' \<longleftrightarrow> skv_cursor S r' = Suc (skv_cursor S r) \<and> skv_schema_of S r' = skv_schema_of S r
     \<and> get r' = (get r)(skv_cursor S r := l)"

definition num_fields :: "'r skv \<Rightarrow> 'r \<Rightarrow> nat" where
  "num_fields S r = length (skv_fields (skv_schema_of S r))"

definition skv_laws :: "'r skv \<Rightarrow> ('r \<Rightarrow> nat \<Rightarrow> k2_literal option) \<Rightarrow> (skv_schema \<Rightarrow> nat \<Rightarrow> k2_literal \<Rightarrow> bool) \<Rightarrow> bool" where
  "skv_laws S get fits \<longleftrightarrow>
    (\<forall>l r. skv_cursor S r < num_fields S r \<and> fits (skv_schema_of S r) (skv_cursor S r) l \<longrightarrow>
       (\<exists>r'. skv_next S l r = Inr r' \<and> steps_to S get (Some l) r r'))
    \<and> (\<forall>r. skv_cursor S r < num_fields S r \<longrightarrow> (\<exists>r'. skv_null S r = Inr r' \<and> steps_to S get None r r'))
    \<and> (\<forall>n r. n \<le> num_fields S r \<longrightarrow> skv_cursor S (skv_seek S n r) = n
         \<and> skv_schema_of S (skv_seek S n r) = skv_schema_of S r \<and> get (skv_seek S n r) = get r)"

definition stored :: "sql_value \<Rightarrow> k2_literal option" where
  "stored v = (if sv_null v then None else Some (the_literal v))"

definition storable :: "(skv_schema \<Rightarrow> nat \<Rightarrow> k2_literal \<Rightarrow> bool) \<Rightarrow> skv_schema \<Rightarrow> nat \<Rightarrow> sql_value \<Rightarrow> bool" where
  "storable fits sc i v = (sv_null v \<or> literal_ok v \<and> fits sc i (the_literal v))"

lemma skv_laws_null: "skv_laws S get fits \<Longrightarrow> skv_cursor S r < num_fields S r \<Longrightarrow>
    \<exists>r'. skv_null S r = Inr r' \<and> steps_to S get None r r'"
  unfolding skv_laws_def by blast

lemma skv_laws_next: "skv_laws S get fits \<Longrightarrow> skv_cursor S r < num_fields S r \<Longrightarrow>
    fits (skv_schema_of S r) (skv_cursor S r) l \<Longrightarrow> \<exists>r'. skv_next S l r = Inr r' \<and> steps_to S get (Some l) r r'"
  unfolding skv_laws_def by blast

lemma skv_laws_seek: "skv_laws S get fits \<Longrightarrow> n \<le> num_fields S r \<Longrightarrow> skv_cursor S (skv_seek S n r) = n
    \<and> skv_schema_of S (skv_seek S n r) = skv_schema_of S r \<and> get (skv_seek S n r) = get r"
  unfolding skv_laws_def by blast

lemma serialize_value:
  assumes "skv_laws S get fits" "skv_cursor S r < num_fields S r"
    "storable fits (skv_schema_of S r) (skv_cursor S r) v"
  shows "\<exists>r'. SerializeValueToSKVRecord S v r = returnE r' \<and> steps_to S get (stored v) r r'"
proof (cases "sv_null v")
  case True
  with skv_laws_null [OF assms(1,2)] show ?thesis
    by (auto simp: SerializeValueToSKVRecord_def stored_def returnE_def)
next
  case False
  with assms(3) obtain l where l: "literal_of (sv_type v) (sv_data v) = returnE l"
      "fits (skv_schema_of S r) (skv_cursor S r) l"
    by (auto simp: storable_def literal_ok_def the_literal_eq)
  then have "sv_type v \<noteq> VT_UNKNOWN" by auto
  with False l skv_laws_next [OF assms(1,2) l(2)] the_literal_eq [OF l(1)] show ?thesis
    by (auto simp: SerializeValueToSKVRecord_def stored_def returnE_def)
qed

lemma skip_to_spec:
  assumes "skv_laws S get fits" "skv_cursor S r \<le> n" "n \<le> num_fields S r"
  shows "\<exists>r'. skip_to S n r = returnE r' \<and> skv_cursor S r' = n \<and> skv_schema_of S r' = skv_schema_of S r
    \<and> get r' = (\<lambda>i. if skv_cursor S r \<le> i \<and> i < n then None else get r i)"
  using assms(2,3)
proof (induction "n - skv_cursor S r" arbitrary: r)
  case 0
  then show ?case by (subst skip_to.simps) (auto simp: fun_eq_iff)
next
  case (Suc k)
  then have "skv_cursor S r < num_fields S r" "skv_cursor S r \<noteq> n" by auto
  with skv_laws_null [OF assms(1)] obtain r1 where r1: "skv_null S r = Inr r1" "steps_to S get None r r1" by blast
  then have "k = n - skv_cursor S r1" "skv_cursor S r1 \<le> n" "n \<le> num_fields S r1"
      and sc: "skv_schema_of S r1 = skv_schema_of S r"
    using Suc.hyps(2) Suc.prems by (auto simp: steps_to_def num_fields_def)
  from Suc.hyps(1) [OF this(1-3)] obtain r' where
    r': "skip_to S n r1 = returnE r'" "skv_cursor S r' = n" "skv_schema_of S r' = skv_schema_of S r"
      "get r' = (\<lambda>i. if skv_cursor S r1 \<le> i \<and> i < n then None else get r1 i)"
    unfolding sc by blast
  have "skip_to S n r = returnE r'" using r1 r'(1) \<open>skv_cursor S r \<noteq> n\<close> by (subst skip_to.simps) simp
  moreover have "get r' = (\<lambda>i. if skv_cursor S r \<le> i \<and> i < n then None else get r i)"
    using r1(2) r'(4) Suc.hyps(2) by (auto simp: steps_to_def fun_eq_iff)
  ultimately show ?case using r' by auto
qed

lemma skip_until_skip_to:
  assumes "skv_laws S get fits" "skv_cursor S r \<le> n" "n \<le> num_fields S r"
  shows "skip_until S n r = skip_to S n r"
  using assms(2,3)
proof (induction "n - skv_cursor S r" arbitrary: r)
  case 0
  then show ?case by (subst skip_to.simps, subst skip_until.simps) simp
next
  case (Suc k)
  then have "skv_cursor S r < num_fields S r" by auto
  with skv_laws_null [OF assms(1)] obtain r1 where r1: "skv_null S r = Inr r1" "steps_to S get None r r1" by blast
  then have "k = n - skv_cursor S r1" "skv_cursor S r1 \<le> n" "n \<le> num_fields S r1"
    using Suc.hyps(2) Suc.prems by (auto simp: steps_to_def num_fields_def)
  from Suc.hyps(1) [OF this] show ?case
    using r1(1) Suc.hyps(2) by (subst skip_to.simps, subst skip_until.simps) auto
qed

subsection \<open>Value columns\<close>

definition bv_value :: "BindVariable \<Rightarrow> sql_value" where
  "bv_value b = (case bv_expr b of Some (PgConstant _ _ v) \<Rightarrow> v | _ \<Rightarrow> SqlValue_bool False)"

definition slot :: "BindVariable \<Rightarrow> nat" where
  "slot b = nat (bv_idx b) + SKV_FIELD_OFFSET"

text \<open>A column bound to a constant that its field can hold.\<close>
definition bound_ok :: "(skv_schema \<Rightarrow> nat \<Rightarrow> k2_literal \<Rightarrow> bool) \<Rightarrow> skv_schema \<Rightarrow> BindVariable \<Rightarrow> bool" where
  "bound_ok fits sc b \<longleftrightarrow> (\<exists>te. bv_expr b = Some (PgConstant PG_EXPR_CONSTANT te (bv_value b))) \<and> 0 \<le> bv_idx b
     \<and> slot b < length (skv_fields sc) \<and> storable fits sc (slot b) (bv_value b)"

text \<open>Key columns are skipped when the cursor is already past the keys.\<close>
definition skipped :: "skv_schema \<Rightarrow> nat \<Rightarrow> BindVariable \<Rightarrow> bool" where
  "skipped sc c b = (slot b < length (skv_partition_keys sc) \<and> length (skv_partition_keys sc) \<le> c)"

definition value_for :: "skv_schema \<Rightarrow> nat \<Rightarrow> BindVariable list \<Rightarrow> nat \<Rightarrow> k2_literal option" where
  "value_for sc c bs i = (case find (\<lambda>b. \<not> skipped sc c b \<and> slot b = i) bs of
     None \<Rightarrow> None | Some b \<Rightarrow> stored (bv_value b))"

lemma sort_bindings_Some [simp]: "sort_bindings (map Some bs) = Some (map Some (sort_key bv_idx bs))"
proof (cases "length bs < 2")
  case True
  then have "sort_key bv_idx bs = bs" by (cases bs; cases "tl bs") auto
  with True show ?thesis by (simp add: sort_bindings_def)
qed (auto simp: sort_bindings_def comp_def)

lemma serialize_values_one:
  assumes "skv_laws S get fits" "bound_ok fits (skv_schema_of S r) b" "skv_cursor S r \<le> slot b"
    "\<not> skipped (skv_schema_of S r) (skv_cursor S r) b"
  shows "\<exists>r2. serialize_values S (map Some (b # bs)) (r, ws) = serialize_values S (map Some bs) (r2, ws @ [slot b])
    \<and> skv_cursor S r2 = Suc (slot b) \<and> skv_schema_of S r2 = skv_schema_of S r
    \<and> get r2 = (\<lambda>i. if i = slot b then stored (bv_value b)
         else if skv_cursor S r \<le> i \<and> i < slot b then None else get r i)"
proof -
  have b: "slot b < num_fields S r" "0 \<le> bv_idx b" "storable fits (skv_schema_of S r) (slot b) (bv_value b)"
    using assms(2) by (simp_all add: bound_ok_def num_fields_def)
  from skip_to_spec [OF assms(1,3) less_imp_le [OF b(1)]] obtain r1 where
    r1: "skip_to S (slot b) r = returnE r1" "skv_cursor S r1 = slot b" "skv_schema_of S r1 = skv_schema_of S r"
      "get r1 = (\<lambda>i. if skv_cursor S r \<le> i \<and> i < slot b then None else get r i)" by blast
  moreover have "skv_cursor S r1 < num_fields S r1" using b(1) r1 by (simp add: num_fields_def)
  ultimately obtain r2 where
    r2: "SerializeValueToSKVRecord S (bv_value b) r1 = returnE r2" "steps_to S get (stored (bv_value b)) r1 r2"
    using serialize_value [OF assms(1), of r1 "bv_value b"] b(3) by auto
  have ex: "skip_to S (slot b) r = Some (Inr r1)" "SerializeValueToSKVRecord S (bv_value b) r1 = Some (Inr r2)"
    using r1(1) r2(1) by (simp_all add: returnE_def)
  obtain te where te: "bv_expr b = Some (PgConstant PG_EXPR_CONSTANT te (bv_value b))"
    using assms(2) by (auto simp: bound_ok_def)
  have "serialize_values S (map Some (b # bs)) (r, ws) = serialize_values S (map Some bs) (r2, ws @ [slot b])"
    using assms(4) b(2) ex
    by (auto simp: te is_constant_def as_value_def slot_def skipped_def Let_def)
  then show ?thesis using r1 r2(2) by (auto simp: steps_to_def fun_eq_iff)
qed

lemma serialize_values_spec:
  assumes "skv_laws S get fits"
  shows "\<lbrakk>sorted_wrt (\<lambda>a b. bv_idx a < bv_idx b) bs; \<forall>b \<in> set bs. bound_ok fits sc b;
      skv_schema_of S r = sc; c0 \<le> skv_cursor S r; skv_cursor S r \<le> length (skv_fields sc);
      \<forall>b \<in> set bs. skipped sc c0 b \<or> skv_cursor S r \<le> slot b\<rbrakk> \<Longrightarrow>
    \<exists>r'. serialize_values S (map Some bs) (r, ws) = returnE (r', ws @ map slot (filter (\<lambda>b. \<not> skipped sc c0 b) bs))
      \<and> skv_schema_of S r' = sc \<and> skv_cursor S r \<le> skv_cursor S r' \<and> skv_cursor S r' \<le> length (skv_fields sc)
      \<and> (\<forall>i. get r' i = (if i < skv_cursor S r \<or> skv_cursor S r' \<le> i then get r i else value_for sc c0 bs i))
      \<and> (\<forall>b \<in> set bs. skipped sc c0 b \<or> slot b < skv_cursor S r')"
proof (induction bs arbitrary: r ws)
  case (Cons b bs)
  show ?case
  proof (cases "skipped sc c0 b")
    case True
    then have "skipped sc (skv_cursor S r) b" using Cons.prems(4) by (auto simp: skipped_def)
    then have "serialize_values S (map Some (b # bs)) (r, ws) = serialize_values S (map Some bs) (r, ws)"
      using Cons.prems(2,3) by (auto simp: bound_ok_def skipped_def slot_def is_constant_def Let_def)
    moreover have "value_for sc c0 (b # bs) = value_for sc c0 bs" using True by (simp add: value_for_def fun_eq_iff)
    moreover have "sorted_wrt (\<lambda>a b. bv_idx a < bv_idx b) bs" "\<forall>b \<in> set bs. bound_ok fits sc b"
        "\<forall>b \<in> set bs. skipped sc c0 b \<or> skv_cursor S r \<le> slot b"
      using Cons.prems by simp_all
    ultimately show ?thesis using True Cons.IH [OF _ _ Cons.prems(3,4,5), of ws]
      by (simp del: serialize_values.simps split del: if_split cong: if_cong)
  next
    case False
    have le: "skv_cursor S r \<le> slot b" using False Cons.prems(6) by simp
    have nsk: "\<not> skipped sc (skv_cursor S r) b" using False le Cons.prems(4) by (auto simp: skipped_def)
    from serialize_values_one [OF assms, of r b bs ws] Cons.prems(2,3) le nsk obtain r2 where
      r2: "serialize_values S (map Some (b # bs)) (r, ws) = serialize_values S (map Some bs) (r2, ws @ [slot b])"
        "skv_cursor S r2 = Suc (slot b)" "skv_schema_of S r2 = sc"
        "get r2 = (\<lambda>i. if i = slot b then stored (bv_value b)
           else if skv_cursor S r \<le> i \<and> i < slot b then None else get r i)" by auto
    have later: "Suc (slot b) \<le> slot b'" if "b' \<in> set bs" for b'
      using Cons.prems(1,2) that by (fastforce simp: slot_def bound_ok_def)
    have nf: "Suc (slot b) \<le> length (skv_fields sc)" using Cons.prems(2) by (simp add: bound_ok_def)
    from Cons.IH [of r2 "ws @ [slot b]"] Cons.prems(1,2,4) r2(2,3) later le nf obtain r' where
      r': "serialize_values S (map Some bs) (r2, ws @ [slot b]) = returnE (r', (ws @ [slot b]) @ map slot (filter (\<lambda>b. \<not> skipped sc c0 b) bs))"
        "skv_schema_of S r' = sc" "Suc (slot b) \<le> skv_cursor S r'" "skv_cursor S r' \<le> length (skv_fields sc)"
        "\<forall>i. get r' i = (if i < Suc (slot b) \<or> skv_cursor S r' \<le> i then get r2 i else value_for sc c0 bs i)"
        "\<forall>b \<in> set bs. skipped sc c0 b \<or> slot b < skv_cursor S r'"
      by auto
    have vf: "value_for sc c0 (b # bs) i = (if i = slot b then stored (bv_value b) else value_for sc c0 bs i)" for i
      using False by (simp add: value_for_def)
    have early: "value_for sc c0 bs i = None" if "i < Suc (slot b)" for i
    proof -
      have "find (\<lambda>b. \<not> skipped sc c0 b \<and> slot b = i) bs = None"
        unfolding find_None_iff using later that by fastforce
      then show ?thesis by (simp add: value_for_def)
    qed
    have "\<forall>i. get r' i = (if i < skv_cursor S r \<or> skv_cursor S r' \<le> i then get r i else value_for sc c0 (b # bs) i)"
      using r'(3,5) r2(4) vf early le by (auto simp: not_less)
    then show ?thesis using r2(1) r' False le by auto
  qed
qed (auto simp: not_le)

lemma value_for_bound:
  assumes "inj_on slot (set bs)" "b \<in> set bs" "\<not> skipped sc c b"
  shows "value_for sc c bs (slot b) = stored (bv_value b)"
proof (cases "find (\<lambda>b'. \<not> skipped sc c b' \<and> slot b' = slot b) bs")
  case (Some b')
  then have "b' \<in> set bs" "slot b' = slot b" by (auto simp: find_Some_iff)
  then have "b' = b" using assms(1,2) by (auto dest: inj_onD)
  with Some show ?thesis by (simp add: value_for_def)
qed (use assms(2,3) in \<open>auto simp: find_None_iff\<close>)

lemma value_for_unbound: "(\<forall>b \<in> set bs. skipped sc c b \<or> slot b \<noteq> i) \<Longrightarrow> value_for sc c bs i = None"
proof -
  assume "\<forall>b \<in> set bs. skipped sc c b \<or> slot b \<noteq> i"
  then have "find (\<lambda>b. \<not> skipped sc c b \<and> slot b = i) bs = None" unfolding find_None_iff by blast
  then show ?thesis by (simp add: value_for_def)
qed

lemma inj_on_slot: "\<forall>b \<in> set bs. 0 \<le> bv_idx b \<Longrightarrow> inj_on bv_idx (set bs) \<Longrightarrow> inj_on slot (set bs)"
  by (simp add: inj_on_def slot_def eq_nat_nat_iff)

lemma sort_key_strict: "distinct (map f xs) \<Longrightarrow> sorted_wrt (\<lambda>a b. f a < f b) (sort_key f xs)"
  for f :: "'a \<Rightarrow> 'b::linorder"
proof -
  assume "distinct (map f xs)"
  then have "distinct (map f (sort_key f xs))" by (simp add: distinct_map)
  then have "sorted_wrt (<) (map f (sort_key f xs))" by (simp add: strict_sorted_iff)
  then show ?thesis by (simp add: sorted_wrt_map)
qed

text \<open>(C14)
  Serialising the value columns of a write fills the record completely: every bound
  column lands in the field of its index, whatever the order of the bindings, every
  other field from the cursor on is null, key columns are left out when the keys are
  already in place, and the fields reported for a partial update are exactly those
  written, in ascending order.
\<close>
theorem SerializeSKVValueFields_fills:
  fixes S :: "'r skv"
  assumes laws: "skv_laws S get fits"
    and dist: "distinct (map bv_idx values)"
    and ok: "\<forall>b \<in> set values. bound_ok fits (skv_schema_of S r) b"
    and pos: "\<forall>b \<in> set values. skipped (skv_schema_of S r) (skv_cursor S r) b \<or> skv_cursor S r \<le> slot b"
    and cur: "skv_cursor S r \<le> num_fields S r"
  shows "\<exists>r'. SerializeSKVValueFields S (map Some values) r = returnE (r',
        map slot (filter (\<lambda>b. \<not> skipped (skv_schema_of S r) (skv_cursor S r) b) (sort_key bv_idx values)))
    \<and> skv_cursor S r' = num_fields S r \<and> skv_schema_of S r' = skv_schema_of S r
    \<and> (\<forall>i < skv_cursor S r. get r' i = get r i)
    \<and> (\<forall>b \<in> set values. skipped (skv_schema_of S r) (skv_cursor S r) b \<or> get r' (slot b) = stored (bv_value b))
    \<and> (\<forall>i. skv_cursor S r \<le> i \<and> i < num_fields S r \<and> i \<notin> slot ` set values \<longrightarrow> get r' i = None)"
proof -
  let ?sc = "skv_schema_of S r" and ?c = "skv_cursor S r" and ?bs = "sort_key bv_idx values"
  have "\<exists>r1. serialize_values S (map Some ?bs) (r, []) = returnE (r1, [] @ map slot (filter (\<lambda>b. \<not> skipped ?sc ?c b) ?bs))
      \<and> skv_schema_of S r1 = ?sc \<and> ?c \<le> skv_cursor S r1 \<and> skv_cursor S r1 \<le> length (skv_fields ?sc)
      \<and> (\<forall>i. get r1 i = (if i < ?c \<or> skv_cursor S r1 \<le> i then get r i else value_for ?sc ?c ?bs i))
      \<and> (\<forall>b \<in> set ?bs. skipped ?sc ?c b \<or> slot b < skv_cursor S r1)"
    by (rule serialize_values_spec [OF laws])
      (use ok pos cur in \<open>auto simp: sort_key_strict [OF dist] num_fields_def\<close>)
  then obtain r1 where
    r1: "serialize_values S (map Some ?bs) (r, []) = returnE (r1, map slot (filter (\<lambda>b. \<not> skipped ?sc ?c b) ?bs))"
      "skv_schema_of S r1 = ?sc" "?c \<le> skv_cursor S r1" "skv_cursor S r1 \<le> num_fields S r1"
      "\<And>i. get r1 i = (if i < ?c \<or> skv_cursor S r1 \<le> i then get r i else value_for ?sc ?c ?bs i)"
      "\<And>b. b \<in> set values \<Longrightarrow> skipped ?sc ?c b \<or> slot b < skv_cursor S r1"
    by (auto simp: num_fields_def)
  from skip_to_spec [OF laws r1(4) order_refl] obtain r' where
    r': "skip_to S (num_fields S r1) r1 = returnE r'" "skv_cursor S r' = num_fields S r1"
      "skv_schema_of S r' = ?sc"
      "get r' = (\<lambda>i. if skv_cursor S r1 \<le> i \<and> i < num_fields S r1 then None else get r1 i)"
    using r1(2) by auto
  have nf: "num_fields S r1 = num_fields S r" using r1(2) by (simp add: num_fields_def)
  have "SerializeSKVValueFields S (map Some values) r = returnE (r', map slot (filter (\<lambda>b. \<not> skipped ?sc ?c b) ?bs))"
    using r1(1) r'(1) skip_until_skip_to [OF laws r1(4) order_refl]
    by (simp add: SerializeSKVValueFields_def num_fields_def [symmetric])
  moreover have "\<forall>b \<in> set values. skipped ?sc ?c b \<or> get r' (slot b) = stored (bv_value b)"
  proof
    fix b assume b: "b \<in> set values"
    have "inj_on slot (set ?bs)"
      using ok dist by (intro inj_on_slot) (auto simp: bound_ok_def distinct_map)
    with b r1(6) [OF b] pos show "skipped ?sc ?c b \<or> get r' (slot b) = stored (bv_value b)"
      using value_for_bound [of ?bs b ?sc ?c] r'(4) r1(5) by fastforce
  qed
  moreover have "\<forall>i. ?c \<le> i \<and> i < num_fields S r \<and> i \<notin> slot ` set values \<longrightarrow> get r' i = None"
  proof (intro allI impI)
    fix i assume i: "?c \<le> i \<and> i < num_fields S r \<and> i \<notin> slot ` set values"
    then have "value_for ?sc ?c ?bs i = None" by (intro value_for_unbound) auto
    with i show "get r' i = None" using r'(4) r1(5) nf by simp
  qed
  moreover have "\<forall>i < ?c. get r' i = get r i" using r'(4) r1(3,5) by auto
  ultimately show ?thesis using r'(2,3) nf by auto
qed

text \<open>A record kept as a cursor and its fields has the laws.\<close>
record list_rec =
  lr_schema :: skv_schema
  lr_cursor :: nat
  lr_vals :: "nat \<Rightarrow> k2_literal option"

definition lr_put :: "k2_literal option \<Rightarrow> list_rec \<Rightarrow> std_exception + list_rec" where
  "lr_put l r = (if lr_cursor r < length (skv_fields (lr_schema r))
     then Inr (r\<lparr>lr_cursor := Suc (lr_cursor r), lr_vals := (lr_vals r)(lr_cursor r := l)\<rparr>)
     else Inl Platform_exception)"

definition list_skv :: "list_rec skv" where
  "list_skv = \<lparr>skv_next = (\<lambda>l. lr_put (Some l)), skv_null = lr_put None, skv_seek = (\<lambda>n r. r\<lparr>lr_cursor := n\<rparr>),
     skv_cursor = lr_cursor, skv_schema_of = lr_schema\<rparr>"

lemma list_skv_laws: "skv_laws list_skv lr_vals (\<lambda>_ _ _. True)"
  by (simp add: skv_laws_def list_skv_def lr_put_def steps_to_def num_fields_def)

definition example_record :: "nat \<Rightarrow> list_rec" where
  "example_record c = \<lparr>lr_schema = \<lparr>skv_fields = [''TableId'', ''IndexId'', ''a'', ''b'', ''c''],
     skv_partition_keys = [0, 1, 2], skv_range_keys = []\<rparr>, lr_cursor = c, lr_vals = (\<lambda>_. None)\<rparr>"

definition example_bind :: "int \<Rightarrow> 64 word \<Rightarrow> BindVariable" where
  "example_bind i w = \<lparr>bv_idx = i, bv_expr = Some (PgConstant PG_EXPR_CONSTANT int64_entity (SqlValue_int w))\<rparr>"

theorem SerializeSKVValueFields_fills_witness:
  "\<exists>r'. SerializeSKVValueFields list_skv [Some (example_bind 2 7), Some (example_bind 0 1)] (example_record 3) = returnE (r', [4])
    \<and> lr_vals r' 3 = None \<and> lr_vals r' 4 = Some (L_int64 7)"
  using SerializeSKVValueFields_fills [OF list_skv_laws, of "[example_bind 2 7, example_bind 0 1]" "example_record 3"]
  by (auto simp: list_skv_def example_bind_def example_record_def bound_ok_def skipped_def slot_def bv_value_def
      SKV_FIELD_OFFSET_def storable_def literal_ok_def SqlValue_int_def num_fields_def stored_def the_literal_def
      returnE_def)

subsection \<open>Range conditions: what is left over\<close>

lemma child_column_in_args:
  "children_by_col_name args = returnE m \<Longrightarrow> map snd m = args \<and> (\<forall>(c, e) \<in> set m. child_column e = returnE c)"
  by (induction args arbitrary: m) auto

lemma leave_return [simp]:
  "leave e b st = returnE st' \<longleftrightarrow> st' = st\<lparr>rs_left := rs_left st @ [e], rs_branch := b\<rparr>"
  by (auto simp: leave_def)

text \<open>Several values serialised one after another.\<close>
fun serialize_all :: "'r skv \<Rightarrow> sql_value list \<Rightarrow> 'r \<Rightarrow> 'r run" where
  "serialize_all S [] r = returnE r"
| "serialize_all S (v # vs) r = bindE (SerializeValueToSKVRecord S v r) (serialize_all S vs)"

lemma serialize_all_append:
  "serialize_all S us r = returnE r1 \<Longrightarrow> serialize_all S vs r1 = returnE r2 \<Longrightarrow> serialize_all S (us @ vs) r = returnE r2"
  by (induction us arbitrary: r) auto

text \<open>
  What the treatment of \<open>es\<close> adds to the state: values \<open>us\<close> in the start record, values
  \<open>vs\<close> in the end record, and \<open>keep\<close> among the conditions left over; a condition that is
  not left over is an equality whose constant is in both records.
\<close>
definition range_effect ::
  "'r skv \<Rightarrow> PgExpr list \<Rightarrow> 'r range_state \<Rightarrow> 'r range_state \<Rightarrow> sql_value list \<Rightarrow> sql_value list \<Rightarrow> PgExpr list \<Rightarrow> bool" where
  "range_effect S es st st' us vs keep \<longleftrightarrow>
     serialize_all S us (rs_start st) = returnE (rs_start st') \<and> serialize_all S vs (rs_end st) = returnE (rs_end st')
     \<and> rs_left st' = rs_left st @ keep \<and> set keep \<subseteq> set es
     \<and> (\<forall>e \<in> set es. e \<in> set keep \<or> opcode e = PG_EXPR_EQ \<and> (\<exists>v. constant_at e 1 = returnE v \<and> v \<in> set us \<inter> set vs))"

lemma range_effect_left:
  "serialize_all S us (rs_start st) = returnE (rs_start st') \<Longrightarrow> serialize_all S vs (rs_end st) = returnE (rs_end st') \<Longrightarrow>
   rs_left st' = rs_left st @ [e] \<Longrightarrow> range_effect S [e] st st' us vs [e]"
  by (simp add: range_effect_def)

lemma range_eq_effect:
  "range_eq S cur e st = returnE st' \<Longrightarrow> opcode e = PG_EXPR_EQ \<Longrightarrow> \<exists>us vs keep. range_effect S [e] st st' us vs keep"
proof -
  assume a: "range_eq S cur e st = returnE st'" "opcode e = PG_EXPR_EQ"
  then obtain v where v: "constant_at e 1 = returnE v" by (auto simp: range_eq_def)
  show ?thesis
  proof (cases "adjacent cur (rs_idx st)")
    case True
    with a v have "range_effect S [e] st st' [v] [v] []" by (auto simp: range_eq_def range_effect_def)
    then show ?thesis by blast
  next
    case False
    with a v have "range_effect S [e] st st' [] [] [e]" by (auto simp: range_eq_def intro!: range_effect_left)
    then show ?thesis by blast
  qed
qed

lemma range_ge_effect: "range_ge S cur e st = returnE st' \<Longrightarrow> \<exists>us vs keep. range_effect S [e] st st' us vs keep"
proof -
  assume a: "range_ge S cur e st = returnE st'"
  then obtain v where "constant_at e 1 = returnE v" by (auto simp: range_ge_def)
  with a have "range_effect S [e] st st' [v] [] [e] \<or> range_effect S [e] st st' [] [] [e]"
    by (auto simp: range_ge_def range_effect_def split: if_splits)
  then show ?thesis by blast
qed

lemma range_lt_effect: "range_lt S cur e st = returnE st' \<Longrightarrow> \<exists>us vs keep. range_effect S [e] st st' us vs keep"
proof -
  assume a: "range_lt S cur e st = returnE st'"
  then obtain v where "constant_at e 1 = returnE v" by (auto simp: range_lt_def)
  with a have "range_effect S [e] st st' [] [v] [e] \<or> range_effect S [e] st st' [] [] [e]"
    by (auto simp: range_lt_def range_effect_def split: if_splits)
  then show ?thesis by blast
qed

lemma range_le_effect: "range_le S cur e st = returnE st' \<Longrightarrow> \<exists>us vs keep. range_effect S [e] st st' us vs keep"
proof -
  assume a: "range_le S cur e st = returnE st'"
  then have "(\<exists>u. range_effect S [e] st st' [] [u] [e]) \<or> range_effect S [e] st st' [] [] [e]"
    by (auto simp: range_le_def range_effect_def split: if_splits option.splits bool.splits)
  then show ?thesis by blast
qed

lemma range_between_effect: "range_between S cur e st = returnE st' \<Longrightarrow> \<exists>us vs keep. range_effect S [e] st st' us vs keep"
proof -
  assume a: "range_between S cur e st = returnE st'"
  then have "(\<exists>l h. range_effect S [e] st st' [l] [h] [e]) \<or> range_effect S [e] st st' [] [] [e]"
    by (auto simp: range_between_def range_effect_def Let_def split: if_splits option.splits)
  then show ?thesis by blast
qed

lemma leave_effect: "leave e b st = returnE st' \<Longrightarrow> \<exists>us vs keep. range_effect S [e] st st' us vs keep"
  by (intro exI [of _ "[]"] exI [of _ "[e]"]) (simp add: range_effect_def)

lemmas range_effects = range_eq_effect range_ge_effect range_lt_effect range_le_effect range_between_effect leave_effect

lemma range_step_effect: "range_step S fmap e st = returnE st' \<Longrightarrow> \<exists>us vs keep. range_effect S [e] st st' us vs keep"
proof (cases "rs_branch st")
  case True
  then show "range_step S fmap e st = returnE st' \<Longrightarrow> ?thesis" by (simp only: range_step_def if_True leave_effect)
next
  case False
  assume "range_step S fmap e st = returnE st'"
  with False obtain c where "(if opcode e = PG_EXPR_EQ then range_eq S (fmap c) e st
       else if opcode e = PG_EXPR_GE \<or> opcode e = PG_EXPR_GT then range_ge S (fmap c) e st
       else if opcode e = PG_EXPR_LT then range_lt S (fmap c) e st
       else if opcode e = PG_EXPR_LE then range_le S (fmap c) e st
       else if opcode e = PG_EXPR_BETWEEN then range_between S (fmap c) e st
       else leave e True st) = returnE st'"
    by (auto simp: range_step_def simp del: leave_return)
  then show ?thesis by (metis range_effects)
qed

lemma range_effect_append:
  assumes "range_effect S es st st1 us vs keep" "range_effect S fs st1 st' us' vs' keep'"
  shows "range_effect S (es @ fs) st st' (us @ us') (vs @ vs') (keep @ keep')"
  using assms serialize_all_append [of S us "rs_start st" "rs_start st1" us' "rs_start st'"]
    serialize_all_append [of S vs "rs_end st" "rs_end st1" vs' "rs_end st'"]
  by (auto simp: range_effect_def)

lemma range_loop_effect:
  "range_loop S fmap es st = returnE st' \<Longrightarrow> \<exists>us vs keep. range_effect S es st st' us vs keep"
proof (induction es arbitrary: st)
  case Nil
  then have "range_effect S [] st st' [] [] []" by (simp add: range_effect_def)
  then show ?case by blast
next
  case (Cons e es)
  from Cons.prems obtain st1 where "range_step S fmap e st = returnE st1" "range_loop S fmap es st1 = returnE st'"
    by auto
  then obtain us vs keep us' vs' keep' where "range_effect S [e] st st1 us vs keep" "range_effect S es st1 st' us' vs' keep'"
    using range_step_effect Cons.IH by metis
  from range_effect_append [OF this] show ?case by auto
qed

lemma set_sorted_args: "set (sorted_args fs m) = {e. \<exists>c \<in> set (drop SKV_FIELD_OFFSET fs). (c, e) \<in> set m}"
  by (force simp: sorted_args_def)

text \<open>(C28)
  Range conditions are not lost.  When a non-empty conjunction of them is accepted, the
  start and the end record of the scan are the given ones with some values serialised one
  after another from the first column on, and every condition on a column that is a field
  of the table is kept as a filter, or is an equality whose constant is among the values
  serialised into both records; only conditions of the conjunction become filters.
  Conditions on a column that is no field of the table are dropped.  In which field a value
  lands is not part of this statement.
\<close>
theorem HandleRangeConditions_leftovers:
  assumes "HandleRangeConditions S (Some (PgOperator oc name te args)) start end1 = returnE (kOk, left, s', e')"
    and "args \<noteq> []"
  shows "\<exists>us vs. serialize_all S us (skv_seek S SKV_FIELD_OFFSET start) = returnE s'
    \<and> serialize_all S vs (skv_seek S SKV_FIELD_OFFSET end1) = returnE e'
    \<and> set left \<subseteq> set args \<and> (\<forall>e \<in> set args. \<exists>c. child_column e = returnE c
      \<and> (if c \<in> set (drop SKV_FIELD_OFFSET (skv_fields (skv_schema_of S start)))
         then e \<in> set left \<or> opcode e = PG_EXPR_EQ \<and> (\<exists>v. constant_at e 1 = returnE v \<and> v \<in> set us \<inter> set vs)
         else e \<notin> set left))"
proof -
  let ?fs = "skv_fields (skv_schema_of S start)"
  let ?st = "\<lparr>rs_idx = int SKV_FIELD_OFFSET - 1, rs_branch = False, rs_left = [], rs_start = skv_seek S SKV_FIELD_OFFSET start,
       rs_end = skv_seek S SKV_FIELD_OFFSET end1\<rparr>"
  from assms obtain m st where m: "children_by_col_name args = returnE m" and
    st: "range_loop S (field_map ?fs) (sorted_args ?fs m) ?st = returnE st"
      and out: "left = rs_left st" "s' = rs_start st" "e' = rs_end st"
    by (auto simp: HandleRangeConditions_def Let_def split: if_splits)
  from range_loop_effect [OF st] obtain us vs keep where eff: "range_effect S (sorted_args ?fs m) ?st st us vs keep" by blast
  have m': "map snd m = args" "\<And>c e. (c, e) \<in> set m \<Longrightarrow> child_column e = returnE c"
    using child_column_in_args [OF m] by auto
  have sub: "set (sorted_args ?fs m) \<subseteq> set args" using m'(1) by (force simp: set_sorted_args)
  have mem: "\<exists>c. child_column e = returnE c \<and> (e \<in> set (sorted_args ?fs m) \<longleftrightarrow> c \<in> set (drop SKV_FIELD_OFFSET ?fs))"
    if "e \<in> set args" for e
  proof -
    from that m'(1) obtain c where c: "(c, e) \<in> set m" by force
    have eq: "c' = c" if "(c', e) \<in> set m" for c' using m'(2) [OF that] m'(2) [OF c] by simp
    then have "e \<in> set (sorted_args ?fs m) \<longleftrightarrow> c \<in> set (drop SKV_FIELD_OFFSET ?fs)"
      using c unfolding set_sorted_args by blast
    then show ?thesis using m'(2) [OF c] by blast
  qed
  have left: "set left \<subseteq> set (sorted_args ?fs m)"
    "\<forall>e \<in> set (sorted_args ?fs m). e \<in> set left \<or> opcode e = PG_EXPR_EQ \<and> (\<exists>v. constant_at e 1 = returnE v \<and> v \<in> set us \<inter> set vs)"
    using eff by (auto simp: range_effect_def out(1))
  have "\<forall>e \<in> set args. \<exists>c. child_column e = returnE c
      \<and> (if c \<in> set (drop SKV_FIELD_OFFSET ?fs)
         then e \<in> set left \<or> opcode e = PG_EXPR_EQ \<and> (\<exists>v. constant_at e 1 = returnE v \<and> v \<in> set us \<inter> set vs)
         else e \<notin> set left)"
  proof
    fix e assume "e \<in> set args"
    then obtain c where c: "child_column e = returnE c" "e \<in> set (sorted_args ?fs m) \<longleftrightarrow> c \<in> set (drop SKV_FIELD_OFFSET ?fs)"
      using mem by blast
    show "\<exists>c. child_column e = returnE c
      \<and> (if c \<in> set (drop SKV_FIELD_OFFSET ?fs)
         then e \<in> set left \<or> opcode e = PG_EXPR_EQ \<and> (\<exists>v. constant_at e 1 = returnE v \<and> v \<in> set us \<inter> set vs)
         else e \<notin> set left)"
      using c left by (intro exI [of _ c]) auto
  qed
  moreover have "serialize_all S us (skv_seek S SKV_FIELD_OFFSET start) = returnE s'"
    "serialize_all S vs (skv_seek S SKV_FIELD_OFFSET end1) = returnE e'"
    using eff out(2,3) by (simp_all add: range_effect_def)
  ultimately show ?thesis using left(1) sub by blast
qed

definition example_range :: "PgExpr list \<Rightarrow> PgExpr" where
  "example_range args = PgOperator PG_EXPR_AND ''and'' int64_entity args"

lemma column_cond_simps [simp]:
  "child_column (column_cond name oc c w) = returnE c" "opcode (column_cond name oc c w) = oc"
  "constant_at (column_cond name oc c w) (Suc 0) = returnE (SqlValue_int w)"
  by (simp_all add: column_cond_def child_column_def constant_at_def arg_at_def is_colref_def is_constant_def as_value_def)

theorem HandleRangeConditions_leftovers_witness:
  "\<exists>left s' e'. HandleRangeConditions list_skv (Some (example_range [column_cond ''<'' PG_EXPR_LT ''a'' 9,
       column_cond ''='' PG_EXPR_EQ ''z'' 1])) (example_record 2) (example_record 2) = returnE (kOk, left, s', e')
    \<and> column_cond ''<'' PG_EXPR_LT ''a'' 9 \<in> set left \<and> column_cond ''='' PG_EXPR_EQ ''z'' 1 \<notin> set left"
proof -
  let ?c = "[column_cond ''<'' PG_EXPR_LT ''a'' 9, column_cond ''='' PG_EXPR_EQ ''z'' 1]"
  have "\<exists>left s' e'. HandleRangeConditions list_skv (Some (example_range ?c)) (example_record 2) (example_record 2)
      = returnE (kOk, left, s', e')"
    by (simp add: example_range_def HandleRangeConditions_def sorted_args_def field_map_def SKV_FIELD_OFFSET_def
        range_step_def range_lt_def adjacent_def SerializeValueToSKVRecord_def SqlValue_int_def list_skv_def
        example_record_def lr_put_def leave_def returnE_def Let_def)
  then obtain left s' e' where h: "HandleRangeConditions list_skv (Some (example_range ?c)) (example_record 2) (example_record 2)
      = returnE (kOk, left, s', e')" by blast
  from HandleRangeConditions_leftovers [OF h [unfolded example_range_def]]
  have "column_cond ''<'' PG_EXPR_LT ''a'' 9 \<in> set left" "column_cond ''='' PG_EXPR_EQ ''z'' 1 \<notin> set left"
    by (simp_all add: list_skv_def example_record_def SKV_FIELD_OFFSET_def)
  with h show ?thesis by blast
qed

subsection \<open>Range conditions: equalities on a prefix\<close>

text \<open>A comparison of a column with a constant.\<close>
definition is_cond :: "Opcode \<Rightarrow> string \<Rightarrow> sql_value \<Rightarrow> PgExpr \<Rightarrow> bool" where
  "is_cond oc c v e \<longleftrightarrow> opcode e = oc \<and> child_column e = returnE c \<and> constant_at e 1 = returnE v"

lemma children_of_columns:
  "\<forall>e \<in> set args. child_column e = returnE (col e) \<Longrightarrow> children_by_col_name args = returnE (map (\<lambda>e. (col e, e)) args)"
  by (induction args) auto

lemma filter_by_distinct_key:
  "distinct (map f xs) \<Longrightarrow> x \<in> set xs \<Longrightarrow> filter (\<lambda>y. f y = f x) xs = [x]"
  by (induction xs) (auto simp: filter_empty_conv rev_image_eqI)

lemma filter_by_distinct_key_mset:
  assumes "mset ys = mset xs" "distinct (map f xs)"
  shows "filter (\<lambda>y. f y = k) ys = filter (\<lambda>y. f y = k) xs"
proof (cases "k \<in> f ` set xs")
  case True
  then obtain x where x: "x \<in> set xs" "k = f x" by auto
  then have "filter (\<lambda>y. f y = k) xs = [x]" using assms(2) filter_by_distinct_key by metis
  moreover have "mset (filter (\<lambda>y. f y = k) ys) = mset (filter (\<lambda>y. f y = k) xs)" using assms(1) by simp
  ultimately have "mset (filter (\<lambda>y. f y = k) ys) = {#x#}" by simp
  then have "filter (\<lambda>y. f y = k) ys = [x]" by (simp only: mset_single_iff)
  with \<open>filter (\<lambda>y. f y = k) xs = [x]\<close> show ?thesis by simp
next
  case False
  moreover have "set ys = set xs" using assms(1) by (rule mset_eq_setD)
  ultimately have "filter (\<lambda>y. f y = k) ys = []" "filter (\<lambda>y. f y = k) xs = []"
    by (auto simp: filter_empty_conv)
  then show ?thesis by simp
qed

lemma sorted_args_prefix:
  assumes "mset args = mset es" "distinct (drop SKV_FIELD_OFFSET fs)"
    "drop SKV_FIELD_OFFSET fs = map col es @ rest"
  shows "sorted_args fs (map (\<lambda>e. (col e, e)) args) = es"
proof -
  have d: "distinct (map col es)" "set rest \<inter> col ` set es = {}" using assms(2,3) by auto
  have pick: "map snd (filter (\<lambda>p. fst p = f) (map (\<lambda>e. (col e, e)) args)) = filter (\<lambda>e. col e = f) es" for f
    using filter_by_distinct_key_mset [OF assms(1) d(1), of f] by (simp add: filter_map comp_def)
  have "map (\<lambda>f. filter (\<lambda>e. col e = f) es) (map col es) = map (\<lambda>e. [e]) es"
    using filter_by_distinct_key [OF d(1)] by (auto simp: comp_def)
  moreover have "map (\<lambda>f. filter (\<lambda>e. col e = f) es) rest = map (\<lambda>_. []) rest"
    using d(2) by (auto simp: filter_empty_conv)
  moreover have "concat (map (\<lambda>e. [e]) es) = es" by (induction es) auto
  moreover have "concat (map (\<lambda>_. [] :: PgExpr list) rest) = []" by (induction rest) auto
  ultimately show ?thesis
    unfolding sorted_args_def assms(3) pick map_append concat_append by (simp only: append_Nil2)
qed

lemma field_index_nth:
  "distinct gs \<Longrightarrow> n < length gs \<Longrightarrow> SKV_FIELD_OFFSET \<le> i + n \<Longrightarrow> field_index gs i (gs ! n) = Some (int (i + n))"
proof (induction gs arbitrary: i n)
  case (Cons g gs)
  have none: "g \<notin> set gs \<Longrightarrow> field_index gs j g = None" for j
    by (induction gs arbitrary: j) auto
  show ?case
  proof (cases n)
    case 0
    with Cons.prems none show ?thesis by simp
  next
    case (Suc k)
    with Cons.IH [of k "i + 1"] Cons.prems show ?thesis by simp
  qed
qed simp

lemma field_map_nth: "distinct fs \<Longrightarrow> SKV_FIELD_OFFSET + j < length fs \<Longrightarrow>
    field_map fs (fs ! (SKV_FIELD_OFFSET + j)) = int (SKV_FIELD_OFFSET + j)"
  by (simp add: field_map_def field_index_nth)

text \<open>One adjacent equality writes its value into both records.\<close>
lemma range_step_eq:
  assumes laws: "skv_laws S get fits" and e: "is_cond PG_EXPR_EQ c v e" and st: "\<not> rs_branch st"
    and adj: "adjacent (fmap c) (rs_idx st)"
    and s: "skv_cursor S (rs_start st) < num_fields S (rs_start st)"
      "storable fits (skv_schema_of S (rs_start st)) (skv_cursor S (rs_start st)) v"
    and t: "skv_cursor S (rs_end st) < num_fields S (rs_end st)"
      "storable fits (skv_schema_of S (rs_end st)) (skv_cursor S (rs_end st)) v"
  shows "\<exists>s' e'. range_step S fmap e st = returnE (st\<lparr>rs_idx := fmap c, rs_start := s', rs_end := e'\<rparr>)
    \<and> steps_to S get (stored v) (rs_start st) s' \<and> steps_to S get (stored v) (rs_end st) e'"
proof -
  from serialize_value [OF laws s] obtain s' where
    s': "SerializeValueToSKVRecord S v (rs_start st) = returnE s'" "steps_to S get (stored v) (rs_start st) s'" by blast
  from serialize_value [OF laws t] obtain e' where
    e': "SerializeValueToSKVRecord S v (rs_end st) = returnE e'" "steps_to S get (stored v) (rs_end st) e'" by blast
  have "range_step S fmap e st = returnE (st\<lparr>rs_idx := fmap c, rs_start := s', rs_end := e'\<rparr>)"
    using e st adj s'(1) e'(1) by (simp add: range_step_def range_eq_def is_cond_def)
  then show ?thesis using s'(2) e'(2) by blast
qed

lemma range_step_ge:
  assumes laws: "skv_laws S get fits" and e: "is_cond PG_EXPR_GE c v e" and st: "\<not> rs_branch st"
    and adj: "adjacent (fmap c) (rs_idx st)" and int: "sv_type v = VT_INT"
    and s: "skv_cursor S (rs_start st) < num_fields S (rs_start st)"
      "storable fits (skv_schema_of S (rs_start st)) (skv_cursor S (rs_start st)) v"
  shows "\<exists>s'. range_step S fmap e st = returnE (st\<lparr>rs_left := rs_left st @ [e], rs_idx := fmap c, rs_start := s'\<rparr>)
    \<and> steps_to S get (stored v) (rs_start st) s'"
proof -
  from serialize_value [OF laws s] obtain s' where
    s': "SerializeValueToSKVRecord S v (rs_start st) = returnE s'" "steps_to S get (stored v) (rs_start st) s'" by blast
  have "range_step S fmap e st = returnE (st\<lparr>rs_left := rs_left st @ [e], rs_idx := fmap c, rs_start := s'\<rparr>)"
    using e st adj int s'(1) by (simp add: range_step_def range_ge_def is_cond_def leave_def)
  then show ?thesis using s'(2) by blast
qed

lemma range_loop_equalities:
  assumes laws: "skv_laws S get fits" and vs: "length vs = length es"
    and es: "\<forall>j < length es. is_cond PG_EXPR_EQ (col j) (vs ! j) (es ! j) \<and> fmap (col j) = int (c + j)
        \<and> storable fits sc (c + j) (vs ! j)"
    and nf: "c + length es \<le> length (skv_fields sc)"
  shows "\<lbrakk>\<not> rs_branch st; rs_idx st = int c - 1; skv_cursor S (rs_start st) = c; skv_cursor S (rs_end st) = c;
      skv_schema_of S (rs_start st) = sc; skv_schema_of S (rs_end st) = sc\<rbrakk> \<Longrightarrow>
    \<exists>st'. range_loop S fmap es st = returnE st' \<and> rs_left st' = rs_left st
      \<and> (\<forall>i. get (rs_start st') i = (if c \<le> i \<and> i < c + length es then stored (vs ! (i - c)) else get (rs_start st) i))
      \<and> (\<forall>i. get (rs_end st') i = (if c \<le> i \<and> i < c + length es then stored (vs ! (i - c)) else get (rs_end st) i))"
  using vs es nf
proof (induction es arbitrary: vs col c st)
  case (Cons e es)
  from Cons.prems(7) obtain v us where vs: "vs = v # us" "length us = length es" by (cases vs) auto
  have e: "is_cond PG_EXPR_EQ (col 0) v e" "fmap (col 0) = int c" "storable fits sc c v"
    using Cons.prems(8) vs(1) by (auto dest: spec [of _ 0])
  have "\<exists>s' e'. range_step S fmap e st = returnE (st\<lparr>rs_idx := fmap (col 0), rs_start := s', rs_end := e'\<rparr>)
      \<and> steps_to S get (stored v) (rs_start st) s' \<and> steps_to S get (stored v) (rs_end st) e'"
    using Cons.prems(1-6,9) e by (intro range_step_eq [OF laws e(1)]) (simp_all add: adjacent_def num_fields_def)
  then obtain s' e' where step: "range_step S fmap e st = returnE (st\<lparr>rs_idx := int c, rs_start := s', rs_end := e'\<rparr>)"
    and s': "skv_cursor S s' = Suc c" "skv_schema_of S s' = sc" "get s' = (get (rs_start st))(c := stored v)"
    and e': "skv_cursor S e' = Suc c" "skv_schema_of S e' = sc" "get e' = (get (rs_end st))(c := stored v)"
    using e(2) Cons.prems(3-6) by (auto simp: steps_to_def)
  let ?st = "st\<lparr>rs_idx := int c, rs_start := s', rs_end := e'\<rparr>"
  have "\<exists>st'. range_loop S fmap es ?st = returnE st' \<and> rs_left st' = rs_left ?st
      \<and> (\<forall>i. get (rs_start st') i = (if Suc c \<le> i \<and> i < Suc c + length es then stored (us ! (i - Suc c)) else get (rs_start ?st) i))
      \<and> (\<forall>i. get (rs_end st') i = (if Suc c \<le> i \<and> i < Suc c + length es then stored (us ! (i - Suc c)) else get (rs_end ?st) i))"
    using Cons.prems(1,8,9) vs s' e' by (intro Cons.IH [of ?st "Suc c" us "\<lambda>j. col (Suc j)"]) fastforce+
  then obtain st' where st': "range_loop S fmap es ?st = returnE st'" "rs_left st' = rs_left st"
    "\<And>i. get (rs_start st') i = (if Suc c \<le> i \<and> i < Suc c + length es then stored (us ! (i - Suc c)) else get s' i)"
    "\<And>i. get (rs_end st') i = (if Suc c \<le> i \<and> i < Suc c + length es then stored (us ! (i - Suc c)) else get e' i)"
    by auto
  have "stored (vs ! (i - c)) = (if i = c then stored v else stored (us ! (i - Suc c)))" if "c \<le> i" for i
    using that by (auto simp: vs(1) nth_Cons')
  then show ?case using step st' s'(3) e'(3) by (intro exI [of _ st']) auto
qed (auto simp: returnE_def)

text \<open>(C10)
  Equalities on the leading columns, in any order, are turned into a point: both
  records hold the value of each column in its own field, no filter remains, and the
  other fields of the records are untouched.
\<close>
theorem equality_prefix_becomes_point:
  fixes S :: "'r skv"
  assumes laws: "skv_laws S get fits"
    and sc: "skv_schema_of S start = sc" "skv_schema_of S end1 = sc" "distinct (skv_fields sc)"
    and k: "0 < length es" "SKV_FIELD_OFFSET + length es \<le> length (skv_fields sc)" "length vs = length es"
    and es: "\<forall>j < length es. is_cond PG_EXPR_EQ (skv_fields sc ! (SKV_FIELD_OFFSET + j)) (vs ! j) (es ! j)
        \<and> storable fits sc (SKV_FIELD_OFFSET + j) (vs ! j)"
    and args: "mset args = mset es"
  shows "\<exists>s' e'. HandleRangeConditions S (Some (PgOperator PG_EXPR_AND name te args)) start end1 = returnE (kOk, [], s', e')
    \<and> (\<forall>j < length es. get s' (SKV_FIELD_OFFSET + j) = stored (vs ! j) \<and> get e' (SKV_FIELD_OFFSET + j) = stored (vs ! j))
    \<and> (\<forall>i. i < SKV_FIELD_OFFSET \<or> SKV_FIELD_OFFSET + length es \<le> i \<longrightarrow> get s' i = get start i \<and> get e' i = get end1 i)"
proof -
  let ?fs = "skv_fields sc" and ?o = SKV_FIELD_OFFSET
  define col where "col e = (SOME c. child_column e = returnE c)" for e
  have col: "child_column e = returnE (col e)" if "child_column e = returnE c" for e c
    using that unfolding col_def by (rule someI)
  have cole: "child_column (es ! j) = returnE (?fs ! (?o + j))" if "j < length es" for j
    using es that by (simp add: is_cond_def)
  have colj: "col (es ! j) = ?fs ! (?o + j)" if "j < length es" for j
    using cole [OF that] col [OF cole [OF that]] by simp
  have cols: "map col es = take (length es) (drop ?o ?fs)"
    by (rule nth_equalityI) (use colj k(2) in auto)
  have "set args = set es" using args by (rule mset_eq_setD)
  then have "\<forall>e \<in> set args. child_column e = returnE (col e)"
    using cole col by (metis in_set_conv_nth)
  then have ch: "children_by_col_name args = returnE (map (\<lambda>e. (col e, e)) args)" by (rule children_of_columns)
  have sorted: "sorted_args ?fs (map (\<lambda>e. (col e, e)) args) = es"
    by (rule sorted_args_prefix [OF args, where rest = "drop (length es) (drop ?o ?fs)"])
      (simp_all add: sc(3) cols distinct_drop del: drop_drop)
  let ?st = "\<lparr>rs_idx = int ?o - 1, rs_branch = False, rs_left = [], rs_start = skv_seek S ?o start, rs_end = skv_seek S ?o end1\<rparr>"
  have seek: "skv_cursor S (skv_seek S ?o r) = ?o \<and> skv_schema_of S (skv_seek S ?o r) = sc \<and> get (skv_seek S ?o r) = get r"
    if "r = start \<or> r = end1" for r
    using skv_laws_seek [OF laws, of ?o r] that sc(1,2) k(2) by (auto simp: num_fields_def)
  have "\<exists>st'. range_loop S (field_map ?fs) es ?st = returnE st' \<and> rs_left st' = rs_left ?st
      \<and> (\<forall>i. get (rs_start st') i = (if ?o \<le> i \<and> i < ?o + length es then stored (vs ! (i - ?o)) else get (rs_start ?st) i))
      \<and> (\<forall>i. get (rs_end st') i = (if ?o \<le> i \<and> i < ?o + length es then stored (vs ! (i - ?o)) else get (rs_end ?st) i))"
    using es k seek field_map_nth [OF sc(3)]
    by (intro range_loop_equalities [OF laws, where sc = sc and col = "\<lambda>j. ?fs ! (?o + j)"]) simp_all
  then obtain st' where "range_loop S (field_map ?fs) es ?st = returnE st'" "rs_left st' = []"
    "\<And>i. get (rs_start st') i = (if ?o \<le> i \<and> i < ?o + length es then stored (vs ! (i - ?o)) else get start i)"
    "\<And>i. get (rs_end st') i = (if ?o \<le> i \<and> i < ?o + length es then stored (vs ! (i - ?o)) else get end1 i)"
    using seek by auto
  moreover have "args \<noteq> []" using args k(1) by auto
  ultimately show ?thesis
    using ch sorted sc(1)
    by (intro exI [of _ "rs_start st'"] exI [of _ "rs_end st'"]) (simp add: HandleRangeConditions_def Let_def)
qed

lemma is_cond_column: "is_cond oc c (SqlValue_int w) (column_cond name oc c w)"
  by (simp add: is_cond_def)

lemma storable_int: "storable (\<lambda>_ _ _. True) sc i (SqlValue_int w)"
  by (simp add: storable_def literal_ok_def SqlValue_int_def)

theorem equality_prefix_becomes_point_witness:
  "\<exists>s' e'. HandleRangeConditions list_skv (Some (example_range [column_cond ''='' PG_EXPR_EQ ''b'' 4,
       column_cond ''='' PG_EXPR_EQ ''a'' 3])) (example_record 2) (example_record 2) = returnE (kOk, [], s', e')
    \<and> lr_vals s' 2 = Some (L_int64 3) \<and> lr_vals s' 3 = Some (L_int64 4) \<and> lr_vals e' 2 = Some (L_int64 3)"
proof -
  let ?es = "[column_cond ''='' PG_EXPR_EQ ''a'' 3, column_cond ''='' PG_EXPR_EQ ''b'' 4]"
  have s: "stored (SqlValue_int w) = Some (L_int64 w)" for w
    by (simp add: stored_def SqlValue_int_def the_literal_def returnE_def)
  have sc: "skv_schema_of list_skv (example_record 2) = lr_schema (example_record 2)" by (simp add: list_skv_def)
  show ?thesis
    using equality_prefix_becomes_point [OF list_skv_laws sc sc, of ?es "[SqlValue_int 3, SqlValue_int 4]"
        "[column_cond ''='' PG_EXPR_EQ ''b'' 4, column_cond ''='' PG_EXPR_EQ ''a'' 3]" "''and''" int64_entity]
    by (simp add: example_record_def example_range_def All_less_Suc2 is_cond_column storable_int SKV_FIELD_OFFSET_def s
        add_mset_commute numeral_2_eq_2 numeral_3_eq_3) blast
qed

text \<open>(C35)
  An integer lower bound on the first column followed by an equality on the second one
  misplaces the end of the scan: the equality is written to the end record at its own
  cursor, which is still on the column of the lower bound.  For the condition
  \<open>a >= x and b = y\<close> on the first two columns \<open>a\<close> and \<open>b\<close> of the table, where \<open>x\<close> is an
  integer value and the record accepts \<open>x\<close> and \<open>y\<close> in the field of \<open>a\<close> and \<open>y\<close> in the
  field of \<open>b\<close>, the end record bounds \<open>a\<close> by \<open>y\<close> and leaves \<open>b\<close> alone, and the equality is
  not kept as a filter.  (With a lower bound of another type the equality stays a filter.)
\<close>
theorem lower_bound_then_equality_misplaces_end:
  fixes S :: "'r skv"
  assumes laws: "skv_laws S get fits"
    and sc: "skv_schema_of S start = sc" "skv_schema_of S end1 = sc" "skv_fields sc = t # i # a # b # rest"
      "distinct (skv_fields sc)"
    and e: "is_cond PG_EXPR_GE a x e1" "is_cond PG_EXPR_EQ b y e2" "sv_type x = VT_INT"
    and fit: "storable fits sc 2 x" "storable fits sc 3 y" "storable fits sc 2 y"
  shows "\<exists>s' e'. HandleRangeConditions S (Some (PgOperator PG_EXPR_AND name te [e1, e2])) start end1
      = returnE (kOk, [e1], s', e')
    \<and> get s' 2 = stored x \<and> get s' 3 = stored y \<and> get e' 2 = stored y \<and> get e' 3 = get end1 3"
proof -
  let ?fm = "field_map (skv_fields sc)"
  let ?st = "\<lparr>rs_idx = 1, rs_branch = False, rs_left = [], rs_start = skv_seek S 2 start, rs_end = skv_seek S 2 end1\<rparr>"
  have fm: "?fm a = 2" "?fm b = 3"
    using field_map_nth [OF sc(4), of 0] field_map_nth [OF sc(4), of 1] by (simp_all add: sc(3) SKV_FIELD_OFFSET_def)
  have seek: "skv_cursor S (skv_seek S 2 r) = 2 \<and> skv_schema_of S (skv_seek S 2 r) = sc \<and> get (skv_seek S 2 r) = get r"
    if "r = start \<or> r = end1" for r
    using skv_laws_seek [OF laws, of 2 r] that sc(1-3) by (auto simp: num_fields_def)
  have len: "length (skv_fields sc) = 4 + length rest" by (simp add: sc(3))
  have "\<exists>s'. range_step S ?fm e1 ?st = returnE (?st\<lparr>rs_left := rs_left ?st @ [e1], rs_idx := ?fm a, rs_start := s'\<rparr>)
      \<and> steps_to S get (stored x) (rs_start ?st) s'"
    using seek fit(1) e(3) len by (intro range_step_ge [OF laws e(1)]) (simp_all add: adjacent_def fm num_fields_def)
  then obtain s1 where s1: "range_step S ?fm e1 ?st = returnE (?st\<lparr>rs_left := [e1], rs_idx := 2, rs_start := s1\<rparr>)"
      "skv_cursor S s1 = 3" "skv_schema_of S s1 = sc" "get s1 = (get start)(2 := stored x)"
    using seek by (auto simp: steps_to_def fm)
  let ?st1 = "?st\<lparr>rs_left := [e1], rs_idx := 2, rs_start := s1\<rparr>"
  have "\<exists>s' e'. range_step S ?fm e2 ?st1 = returnE (?st1\<lparr>rs_idx := ?fm b, rs_start := s', rs_end := e'\<rparr>)
      \<and> steps_to S get (stored y) (rs_start ?st1) s' \<and> steps_to S get (stored y) (rs_end ?st1) e'"
    using s1 seek fit(2,3) len by (intro range_step_eq [OF laws e(2)]) (simp_all add: adjacent_def fm num_fields_def)
  then obtain s2 e3 where s2: "range_step S ?fm e2 ?st1 = returnE (?st1\<lparr>rs_idx := 3, rs_start := s2, rs_end := e3\<rparr>)"
      "get s2 = (get s1)(3 := stored y)" "get e3 = (get end1)(2 := stored y)"
    using s1 seek by (auto simp: steps_to_def fm)
  have ch: "children_by_col_name [e1, e2] = returnE [(a, e1), (b, e2)]" using e by (simp add: is_cond_def)
  have "sorted_args (skv_fields sc) [(a, e1), (b, e2)] = [e1, e2]"
    using sc(4) by (auto simp: sc(3) sorted_args_def SKV_FIELD_OFFSET_def filter_empty_conv)
  then have "HandleRangeConditions S (Some (PgOperator PG_EXPR_AND name te [e1, e2])) start end1
      = returnE (kOk, [e1], s2, e3)"
    using ch s1(1) s2(1) by (simp add: HandleRangeConditions_def sc(1) SKV_FIELD_OFFSET_def del: children_by_col_name.simps)
  then show ?thesis using s2 s1(4) by auto
qed

theorem lower_bound_then_equality_misplaces_end_witness:
  "\<exists>s' e'. HandleRangeConditions list_skv (Some (example_range [column_cond ''>='' PG_EXPR_GE ''a'' 10,
       column_cond ''='' PG_EXPR_EQ ''b'' 4])) (example_record 2) (example_record 2)
     = returnE (kOk, [column_cond ''>='' PG_EXPR_GE ''a'' 10], s', e') \<and> lr_vals e' 2 = stored (SqlValue_int 4)"
proof -
  have sc: "skv_schema_of list_skv (example_record 2) = lr_schema (example_record 2)" by (simp add: list_skv_def)
  have "sv_type (SqlValue_int 10) = VT_INT" by (simp add: SqlValue_int_def)
  from lower_bound_then_equality_misplaces_end [OF list_skv_laws sc sc _ _
      is_cond_column [of PG_EXPR_GE "''a''" 10 "''>=''"] is_cond_column [of PG_EXPR_EQ "''b''" 4 "''=''"] this
      storable_int storable_int storable_int, of "''TableId''" "''IndexId''" "[''c'']" "''and''" int64_entity]
  show ?thesis unfolding example_range_def by (auto simp: example_record_def)
qed

end
