(* ===== verification/Adapter_Ops.thy ===== *)
theory Adapter_Ops
  imports Adapter_Record K2_Codes
begin

text \<open>
  Execution of read and write operations by the adapter (pggate/k2_adapter.cc,
  pggate/pg_op_api.h).  The transaction and the client of the storage platform are the
  parameter \<open>storage\<close>; each call maps the state \<open>'w\<close> of the storage to a reply,
  which is exceptional or not, and a new state.  Each handler is the task that the
  code enqueues in the thread pool.
\<close>

subsection \<open>Computations over the storage\<close>

type_synonym ('w, 'a) io = "'w \<Rightarrow> ((std_exception + 'a) \<times> 'w) option"

definition returnIO :: "'a \<Rightarrow> ('w, 'a) io" where
  "returnIO x w = Some (Inr x, w)"

definition throwIO :: "std_exception \<Rightarrow> ('w, 'a) io" where
  "throwIO e w = Some (Inl e, w)"

definition bindIO :: "('w, 'a) io \<Rightarrow> ('a \<Rightarrow> ('w, 'b) io) \<Rightarrow> ('w, 'b) io" where
  "bindIO m f w = (case m w of None \<Rightarrow> None | Some (Inl e, w1) \<Rightarrow> Some (Inl e, w1) | Some (Inr x, w1) \<Rightarrow> f x w1)"

definition liftIO :: "'a run \<Rightarrow> ('w, 'a) io" where
  "liftIO m w = map_option (\<lambda>r. (r, w)) m"

definition callIO :: "('w \<Rightarrow> (std_exception + 'a) \<times> 'w) \<Rightarrow> ('w, 'a) io" where
  "callIO f w = Some (f w)"

subsection \<open>The storage interface\<close>

datatype precondition = Precondition_None | NotExists | Exists

record ('r, 'q, 'w) storage =
  si_skv :: "'r skv"
  si_getSchema :: "string \<Rightarrow> string \<Rightarrow> 64 word option \<Rightarrow> 'w \<Rightarrow> (std_exception + k2_status \<times> skv_schema) \<times> 'w"
  si_newRecord :: "string \<Rightarrow> skv_schema \<Rightarrow> 'r"
  si_emptyRecord :: 'r
  si_recordOf :: "string \<Rightarrow> skv_schema \<Rightarrow> string \<Rightarrow> std_exception + 'r"
  si_toString :: "'r \<Rightarrow> string"
  si_partitionKey :: "'r \<Rightarrow> std_exception + string"
  si_write :: "'r \<Rightarrow> bool \<Rightarrow> precondition \<Rightarrow> 'w \<Rightarrow> (std_exception + k2_status) \<times> 'w"
  si_partialUpdate :: "'r \<Rightarrow> nat list \<Rightarrow> string \<Rightarrow> 'w \<Rightarrow> (std_exception + k2_status) \<times> 'w"
  si_read :: "'r \<Rightarrow> 'w \<Rightarrow> (std_exception + k2_status \<times> 'r) \<times> 'w"
  si_createScanRead :: "string \<Rightarrow> string \<Rightarrow> 'w \<Rightarrow> (std_exception + k2_status \<times> 'q) \<times> 'w"
  si_scanRead :: "'q \<Rightarrow> 'w \<Rightarrow> (std_exception + k2_status \<times> 'r list \<times> 'q) \<times> 'w"
  q_schema :: "'q \<Rightarrow> skv_schema"
  q_setReverseDirection :: "bool \<Rightarrow> 'q \<Rightarrow> 'q"
  q_addProjection :: "string \<Rightarrow> 'q \<Rightarrow> 'q"
  q_setBounds :: "'r \<Rightarrow> 'r \<Rightarrow> 'q \<Rightarrow> 'q"
  q_setFilterExpression :: "k2_expression \<Rightarrow> 'q \<Rightarrow> 'q"
  q_setLimit :: "64 word \<Rightarrow> 'q \<Rightarrow> 'q"
  q_isDone :: "'q \<Rightarrow> bool"
  k2_is2xxOK :: "k2_status \<Rightarrow> bool"
  k2_ConditionFailed :: k2_status
  k2_OK :: k2_status

subsection \<open>Requests and responses\<close>

datatype StmtType = PGSQL_INSERT | PGSQL_UPDATE | PGSQL_DELETE | PGSQL_UPSERT | PGSQL_TRUNCATE_COLOCATED

record 'q SqlOpPagingState =
  ps_query :: "'q option"
  ps_total_num_rows_read :: "64 word"

record SqlOpWriteRequest =
  wr_stmt_type :: StmtType
  wr_collection_name :: string
  wr_table_id :: string
  wr_base_table_oid :: oid
  wr_index_oid :: oid
  wr_schema_version :: "64 word"
  wr_key_column_values :: "BindVariable list"
  wr_k2pgctid_column_value :: "BindVariable option"
  wr_column_values :: "BindVariable option list"
  wr_column_new_values :: "BindVariable option list"
  wr_targets :: "PgExpr list"

record 'q SqlOpReadRequest =
  rd_collection_name :: string
  rd_table_id :: string
  rd_base_table_oid :: oid
  rd_index_oid :: oid
  rd_schema_version :: "64 word"
  rd_key_column_values :: "BindVariable list"
  rd_k2pgctid_column_values :: "BindVariable list"
  rd_targets :: "PgExpr list"
  rd_range_conds :: "PgExpr option"
  rd_where_conds :: "PgExpr option"
  rd_is_forward_scan :: bool
  rd_distinct :: bool
  rd_is_aggregate :: bool
  rd_limit :: "64 word"
  rd_return_paging_state :: bool
  rd_row_mark_type :: int
  rd_paging_state :: "'q SqlOpPagingState option"

record 'q SqlOpResponse =
  resp_status :: RequestStatus
  resp_skipped :: bool
  resp_paging_state :: "'q SqlOpPagingState option"
  resp_rows_affected_count :: int

text \<open>The new response is value initialised: members without an initialiser are zero.\<close>
definition allocateResponse :: "'q SqlOpResponse" where
  "allocateResponse = \<lparr>resp_status = PGSQL_STATUS_OK, resp_skipped = False, resp_paging_state = None,
     resp_rows_affected_count = 0\<rparr>"

subsection \<open>Row identifiers\<close>

text \<open>The slice member is a separate string, empty until it is first written.\<close>
fun slice_member :: "sql_data \<Rightarrow> string run" where
  "slice_member (D_slice s) = returnE s"
| "slice_member D_none = returnE []"
| "slice_member _ = None"

definition row_id_slice :: "PgExpr \<Rightarrow> string run" where
  "row_id_slice e = (if \<not> is_constant e then throwE Invalid_argument
     else bindE (as_value e) (\<lambda>v. if sv_type v \<noteq> VT_SLICE then throwE Invalid_argument else slice_member (sv_data v)))"

definition K2PGTIDToString :: "BindVariable option \<Rightarrow> string run" where
  "K2PGTIDToString b = (case b of None \<Rightarrow> returnE []
     | Some v \<Rightarrow> (case bv_expr v of None \<Rightarrow> returnE [] | Some e \<Rightarrow> row_id_slice e))"

definition K2PGTIDToRecord :: "('r, 'q, 'w) storage \<Rightarrow> string \<Rightarrow> skv_schema \<Rightarrow> BindVariable option \<Rightarrow> 'r run" where
  "K2PGTIDToRecord st coll sc b = (case b of None \<Rightarrow> returnE (si_emptyRecord st)
     | Some v \<Rightarrow> (case bv_expr v of None \<Rightarrow> returnE (si_emptyRecord st)
       | Some e \<Rightarrow> bindE (row_id_slice e) (\<lambda>s. bindE (Some (si_recordOf st coll sc s)) (\<lambda>r.
           returnE (skv_seek (si_skv st) 0 r)))))"

text \<open>The record of a request with its keys; \<^term>\<open>Inl c\<close> when the schema cannot be had.\<close>
definition MakeSKVRecordWithKeysSerialized ::
  "('r, 'q, 'w) storage \<Rightarrow> string \<Rightarrow> string \<Rightarrow> 64 word \<Rightarrow> oid \<Rightarrow> oid \<Rightarrow> BindVariable list \<Rightarrow> bool \<Rightarrow> bool \<Rightarrow>
   ('w, code + 'r) io" where
  "MakeSKVRecordWithKeysSerialized st coll table_id version base_oid index_oid keys existYbctids ignoreK2PGTID =
    bindIO (callIO (si_getSchema st coll table_id (Some version))) (\<lambda>(status, sc).
      if \<not> k2_is2xxOK st status then returnIO (Inl (K2StatusToK2PgStatus status))
      else liftIO (bindE (fill_key_record (si_skv st) base_oid index_oid keys (existYbctids \<and> \<not> ignoreK2PGTID)
                     (si_newRecord st coll sc)) (\<lambda>r. returnE (Inr r))))"

definition MakeSKVRecord_write :: "('r, 'q, 'w) storage \<Rightarrow> SqlOpWriteRequest \<Rightarrow> bool \<Rightarrow> bool \<Rightarrow> ('w, code + 'r) io" where
  "MakeSKVRecord_write st req = MakeSKVRecordWithKeysSerialized st (wr_collection_name req) (wr_table_id req)
     (wr_schema_version req) (wr_base_table_oid req) (wr_index_oid req) (wr_key_column_values req)"

definition MakeSKVRecord_read :: "('r, 'q, 'w) storage \<Rightarrow> 'q SqlOpReadRequest \<Rightarrow> ('w, code + 'r) io" where
  "MakeSKVRecord_read st req = MakeSKVRecordWithKeysSerialized st (rd_collection_name req) (rd_table_id req)
     (rd_schema_version req) (rd_base_table_oid req) (rd_index_oid req) (rd_key_column_values req) False False"

text \<open>Row id of a write request; the fields after the keys are null.\<close>
definition GetRowId :: "('r, 'q, 'w) storage \<Rightarrow> SqlOpWriteRequest \<Rightarrow> ('w, string) io" where
  "GetRowId st req = (case wr_k2pgctid_column_value req of
      Some b \<Rightarrow> liftIO (K2PGTIDToString (Some b))
    | None \<Rightarrow> bindIO (MakeSKVRecord_write st req False False) (\<lambda>made. case made of
        Inl c \<Rightarrow> throwIO Runtime_error
      | Inr r \<Rightarrow> let sc = skv_schema_of (si_skv st) r in
          liftIO (bindE (serialize_nulls (si_skv st)
              (length (skv_fields sc) - length (skv_partition_keys sc) - length (skv_range_keys sc)) r)
            (\<lambda>r1. returnE (si_toString st r1)))))"

text \<open>Row id from named key values; fields without a value are null.\<close>
fun serialize_named :: "'r skv \<Rightarrow> (string \<rightharpoonup> sql_value) \<Rightarrow> string list \<Rightarrow> 'r \<Rightarrow> 'r run" where
  "serialize_named S vals [] r = returnE r"
| "serialize_named S vals (f # fs) r = bindE (case vals f of
      Some v \<Rightarrow> SerializeValueToSKVRecord S v r
    | None \<Rightarrow> Some (skv_null S r)) (serialize_named S vals fs)"

definition GetRowId_named ::
  "('r, 'q, 'w) storage \<Rightarrow> string \<Rightarrow> string \<Rightarrow> 64 word \<Rightarrow> oid \<Rightarrow> oid \<Rightarrow> (string \<rightharpoonup> sql_value) \<Rightarrow> ('w, string) io" where
  "GetRowId_named st coll schema_name version base_oid index_oid vals =
    bindIO (callIO (si_getSchema st coll schema_name (Some version))) (\<lambda>(status, sc).
      if \<not> k2_is2xxOK st status then throwIO Runtime_error
      else liftIO (bindE (Some (skv_next (si_skv st) (L_int64 (ucast base_oid)) (si_newRecord st coll sc))) (\<lambda>r1.
           bindE (Some (skv_next (si_skv st) (L_int64 (ucast index_oid)) r1)) (\<lambda>r2.
           bindE (serialize_named (si_skv st) vals (drop SKV_FIELD_OFFSET (skv_fields sc)) r2) (\<lambda>r3.
             returnE (si_toString st r3))))))"

subsection \<open>Writes\<close>

definition write_precondition :: "StmtType \<Rightarrow> precondition" where
  "write_precondition t = (if t = PGSQL_INSERT then NotExists else if t = PGSQL_DELETE then Exists else Precondition_None)"

text \<open>The record that is sent, the fields to update and the cached key record.\<close>
definition write_record :: "('r, 'q, 'w) storage \<Rightarrow> SqlOpWriteRequest \<Rightarrow> 'r \<Rightarrow> ('r \<times> nat list \<times> 'r) run" where
  "write_record st req r =
    (let useK2PGTID = wr_stmt_type req \<noteq> PGSQL_INSERT \<and> wr_k2pgctid_column_value req \<noteq> None in
     bindE (if useK2PGTID then K2PGTIDToRecord st (wr_collection_name req) (skv_schema_of (si_skv st) r)
              (wr_k2pgctid_column_value req) else returnE (si_emptyRecord st)) (\<lambda>keyRecord.
     bindE (SerializeSKVValueFields (si_skv st)
              (if wr_stmt_type req \<noteq> PGSQL_UPDATE then wr_column_values req else wr_column_new_values req) r) (\<lambda>(r1, fs).
     returnE (if wr_stmt_type req = PGSQL_DELETE \<and> useK2PGTID then keyRecord else r1, fs, keyRecord))))"

definition send_write :: "('r, 'q, 'w) storage \<Rightarrow> SqlOpWriteRequest \<Rightarrow> 'r \<times> nat list \<times> 'r \<Rightarrow> ('w, k2_status) io" where
  "send_write st req = (\<lambda>(r, fs, keyRecord).
    if wr_stmt_type req \<noteq> PGSQL_UPDATE
    then callIO (si_write st r (wr_stmt_type req = PGSQL_DELETE) (write_precondition (wr_stmt_type req)))
    else bindIO (liftIO (Some (si_partitionKey st keyRecord))) (\<lambda>pk. callIO (si_partialUpdate st r fs pk)))"

text \<open>A failed condition of an update or a delete means that no row was affected.\<close>
definition write_response ::
  "('r, 'q, 'w) storage \<Rightarrow> StmtType \<Rightarrow> k2_status \<Rightarrow> 'q SqlOpResponse \<Rightarrow> code \<times> 'q SqlOpResponse" where
  "write_response st t c resp =
    (let ok = k2_is2xxOK st c;
         c' = (if \<not> ok \<and> t \<noteq> PGSQL_INSERT \<and> c = k2_ConditionFailed st then k2_OK st else c)
     in (K2StatusToK2PgStatus c', resp\<lparr>resp_rows_affected_count := (if ok then 1 else 0),
           resp_status := K2StatusToPGStatus c'\<rparr>))"

definition write_body ::
  "('r, 'q, 'w) storage \<Rightarrow> SqlOpWriteRequest \<Rightarrow> 'q SqlOpResponse \<Rightarrow> ('w, code \<times> 'q SqlOpResponse) io" where
  "write_body st req resp =
    (if wr_targets req \<noteq> [] then throwIO Logic_error
     else bindIO (MakeSKVRecord_write st req (wr_k2pgctid_column_value req \<noteq> None) (wr_stmt_type req = PGSQL_INSERT))
       (\<lambda>made. case made of
          Inl c \<Rightarrow> returnIO (c, resp\<lparr>resp_status := PGSQL_STATUS_RUNTIME_ERROR, resp_rows_affected_count := 0\<rparr>)
        | Inr r \<Rightarrow> bindIO (liftIO (write_record st req r)) (\<lambda>rec.
            bindIO (send_write st req rec) (\<lambda>c. returnIO (write_response st (wr_stmt_type req) c resp)))))"

text \<open>What the promise gets, the response and the storage afterwards; an exception is handed to the promise.\<close>
definition handleWriteOp ::
  "('r, 'q, 'w) storage \<Rightarrow> SqlOpWriteRequest \<Rightarrow> 'q SqlOpResponse \<Rightarrow> 'w \<Rightarrow>
   ((std_exception + code) \<times> 'q SqlOpResponse \<times> 'w) option" where
  "handleWriteOp st req resp0 w =
    (let resp = resp0\<lparr>resp_skipped := False\<rparr> in
     case write_body st req resp w of
       None \<Rightarrow> None
     | Some (Inl e, w1) \<Rightarrow> Some (Inl e, resp, w1)
     | Some (Inr (c, resp1), w1) \<Rightarrow> Some (Inr c, resp1, w1))"

subsection \<open>Reads by row id\<close>

text \<open>All reads are issued first; their replies are collected afterwards.\<close>
fun issue_reads ::
  "('r, 'q, 'w) storage \<Rightarrow> 'q SqlOpReadRequest \<Rightarrow> BindVariable list \<Rightarrow> ('w, (std_exception + k2_status \<times> 'r) list) io" where
  "issue_reads st req [] = returnIO []"
| "issue_reads st req (b # bs) =
    bindIO (callIO (si_getSchema st (rd_collection_name req) (rd_table_id req) None)) (\<lambda>(status, sc).
      if \<not> k2_is2xxOK st status then throwIO Runtime_error
      else bindIO (liftIO (K2PGTIDToRecord st (rd_collection_name req) sc (Some b))) (\<lambda>key.
        bindIO (\<lambda>w. let (reply, w1) = si_read st key w in Some (Inr reply, w1)) (\<lambda>reply.
        bindIO (issue_reads st req bs) (\<lambda>replies. returnIO (reply # replies)))))"

text \<open>
  Rows so far and the status of the last reply; a failed read ends the loop, and so
  does an exceptional one, which leaves the rows read before in place.
\<close>
fun collect_reads ::
  "('r, 'q, 'w) storage \<Rightarrow> (std_exception + k2_status \<times> 'r) list \<Rightarrow> 'r list \<Rightarrow> k2_status \<Rightarrow>
   'r list \<times> (std_exception + k2_status)" where
  "collect_reads st [] rows status = (rows, Inr status)"
| "collect_reads st (Inl e # replies) rows status = (rows, Inl e)"
| "collect_reads st (Inr (c, r) # replies) rows status =
    (if k2_is2xxOK st c then collect_reads st replies (rows @ [r]) c else (rows, Inr c))"

text \<open>\<open>initial\<close> is the code of a status that was only default constructed.\<close>
definition handleReadByRowIds ::
  "('r, 'q, 'w) storage \<Rightarrow> k2_status \<Rightarrow> 'q SqlOpReadRequest \<Rightarrow> 'q SqlOpResponse \<Rightarrow> 'r list \<Rightarrow>
   ('w, (std_exception + code) \<times> 'q SqlOpResponse \<times> 'r list) io" where
  "handleReadByRowIds st initial req resp rows0 =
    bindIO (issue_reads st req (rd_k2pgctid_column_values req)) (\<lambda>replies.
      returnIO (case collect_reads st replies rows0 initial of
          (rows, Inl e) \<Rightarrow> (Inl e, resp, rows)
        | (rows, Inr c) \<Rightarrow> (Inr (K2StatusToK2PgStatus c),
            resp\<lparr>resp_paging_state := None, resp_status := K2StatusToPGStatus c\<rparr>, rows)))"

subsection \<open>Scans\<close>

text \<open>Key fields first, then the other stored columns among the targets.\<close>
fun add_targets ::
  "('r, 'q, 'w) storage \<Rightarrow> string list \<Rightarrow> PgExpr list \<Rightarrow> 'q \<Rightarrow> 'q run" where
  "add_targets st keys [] q = returnE q"
| "add_targets st keys (t # ts) q =
    (if \<not> is_colref t then throwE Logic_error
     else case t of
       PgColumnRef n name _ _ \<Rightarrow>
         add_targets st keys ts (if n = VIRTUAL_COLUMN \<or> name \<in> set keys then q else q_addProjection st name q)
     | _ \<Rightarrow> None)"

definition key_field_names :: "skv_schema \<Rightarrow> string list" where
  "key_field_names sc = map (\<lambda>i. skv_fields sc ! i) (skv_partition_keys sc)"

definition add_projections :: "('r, 'q, 'w) storage \<Rightarrow> PgExpr list \<Rightarrow> 'q \<Rightarrow> 'q run" where
  "add_projections st targets q =
    (let keys = key_field_names (q_schema st q) in
     add_targets st keys targets (if targets = [] then q else fold (q_addProjection st) keys q))"

text \<open>
  The filter: the left over conditions are appended to the where condition, or to a
  new conjunction \<open>bool_type\<close> is the type entity of; no filter when it has no
  arguments.
\<close>
fun append_args :: "PgExpr list \<Rightarrow> PgExpr \<Rightarrow> PgExpr checked" where
  "append_args [] e = Some e"
| "append_args (a # as) e = do { e1 \<leftarrow> AppendArg a e; append_args as e1 }"

definition filter_expression :: "type_entity \<Rightarrow> PgExpr option \<Rightarrow> PgExpr list \<Rightarrow> k2_expression option run" where
  "filter_expression bool_type where_conds leftover =
    (if where_conds = None \<and> leftover = [] then returnE None
     else case new_PgOperator ''and'' bool_type of
       None \<Rightarrow> None
     | Some top_and \<Rightarrow>
        (case append_args leftover (case where_conds of Some e \<Rightarrow> e | None \<Rightarrow> top_and) of
           None \<Rightarrow> None
         | Some topop \<Rightarrow> (case getArgs topop of
             None \<Rightarrow> None
           | Some [] \<Rightarrow> returnE None
           | Some _ \<Rightarrow> bindE (ToK2Expression topop) (\<lambda>k. returnE (Some k)))))"

text \<open>
  The query of a request without a running scan: \<^term>\<open>Inl c\<close> carries the status
  and the response status of a request that ends here.
\<close>
definition build_scan ::
  "('r, 'q, 'w) storage \<Rightarrow> type_entity \<Rightarrow> 'q SqlOpReadRequest \<Rightarrow> ('w, (code \<times> RequestStatus) + 'q) io" where
  "build_scan st bool_type req =
    bindIO (callIO (si_createScanRead st (rd_collection_name req) (rd_table_id req))) (\<lambda>(status, q0).
      if \<not> k2_is2xxOK st status then returnIO (Inl (K2StatusToK2PgStatus status, K2StatusToPGStatus status))
      else bindIO (liftIO (add_projections st (rd_targets req)
                     (q_setReverseDirection st (\<not> rd_is_forward_scan req) q0))) (\<lambda>q1.
        bindIO (MakeSKVRecord_read st req) (\<lambda>start. bindIO (MakeSKVRecord_read st req) (\<lambda>end1.
          case (start, end1) of
            (Inr s, Inr e) \<Rightarrow>
              bindIO (liftIO (HandleRangeConditions (si_skv st) (rd_range_conds req) s e)) (\<lambda>(c, left, s1, e1).
                if c \<noteq> kOk then returnIO (Inl (c, PGSQL_STATUS_RUNTIME_ERROR))
                else bindIO (liftIO (filter_expression bool_type (rd_where_conds req) left)) (\<lambda>f.
                  let q2 = q_setBounds st s1 e1 q1;
                      q3 = (case f of None \<Rightarrow> q2 | Some k \<Rightarrow> q_setFilterExpression st k q2);
                      q4 = (if rd_limit req > 0 then q_setLimit st (rd_limit req) q3 else q3)
                  in returnIO (Inr q4)))
          | (Inl c, _) \<Rightarrow> returnIO (Inl (c, PGSQL_STATUS_RUNTIME_ERROR))
          | (_, Inl c) \<Rightarrow> returnIO (Inl (c, PGSQL_STATUS_RUNTIME_ERROR))))))"

text \<open>The paging state after a batch of \<open>n\<close> rows; the query is a shared object.\<close>
definition next_paging_state :: "('r, 'q, 'w) storage \<Rightarrow> 'q SqlOpPagingState option \<Rightarrow> 'q \<Rightarrow> nat \<Rightarrow> 'q SqlOpPagingState option" where
  "next_paging_state st ps q n =
    (if q_isDone st q then None
     else case ps of
       Some p \<Rightarrow> Some (p\<lparr>ps_query := (if ps_query p = None then None else Some q),
                         ps_total_num_rows_read := ps_total_num_rows_read p + of_nat n\<rparr>)
     | None \<Rightarrow> Some \<lparr>ps_query = Some q, ps_total_num_rows_read = of_nat n\<rparr>)"

definition running_query :: "'q SqlOpReadRequest \<Rightarrow> 'q option" where
  "running_query req = (case rd_paging_state req of None \<Rightarrow> None | Some p \<Rightarrow> ps_query p)"

definition read_body ::
  "('r, 'q, 'w) storage \<Rightarrow> type_entity \<Rightarrow> k2_status \<Rightarrow> 'q SqlOpReadRequest \<Rightarrow> 'q SqlOpResponse \<Rightarrow> 'r list \<Rightarrow>
   ('w, (std_exception + code) \<times> 'q SqlOpResponse \<times> 'r list) io" where
  "read_body st bool_type initial req resp rows0 =
    (if rd_k2pgctid_column_values req \<noteq> [] then handleReadByRowIds st initial req resp rows0
     else bindIO (case running_query req of Some q \<Rightarrow> returnIO (Inr q) | None \<Rightarrow> build_scan st bool_type req) (\<lambda>built.
       case built of
         Inl (c, rs) \<Rightarrow> returnIO (Inr c, resp\<lparr>resp_status := rs, resp_rows_affected_count := 0\<rparr>, rows0)
       | Inr q \<Rightarrow> bindIO (callIO (si_scanRead st q)) (\<lambda>(c, rows, q1).
           returnIO (Inr (K2StatusToK2PgStatus c),
             resp\<lparr>resp_paging_state := next_paging_state st (rd_paging_state req) q1 (length rows),
                  resp_status := K2StatusToPGStatus c\<rparr>, rows))))"

definition handleReadOp ::
  "('r, 'q, 'w) storage \<Rightarrow> type_entity \<Rightarrow> k2_status \<Rightarrow> 'q SqlOpReadRequest \<Rightarrow> 'q SqlOpResponse \<Rightarrow> 'r list \<Rightarrow> 'w \<Rightarrow>
   ((std_exception + code) \<times> 'q SqlOpResponse \<times> 'r list \<times> 'w) option" where
  "handleReadOp st bool_type initial req resp0 rows0 w =
    (let resp = resp0\<lparr>resp_skipped := False\<rparr> in
     case read_body st bool_type initial req resp rows0 w of
       None \<Rightarrow> None
     | Some (Inl e, w1) \<Rightarrow> Some (Inl e, resp, rows0, w1)
     | Some (Inr (res, resp1, rows), w1) \<Rightarrow> Some (res, resp1, rows, w1))"

subsection \<open>Batches\<close>

text \<open>
  The collecting task of a batch: the replies of the operations in order, the last
  failed status so far, the last exception so far.
\<close>
fun batch_loop :: "(std_exception + code) list \<Rightarrow> code \<times> std_exception option \<Rightarrow> code \<times> std_exception option" where
  "batch_loop [] acc = acc"
| "batch_loop (Inr c # rs) (status, e) = batch_loop rs (if c \<noteq> kOk then c else status, e)"
| "batch_loop (Inl x # rs) (status, e) = batch_loop rs (status, Some x)"

definition BatchExec :: "(std_exception + code) list \<Rightarrow> std_exception + code" where
  "BatchExec replies = (case batch_loop replies (kOk, None) of (_, Some e) \<Rightarrow> Inl e | (status, None) \<Rightarrow> Inr status)"

subsection \<open>Lemmas\<close>

lemma io_simps [simp]:
  "bindIO (returnIO x) f = f x" "bindIO (throwIO e) f = throwIO e" "liftIO (returnE x) = returnIO x"
  "liftIO (throwE e) = throwIO e"
  by (auto simp: bindIO_def returnIO_def throwIO_def liftIO_def returnE_def throwE_def fun_eq_iff)

lemma bindIO_eq: "m w = Some (Inr x, w1) \<Longrightarrow> bindIO m f w = f x w1"
  by (simp add: bindIO_def)

text \<open>Documented behaviour of conditional writes: \<open>tbl\<close> is the stored table, \<open>key\<close> the key of a record.\<close>
definition kv_laws :: "('r, 'q, 'w) storage \<Rightarrow> ('w \<Rightarrow> ('k \<rightharpoonup> 'r)) \<Rightarrow> ('r \<Rightarrow> 'k) \<Rightarrow> bool" where
  "kv_laws st tbl key \<longleftrightarrow>
    k2_ConditionFailed st = 412 \<and> \<not> k2_is2xxOK st 412 \<and> k2_OK st = 200
    \<and> (\<forall>r erase p w.
        if p = NotExists \<and> tbl w (key r) \<noteq> None \<or> p = Exists \<and> tbl w (key r) = None
        then \<exists>w'. si_write st r erase p w = (Inr 412, w') \<and> tbl w' = tbl w
        else \<exists>c w'. si_write st r erase p w = (Inr c, w') \<and> c \<in> {200, 201, 202} \<and> k2_is2xxOK st c
          \<and> tbl w' = (tbl w)(key r := if erase then None else Some r))"

lemma kv_write_ok:
  assumes "kv_laws st tbl key" "p = NotExists \<Longrightarrow> tbl w (key r) = None" "p = Exists \<Longrightarrow> tbl w (key r) \<noteq> None"
  obtains c w' where "si_write st r erase p w = (Inr c, w')" "c \<in> {200, 201, 202}" "k2_is2xxOK st c"
    "tbl w' = (tbl w)(key r := if erase then None else Some r)"
  using assms unfolding kv_laws_def by (metis (no_types))

lemma kv_write_failed:
  assumes "kv_laws st tbl key" "p = NotExists \<and> tbl w (key r) \<noteq> None \<or> p = Exists \<and> tbl w (key r) = None"
  obtains w' where "si_write st r erase p w = (Inr 412, w')" "tbl w' = tbl w"
  using assms unfolding kv_laws_def by (metis (no_types))

lemma handleWriteOp_send:
  assumes "wr_targets req = []" "write_record st req r0 = returnE (r, fs, kr)"
    "MakeSKVRecord_write st req (wr_k2pgctid_column_value req \<noteq> None) (wr_stmt_type req = PGSQL_INSERT) w = Some (Inr (Inr r0), w1)"
    "wr_stmt_type req \<noteq> PGSQL_UPDATE"
    "si_write st r (wr_stmt_type req = PGSQL_DELETE) (write_precondition (wr_stmt_type req)) w1 = (Inr c, w2)"
  shows "handleWriteOp st req resp w =
    (let (code, resp') = write_response st (wr_stmt_type req) c (resp\<lparr>resp_skipped := False\<rparr>) in Some (Inr code, resp', w2))"
proof -
  have "write_body st req resp1 w = Some (Inr (write_response st (wr_stmt_type req) c resp1), w2)" for resp1
    using assms by (simp add: write_body_def send_write_def bindIO_def callIO_def returnIO_def)
  then show ?thesis by (simp add: handleWriteOp_def split: prod.split)
qed

text \<open>(C2)
  Inserts and deletes against a store with conditional writes do what SQL expects.  An
  insert stores the record and affects one row when its key is free; otherwise it is
  refused as a duplicate key and changes nothing.  A delete removes the row and affects
  one row when it is there; otherwise it succeeds with no row affected.
\<close>
theorem handleWriteOp_insert_delete:
  assumes kv: "kv_laws st tbl key"
    and req: "wr_targets req = []" "write_record st req r0 = returnE (r, fs, kr)"
      "MakeSKVRecord_write st req (wr_k2pgctid_column_value req \<noteq> None) (wr_stmt_type req = PGSQL_INSERT) w = Some (Inr (Inr r0), w1)"
    and t: "wr_stmt_type req \<in> {PGSQL_INSERT, PGSQL_DELETE}"
  shows "\<exists>code resp' w2. handleWriteOp st req resp w = Some (Inr code, resp', w2) \<and>
    (if (wr_stmt_type req = PGSQL_INSERT) = (tbl w1 (key r) = None)
     then code = kOk \<and> resp_status resp' = PGSQL_STATUS_OK \<and> resp_rows_affected_count resp' = 1
       \<and> tbl w2 = (tbl w1)(key r := if wr_stmt_type req = PGSQL_INSERT then Some r else None)
     else code = (if wr_stmt_type req = PGSQL_INSERT then kAlreadyPresent else kOk)
       \<and> resp_status resp' = (if wr_stmt_type req = PGSQL_INSERT then PGSQL_STATUS_DUPLICATE_KEY_ERROR else PGSQL_STATUS_OK)
       \<and> resp_rows_affected_count resp' = 0 \<and> tbl w2 = tbl w1)"
proof -
  let ?t = "wr_stmt_type req"
  have codes: "k2_ConditionFailed st = 412" "\<not> k2_is2xxOK st 412" "k2_OK st = 200" using kv by (simp_all add: kv_laws_def)
  have upd: "?t \<noteq> PGSQL_UPDATE" using t by auto
  show ?thesis
  proof (cases "(?t = PGSQL_INSERT) = (tbl w1 (key r) = None)")
    case True
    then obtain c w2 where w2: "si_write st r (?t = PGSQL_DELETE) (write_precondition ?t) w1 = (Inr c, w2)"
      "c \<in> {200, 201, 202}" "k2_is2xxOK st c" "tbl w2 = (tbl w1)(key r := if ?t = PGSQL_DELETE then None else Some r)"
      using t by (elim kv_write_ok [OF kv, of "write_precondition ?t" w1 r "?t = PGSQL_DELETE", rotated 2])
        (auto simp: write_precondition_def split: if_splits)
    then have ok: "K2StatusToK2PgStatus c = kOk" "K2StatusToPGStatus c = PGSQL_STATUS_OK" by auto
    show ?thesis
      using True t w2(3,4) handleWriteOp_send [OF req upd w2(1)] ok
      by (auto simp: write_response_def Let_def)
  next
    case False
    then obtain w2 where w2: "si_write st r (?t = PGSQL_DELETE) (write_precondition ?t) w1 = (Inr 412, w2)" "tbl w2 = tbl w1"
      using t by (elim kv_write_failed [OF kv, of "write_precondition ?t" w1 r "?t = PGSQL_DELETE", rotated])
        (auto simp: write_precondition_def)
    show ?thesis
      using False t w2(2) handleWriteOp_send [OF req upd w2(1)] codes
      by (auto simp: write_response_def Let_def K2StatusToK2PgStatus_def K2StatusToPGStatus_def)
  qed
qed

text \<open>A store that keeps its rows in a map by the field of column \<open>a\<close>.\<close>
type_synonym example_world = "k2_literal option \<rightharpoonup> list_rec"

definition example_key :: "list_rec \<Rightarrow> k2_literal option" where
  "example_key r = lr_vals r 2"

definition example_write :: "list_rec \<Rightarrow> bool \<Rightarrow> precondition \<Rightarrow> example_world \<Rightarrow> (std_exception + k2_status) \<times> example_world" where
  "example_write r erase p w =
    (if p = NotExists \<and> w (example_key r) \<noteq> None \<or> p = Exists \<and> w (example_key r) = None then (Inr 412, w)
     else (Inr 201, w(example_key r := if erase then None else Some r)))"

definition example_storage :: "(list_rec, unit, example_world) storage" where
  "example_storage = \<lparr>si_skv = list_skv, si_getSchema = (\<lambda>_ _ _ w. (Inr (200, lr_schema (example_record 0)), w)),
     si_newRecord = (\<lambda>_ _. example_record 0), si_emptyRecord = example_record 0,
     si_recordOf = (\<lambda>_ _ _. Inl Platform_exception), si_toString = (\<lambda>_. []), si_partitionKey = (\<lambda>_. Inr []),
     si_write = example_write, si_partialUpdate = (\<lambda>_ _ _ w. (Inr 200, w)), si_read = (\<lambda>r w. (Inr (200, r), w)),
     si_createScanRead = (\<lambda>_ _ w. (Inr (200, ()), w)), si_scanRead = (\<lambda>_ w. (Inr (200, [], ()), w)),
     q_schema = (\<lambda>_. lr_schema (example_record 0)), q_setReverseDirection = (\<lambda>_ q. q), q_addProjection = (\<lambda>_ q. q),
     q_setBounds = (\<lambda>_ _ q. q), q_setFilterExpression = (\<lambda>_ q. q), q_setLimit = (\<lambda>_ q. q), q_isDone = (\<lambda>_. True),
     k2_is2xxOK = (\<lambda>c. 200 \<le> c \<and> c < 300), k2_ConditionFailed = 412, k2_OK = 200\<rparr>"

lemma example_kv_laws: "kv_laws example_storage id example_key"
  by (auto simp: kv_laws_def example_storage_def example_write_def)

definition example_insert :: SqlOpWriteRequest where
  "example_insert = \<lparr>wr_stmt_type = PGSQL_INSERT, wr_collection_name = [], wr_table_id = [], wr_base_table_oid = 16384,
     wr_index_oid = 0, wr_schema_version = 1, wr_key_column_values = [example_bind 0 3],
     wr_k2pgctid_column_value = None, wr_column_values = [Some (example_bind 1 5)], wr_column_new_values = [], wr_targets = []\<rparr>"

definition example_key_record :: list_rec where
  "example_key_record = (example_record 3)\<lparr>lr_vals := (\<lambda>_. None)(0 := Some (L_int64 16384), 1 := Some (L_int64 0), 2 := Some (L_int64 3))\<rparr>"

definition example_row :: list_rec where
  "example_row = (example_record 5)\<lparr>lr_vals := (lr_vals example_key_record)(3 := Some (L_int64 5), 4 := None)\<rparr>"

lemma list_skv_sel:
  "skv_next list_skv l = lr_put (Some l)" "skv_null list_skv = lr_put None"
  "skv_cursor list_skv = lr_cursor" "skv_schema_of list_skv = lr_schema"
  by (simp_all add: list_skv_def)

lemma example_put:
  "i < 5 \<Longrightarrow> lr_put l ((example_record i)\<lparr>lr_vals := f\<rparr>) = Inr ((example_record (Suc i))\<lparr>lr_vals := f(i := l)\<rparr>)"
  by (simp add: lr_put_def example_record_def)

lemma example_serialize: "SerializeValueToSKVRecord S (SqlValue_int w) r = Some (skv_next S (L_int64 w) r)"
  by (simp add: SerializeValueToSKVRecord_def SqlValue_int_def)

lemma example_bind_sel [simp]:
  "bv_idx (example_bind i w) = i"
  "bv_expr (example_bind i w) = Some (PgConstant PG_EXPR_CONSTANT int64_entity (SqlValue_int w))"
  by (simp_all add: example_bind_def)

lemma example_fill_keys:
  "fill_key_record list_skv 16384 0 [example_bind 0 3] False (example_record 0) = returnE example_key_record"
proof -
  have "lr_put (Some (L_int64 16384)) (example_record 0)
      = Inr ((example_record 1)\<lparr>lr_vals := (\<lambda>_. None)(0 := Some (L_int64 16384))\<rparr>)"
    by (simp add: lr_put_def example_record_def)
  moreover have "lr_put (Some (L_int64 0)) ((example_record 1)\<lparr>lr_vals := f\<rparr>)
      = Inr ((example_record 2)\<lparr>lr_vals := f(1 := Some (L_int64 0))\<rparr>)" for f
    using example_put [of 1] by (simp add: numeral_2_eq_2)
  moreover have "lr_put (Some (L_int64 3)) ((example_record 2)\<lparr>lr_vals := f\<rparr>)
      = Inr ((example_record 3)\<lparr>lr_vals := f(2 := Some (L_int64 3))\<rparr>)" for f
    using example_put [of 2] by simp
  ultimately show ?thesis
    by (simp add: fill_key_record_def is_constant_def as_value_def example_serialize list_skv_sel
        example_key_record_def returnE_def)
qed

lemma example_insert_keys:
  "MakeSKVRecord_write example_storage example_insert False True w = Some (Inr (Inr example_key_record), w)"
  by (simp add: MakeSKVRecord_write_def MakeSKVRecordWithKeysSerialized_def bindIO_def callIO_def
      example_storage_def example_insert_def example_fill_keys returnIO_def)

lemma example_insert_record:
  "write_record example_storage example_insert example_key_record = returnE (example_row, [3], example_record 0)"
proof -
  have r: "(example_record 3)\<lparr>lr_vals := lr_vals example_key_record\<rparr> = example_key_record"
    by (simp add: example_key_record_def)
  let ?r4 = "(example_record 4)\<lparr>lr_vals := (lr_vals example_key_record)(3 := Some (L_int64 5))\<rparr>"
  have cur: "lr_cursor example_key_record = 3" "lr_cursor ?r4 = 4" "lr_cursor example_row = 5"
    by (simp_all add: example_key_record_def example_record_def example_row_def)
  have len: "length (skv_fields (lr_schema (example_record n))) = 5"
    "length (skv_partition_keys (lr_schema (example_record n))) = 3"
    "lr_schema example_key_record = lr_schema (example_record 3)" for n
    by (simp_all add: example_record_def example_key_record_def)
  have put: "lr_put (Some (L_int64 5)) example_key_record = Inr ?r4" "lr_put None ?r4 = Inr example_row"
    using example_put [of 3 "Some (L_int64 5)" "lr_vals example_key_record"]
      example_put [of 4 None "(lr_vals example_key_record)(3 := Some (L_int64 5))"] r
    by (simp_all add: example_row_def)
  have "skip_to list_skv 3 example_key_record = returnE example_key_record"
    by (simp add: skip_to.simps list_skv_sel cur)
  then have skip: "skip_to list_skv (Suc (Suc (Suc 0))) example_key_record = returnE example_key_record"
    by (simp add: numeral_3_eq_3)
  have skip2: "skip_until list_skv 5 ?r4 = returnE example_row"
    by (simp add: skip_until.simps [of _ _ ?r4] skip_until.simps [of _ _ example_row] list_skv_sel cur put)
  have "serialize_values list_skv [Some (example_bind 1 5)] (example_key_record, []) = returnE (?r4, [3])"
    using skip put(1) by (simp add: is_constant_def as_value_def SKV_FIELD_OFFSET_def example_serialize list_skv_sel
        cur len Let_def numeral_3_eq_3)
  then have "SerializeSKVValueFields list_skv [Some (example_bind 1 5)] example_key_record = returnE (example_row, [3])"
    using skip2 by (simp add: SerializeSKVValueFields_def sort_bindings_def list_skv_sel len del: serialize_values.simps)
  then show ?thesis
    by (simp add: write_record_def example_insert_def example_storage_def)
qed

theorem handleWriteOp_insert_delete_witness:
  "\<exists>resp' w2. handleWriteOp example_storage example_insert allocateResponse Map.empty = Some (Inr kOk, resp', w2)
    \<and> resp_rows_affected_count resp' = 1 \<and> w2 (example_key example_row) = Some example_row"
  using handleWriteOp_insert_delete [OF example_kv_laws _ example_insert_record, of Map.empty Map.empty allocateResponse]
    example_insert_keys [of Map.empty]
  by (auto simp: example_insert_def)

text \<open>
  A batch succeeds exactly when each of its operations did.  Otherwise it reports a
  failure that one of its operations really had, and it is exceptional exactly when
  one of them was.
\<close>
theorem BatchExec_reports:
  "(BatchExec rs = Inr kOk \<longleftrightarrow> set rs \<subseteq> {Inr kOk}) \<and> (BatchExec rs = Inr kOk \<or> BatchExec rs \<in> set rs)
    \<and> (isl (BatchExec rs) \<longleftrightarrow> (\<exists>e. Inl e \<in> set rs))"
proof -
  have loop: "batch_loop rs (c, e) = (c', e') \<Longrightarrow>
      (c' = c \<and> (\<forall>d. Inr d \<in> set rs \<longrightarrow> d = kOk) \<or> c' \<noteq> kOk \<and> Inr c' \<in> set rs)
      \<and> (e' = e \<and> (\<forall>x. Inl x \<notin> set rs) \<or> (\<exists>x. e' = Some x \<and> Inl x \<in> set rs))" for c e c' e'
  proof (induction rs arbitrary: c e)
    case (Cons r rs)
    show ?case
    proof (cases r)
      case (Inl x)
      then show ?thesis using Cons.IH [of c "Some x"] Cons.prems by auto
    next
      case (Inr d)
      then show ?thesis using Cons.IH [of "if d \<noteq> kOk then d else c" e] Cons.prems by (auto split: if_splits)
    qed
  qed simp
  obtain c' e' where b: "batch_loop rs (kOk, None) = (c', e')" by fastforce
  have "set rs \<subseteq> {Inr kOk} \<longleftrightarrow> (\<forall>d. Inr d \<in> set rs \<longrightarrow> d = kOk) \<and> (\<forall>x. Inl x \<notin> set rs)"
    by (auto simp: subset_iff split_sum_all)
  with loop [OF b] show ?thesis by (auto simp: BatchExec_def b)
qed

text \<open>(C29)
  The filter expression built for a scan is the conjunction of the where condition and of
  the range conditions that were left over.  When the where condition is absent or a
  conjunction, when its arguments and the left-over conditions together are at least one
  and all of a shape the adapter translates, and for an evaluator with the documented laws
  of the platform, a filter is built, and it accepts exactly the rows that satisfy all of
  these conditions.
\<close>
theorem filter_expression_correct:
  assumes laws: "filter_laws cmp ev" and bt: "expr_type_ok bool_type"
    and wc: "where_conds = Some (PgOperator PG_EXPR_AND name te args) \<or> where_conds = None \<and> args = []"
    and tr: "\<forall>e \<in> set (args @ leftover). translatable e" and ne: "args @ leftover \<noteq> []"
  shows "\<exists>k. filter_expression bool_type where_conds leftover = returnE (Some k)
    \<and> (\<forall>r. ev k r = (\<forall>e \<in> set (args @ leftover). sql_holds cmp e r))"
proof -
  have app: "append_args as (PgOperator oc nm te' xs) = Some (PgOperator oc nm te' (xs @ as))" for as oc nm te' xs
    by (induction as arbitrary: xs) auto
  have and_op: "new_PgOperator ''and'' bool_type = Some (PgOperator PG_EXPR_AND ''and'' bool_type [])"
    using bt by (simp add: new_PgOperator_def NameToOpcode_def kOperatorNames_def check_that_def)
  have "\<exists>nm te'. append_args leftover (case where_conds of Some e \<Rightarrow> e | None \<Rightarrow> PgOperator PG_EXPR_AND ''and'' bool_type [])
      = Some (PgOperator PG_EXPR_AND nm te' (args @ leftover))"
    using wc by (auto simp: app)
  then obtain nm te' where top: "append_args leftover (case where_conds of Some e \<Rightarrow> e | None \<Rightarrow> PgOperator PG_EXPR_AND ''and'' bool_type [])
      = Some (PgOperator PG_EXPR_AND nm te' (args @ leftover))" by blast
  have "translatable (PgOperator PG_EXPR_AND nm te' (args @ leftover))" using tr ne by simp
  from translatable_correct [OF laws this] obtain k where
    k: "ToK2Expression (PgOperator PG_EXPR_AND nm te' (args @ leftover)) = returnE k"
      "\<forall>r. ev k r = sql_holds cmp (PgOperator PG_EXPR_AND nm te' (args @ leftover)) r" by blast
  have "where_conds \<noteq> None \<or> leftover \<noteq> []" using wc ne by auto
  then have "filter_expression bool_type where_conds leftover = returnE (Some k)"
    using and_op top k(1) ne by (auto simp: filter_expression_def simp del: ToK2Expression.simps split: list.split)
  then show ?thesis using k(2) by auto
qed

theorem filter_expression_correct_witness:
  "\<exists>k. filter_expression int64_entity None [column_cond ''<'' PG_EXPR_LT ''a'' 9] = returnE (Some k)
    \<and> (\<forall>r. eval_filter k r = sql_holds int_cmp (column_cond ''<'' PG_EXPR_LT ''a'' 9) r)"
  using filter_expression_correct [OF eval_filter_laws, of int64_entity None "''and''" int64_entity "[]" "[column_cond ''<'' PG_EXPR_LT ''a'' 9]"]
  by (simp add: expr_type_ok_def int64_entity_def column_cond_def leaf_ok_def literal_ok_def SqlValue_int_def)

end
