(* ===== verification/Pg_Op.thy ===== *)
theory Pg_Op
  imports Adapter_Ops Pg_Txn
begin

text \<open>
  Execution of read and write operations of a statement (pggate/pg_op.h, pg_op.cc),
  with the operation templates (pggate/pg_op_api.h, pg_op_api.cc), the dispatch of the
  adapter (Exec and BatchExec of pggate/k2_adapter.cc) and the part of the session that
  runs operations (pggate/pg_session.cc).

  An operation holds pointers to templates, and its own template can be one of them; so
  templates live in a store, a list indexed by address with the operation's template at
  address 0.  The task that the adapter enqueues for a template is taken to run when it
  is enqueued; a pending future is the reply it will deliver.  A computation is an
  \<open>io\<close> over the state of the operation, of the transaction handler, of the foreign key
  cache and of the storage.
\<close>

subsection \<open>Templates\<close>

datatype 'q op_request = Read_request "'q SqlOpReadRequest" | Write_request SqlOpWriteRequest bool

record ('r, 'q) PgOpTemplate =
  t_request :: "'q op_request"
  t_response :: "'q SqlOpResponse option"
  t_rows_data :: "'r list"
  t_active :: bool

definition succeeded :: "('r, 'q) PgOpTemplate \<Rightarrow> bool checked" where
  "succeeded t = map_option (\<lambda>resp. resp_status resp = PGSQL_STATUS_OK) (t_response t)"

text \<open>The request is copied; the response and the rows are not.\<close>
definition DeepCopy :: "('r, 'q) PgOpTemplate \<Rightarrow> ('r, 'q) PgOpTemplate" where
  "DeepCopy t = \<lparr>t_request = t_request t, t_response = None, t_rows_data = [], t_active = t_active t\<rparr>"

text \<open>The function is not virtual; it is called on the base class.\<close>
definition IsTransactional :: "('r, 'q) PgOpTemplate \<Rightarrow> bool" where
  "IsTransactional t = True"

definition update_read :: "('q SqlOpReadRequest \<Rightarrow> 'q SqlOpReadRequest) \<Rightarrow> ('r, 'q) PgOpTemplate \<Rightarrow> ('r, 'q) PgOpTemplate" where
  "update_read f t = (case t_request t of Read_request req \<Rightarrow> t\<lparr>t_request := Read_request (f req)\<rparr> | _ \<Rightarrow> t)"

subsection \<open>State\<close>

record PgExecParameters =
  limit_count :: "64 word"
  limit_offset :: "64 word"
  limit_use_default :: bool
  rowmark :: int

record ('r, 'q) PgOp =
  templates :: "('r, 'q) PgOpTemplate list"
  pgsql_ops :: "nat list"
  active_op_count :: nat
  request_population_completed :: bool
  requestAsyncRunResult :: "(std_exception + code) option"
  rows_affected_count :: int
  end_of_data :: bool
  batch_row_orders :: "int list list"
  parallelism_level :: nat
  suppress_next_result_prefetching :: bool
  exec_params :: PgExecParameters
  exec_status :: code

text \<open>The constructor: \<open>t\<close> is the template the operation is made from.\<close>
definition PgOp_make :: "('r, 'q) PgOpTemplate \<Rightarrow> ('r, 'q) PgOp" where
  "PgOp_make t = \<lparr>templates = [t], pgsql_ops = [], active_op_count = 0, request_population_completed = False,
     requestAsyncRunResult = None, rows_affected_count = 0, end_of_data = False, batch_row_orders = [],
     parallelism_level = 100, suppress_next_result_prefetching = False,
     exec_params = \<lparr>limit_count = 0, limit_offset = 0, limit_use_default = False, rowmark = - 1\<rparr>, exec_status = kOk\<rparr>"

text \<open>Rows of one reply (class \<open>PgOpResult\<close>).\<close>
record 'r PgOpResult =
  res_data :: "'r list"
  res_row_orders :: "int list"
  res_next :: nat
  res_k2pgctids :: "string list"

record ('r, 'q, 't, 'w) op_state =
  os_op :: "('r, 'q) PgOp"
  os_handler :: "'t handler"
  os_fk :: "(oid \<times> string) set"
  os_world :: 'w

text \<open>What the operations use from outside: storage per transaction, transactions, type entities.\<close>
record ('r, 'q, 't, 'w) op_env =
  env_storage :: "'t \<Rightarrow> ('r, 'q, 'w) storage"
  env_adapter :: "('t, 'w) adapter"
  env_bool_type :: type_entity
  env_string_type :: type_entity
  env_initial :: k2_status
  env_keyRecord :: "'r \<Rightarrow> 'r"
  env_recordString :: "'r \<Rightarrow> string"
  env_init_db_mode :: bool

definition getOp :: "(('r, 'q) PgOp \<Rightarrow> 'a) \<Rightarrow> (('r, 'q, 't, 'w) op_state, 'a) io" where
  "getOp f s = Some (Inr (f (os_op s)), s)"

definition modOp :: "(('r, 'q) PgOp \<Rightarrow> ('r, 'q) PgOp) \<Rightarrow> (('r, 'q, 't, 'w) op_state, unit) io" where
  "modOp f s = Some (Inr (), s\<lparr>os_op := f (os_op s)\<rparr>)"

definition checkIO :: "bool \<Rightarrow> ('s, unit) io" where
  "checkIO b s = (if b then Some (Inr (), s) else None)"

definition set_template :: "nat \<Rightarrow> (('r, 'q) PgOpTemplate \<Rightarrow> ('r, 'q) PgOpTemplate) \<Rightarrow> ('r, 'q) PgOp \<Rightarrow> ('r, 'q) PgOp" where
  "set_template a f p = p\<lparr>templates := (templates p)[a := f (templates p ! a)]\<rparr>"

subsection \<open>Running operations\<close>

text \<open>The future of an operation, after its task has run.\<close>
definition Exec :: "('r, 'q, 't, 'w) op_env \<Rightarrow> 't \<Rightarrow> nat \<Rightarrow> (('r, 'q, 't, 'w) op_state, std_exception + code) io" where
  "Exec env t a s = (let tp = templates (os_op s) ! a; st = env_storage env t in
    case t_request tp of
      Write_request req _ \<Rightarrow>
        (case handleWriteOp st req allocateResponse (os_world s) of
           None \<Rightarrow> None
         | Some (reply, resp, w) \<Rightarrow> Some (Inr reply,
             s\<lparr>os_op := set_template a (\<lambda>tp. tp\<lparr>t_response := Some resp\<rparr>) (os_op s), os_world := w\<rparr>))
    | Read_request req \<Rightarrow>
        (case handleReadOp st (env_bool_type env) (env_initial env) req allocateResponse (t_rows_data tp) (os_world s) of
           None \<Rightarrow> None
         | Some (reply, resp, rows, w) \<Rightarrow> Some (Inr reply,
             s\<lparr>os_op := set_template a (\<lambda>tp. tp\<lparr>t_response := Some resp, t_rows_data := rows\<rparr>) (os_op s), os_world := w\<rparr>)))"

fun exec_all :: "('r, 'q, 't, 'w) op_env \<Rightarrow> 't \<Rightarrow> nat list \<Rightarrow> (('r, 'q, 't, 'w) op_state, (std_exception + code) list) io" where
  "exec_all env t [] = returnIO []"
| "exec_all env t (a # as) = bindIO (Exec env t a) (\<lambda>r. bindIO (exec_all env t as) (\<lambda>rs. returnIO (r # rs)))"

definition ShouldHandleTransactionally :: "('r, 'q, 't, 'w) op_env \<Rightarrow> ('r, 'q) PgOpTemplate \<Rightarrow> bool" where
  "ShouldHandleTransactionally env t = (IsTransactional t \<and> \<not> env_init_db_mode env)"

definition InvalidateForeignKeyReferenceCache :: "('r, 'q, 't, 'w) op_state \<Rightarrow> ('r, 'q, 't, 'w) op_state" where
  "InvalidateForeignKeyReferenceCache s = s\<lparr>os_fk := {}\<rparr>"

text \<open>The transaction of the session; a failed begin is an exception.\<close>
definition session_txn :: "('r, 'q, 't, 'w) op_env \<Rightarrow> (('r, 'q, 't, 'w) op_state, 't) io" where
  "session_txn env s = (case GetTxn (env_adapter env) (os_handler s, os_world s) of
      (Crashed, _) \<Rightarrow> None
    | (Threw, h, w) \<Rightarrow> Some (Inl Runtime_error, s\<lparr>os_handler := h, os_world := w\<rparr>)
    | (Returned _, h, w) \<Rightarrow> (case txn h of
        None \<Rightarrow> None
      | Some t \<Rightarrow> Some (Inr t, s\<lparr>os_handler := h, os_world := w\<rparr>)))"

definition RunAsync :: "('r, 'q, 't, 'w) op_env \<Rightarrow> nat list \<Rightarrow> (('r, 'q, 't, 'w) op_state, std_exception + code) io" where
  "RunAsync env ops = bindIO (checkIO (ops \<noteq> [])) (\<lambda>_.
    bindIO (getOp (\<lambda>p. templates p ! hd ops)) (\<lambda>first.
    bindIO (if ShouldHandleTransactionally env first then returnIO ()
            else (\<lambda>s. Some (Inr (), InvalidateForeignKeyReferenceCache s))) (\<lambda>_.
    bindIO (session_txn env) (\<lambda>t.
      if length ops = 1 then Exec env t (hd ops)
      else bindIO (exec_all env t ops) (\<lambda>replies. returnIO (BatchExec replies))))))"

text \<open>The status of the response is looked at, but a failure is reported by a status without an error.\<close>
definition HandleResponse :: "('r, 'q) PgOpTemplate \<Rightarrow> code checked" where
  "HandleResponse t = do { ok \<leftarrow> succeeded t; Some (if ok then kOk else (let s = kOk in s)) }"

subsection \<open>Requests\<close>

text \<open>Both classes of operations have the same function: their own template is the only request.\<close>
definition CreateRequests :: "('r, 'q) PgOp \<Rightarrow> ('r, 'q) PgOp" where
  "CreateRequests p = (if request_population_completed p then p
     else (set_template 0 (\<lambda>t. t\<lparr>t_active := True\<rparr>) p)\<lparr>pgsql_ops := pgsql_ops p @ [0],
            active_op_count := 1, request_population_completed := True\<rparr>)"

definition SendRequestImpl :: "('r, 'q, 't, 'w) op_env \<Rightarrow> (('r, 'q, 't, 'w) op_state, code) io" where
  "SendRequestImpl env = bindIO (modOp CreateRequests) (\<lambda>_.
    bindIO (getOp (\<lambda>p. take (min (parallelism_level p) (active_op_count p)) (pgsql_ops p))) (\<lambda>ops.
    bindIO (RunAsync env ops) (\<lambda>reply.
    bindIO (modOp (\<lambda>p. p\<lparr>requestAsyncRunResult := Some reply\<rparr>)) (\<lambda>_. returnIO kOk))))"

definition SendRequest :: "('r, 'q, 't, 'w) op_env \<Rightarrow> (('r, 'q, 't, 'w) op_state, code) io" where
  "SendRequest env = bindIO (getOp id) (\<lambda>p.
    bindIO (checkIO (exec_status p = kOk \<and> requestAsyncRunResult p = None \<and> \<not> end_of_data p)) (\<lambda>_.
    bindIO (SendRequestImpl env) (\<lambda>c.
    bindIO (modOp (\<lambda>p. p\<lparr>exec_status := c\<rparr>)) (\<lambda>_. returnIO c))))"

text \<open>Whether a request is pending, or the error.\<close>
definition Execute :: "('r, 'q, 't, 'w) op_env \<Rightarrow> (('r, 'q, 't, 'w) op_state, bool result) io" where
  "Execute env = bindIO (SendRequest env) (\<lambda>c.
    bindIO (modOp (\<lambda>p. p\<lparr>exec_status := c\<rparr>)) (\<lambda>_.
      if c \<noteq> kOk then returnIO (Inl c) else getOp (\<lambda>p. Inr (requestAsyncRunResult p \<noteq> None))))"

subsection \<open>Responses\<close>

definition PgOpResult_make :: "('r, 'q, 't, 'w) op_env \<Rightarrow> 'r list \<Rightarrow> int list \<Rightarrow> 'r PgOpResult" where
  "PgOpResult_make env rows orders = \<lparr>res_data = rows, res_row_orders = orders, res_next = 0,
     res_k2pgctids = map (\<lambda>r. env_recordString env (env_keyRecord env r)) rows\<rparr>"

definition is_eof :: "'r PgOpResult \<Rightarrow> bool" where
  "is_eof r = (length (res_data r) \<le> res_next r)"

definition NextRowOrder :: "'r PgOpResult \<Rightarrow> int" where
  "NextRowOrder r = (case res_row_orders r of [] \<Rightarrow> - 1 | x # _ \<Rightarrow> x)"

text \<open>The row ids of the base table in the rows of an index; \<open>base\<close> reads the field of a record.\<close>
definition GetBaseRowIdBatch :: "('r \<Rightarrow> string option) \<Rightarrow> 'r PgOpResult \<Rightarrow> string list \<Rightarrow> (string list \<times> 'r PgOpResult) checked" where
  "GetBaseRowIdBatch base r ids = do {
     check_that (\<not> is_eof r);
     check_that (list_all (\<lambda>x. base x \<noteq> None) (res_data r));
     Some (ids @ map (\<lambda>x. the (base x)) (res_data r), r\<lparr>res_next := res_next r + length (res_data r)\<rparr>) }"

text \<open>The rows of the active operations in order; rows and row orders are moved out.\<close>
fun collect_results ::
  "('r, 'q, 't, 'w) op_env \<Rightarrow> nat \<Rightarrow> nat list \<Rightarrow> ('r, 'q) PgOp \<Rightarrow> (int \<times> 'r PgOpResult list \<times> ('r, 'q) PgOp) checked" where
  "collect_results env i [] p = Some (0, [], p)"
| "collect_results env i (a # as) p = do {
     let t = templates p ! a;
     resp \<leftarrow> t_response t;
     let p1 = set_template a (\<lambda>t. t\<lparr>t_rows_data := []\<rparr>) p;
     let orders = (if batch_row_orders p = [] then [] else batch_row_orders p ! i);
     let p2 = (if batch_row_orders p = [] \<or> t_rows_data t = [] then p1 else p1\<lparr>batch_row_orders := (batch_row_orders p)[i := []]\<rparr>);
     (n, rs, p3) \<leftarrow> collect_results env (Suc i) as p2;
     Some (resp_rows_affected_count resp + n,
           if t_rows_data t = [] then rs else PgOpResult_make env (t_rows_data t) orders # rs, p3) }"

fun handle_responses :: "('r, 'q) PgOp \<Rightarrow> nat list \<Rightarrow> code checked" where
  "handle_responses p [] = Some kOk"
| "handle_responses p (a # as) = do { c \<leftarrow> HandleResponse (templates p ! a); if c \<noteq> kOk then Some c else handle_responses p as }"

definition ProcessResponseResult ::
  "('r, 'q, 't, 'w) op_env \<Rightarrow> (('r, 'q, 't, 'w) op_state, 'r PgOpResult list result) io" where
  "ProcessResponseResult env = bindIO (getOp id) (\<lambda>p. let ops = take (active_op_count p) (pgsql_ops p) in
    case handle_responses p ops of
      None \<Rightarrow> (\<lambda>s. None)
    | Some c \<Rightarrow> if c \<noteq> kOk then returnIO (Inl c)
        else (case collect_results env 0 ops p of
            None \<Rightarrow> (\<lambda>s. None)
          | Some (n, rs, p1) \<Rightarrow> bindIO (modOp (\<lambda>_. p1\<lparr>rows_affected_count := n\<rparr>)) (\<lambda>_. returnIO (Inr rs))))"

text \<open>
  Inactive operations are moved behind the active ones by swapping from both ends; row
  orders, when there are any, move along.  \<open>r\<close> is one more than the right iterator;
  the iterators stay inside the list, which the recursion states for its termination.
\<close>
function advance_left :: "(nat \<Rightarrow> bool) \<Rightarrow> nat list \<Rightarrow> nat \<Rightarrow> nat" where
  "advance_left act xs l = (if l < length xs \<and> act (xs ! l) then advance_left act xs (Suc l) else l)"
  by pat_completeness auto
termination by (relation "measure (\<lambda>(act, xs, l). length xs - l)") auto

fun retreat_right :: "(nat \<Rightarrow> bool) \<Rightarrow> nat list \<Rightarrow> nat \<Rightarrow> nat" where
  "retreat_right act xs 0 = 0"
| "retreat_right act xs (Suc r) = (if \<not> act (xs ! r) then retreat_right act xs r else Suc r)"

definition swap_at :: "nat \<Rightarrow> nat \<Rightarrow> 'a list \<Rightarrow> 'a list" where
  "swap_at i j xs = xs[i := xs ! j, j := xs ! i]"

declare advance_left.simps [simp del]

lemma advance_left_ge: "l \<le> advance_left act xs l"
  by (induction act xs l rule: advance_left.induct) (subst advance_left.simps, auto)

lemma retreat_right_le: "retreat_right act xs r \<le> r"
  by (induction r) auto

lemma retreat_right_spec:
  "0 < retreat_right act xs r \<Longrightarrow> act (xs ! (retreat_right act xs r - 1))"
  "\<lbrakk>retreat_right act xs r \<le> k; k < r\<rbrakk> \<Longrightarrow> \<not> act (xs ! k)"
  by (induction r) (auto simp: less_Suc_eq split: if_splits)

lemma advance_left_spec:
  "l \<le> length xs \<Longrightarrow> advance_left act xs l \<le> length xs"
  "advance_left act xs l < length xs \<Longrightarrow> \<not> act (xs ! advance_left act xs l)"
  "\<lbrakk>l \<le> k; k < advance_left act xs l\<rbrakk> \<Longrightarrow> act (xs ! k)"
proof (induction act xs l rule: advance_left.induct)
  case (1 act xs l)
  note e = advance_left.simps [of act xs l]
  { case 1 then show ?case using "1.IH"(1) by (subst e) auto }
  { case 2 then show ?case using "1.IH"(2) e by (auto split: if_splits) }
  { case 3 then show ?case using "1.IH"(3) e by (cases "k = l") (auto split: if_splits) }
qed

lemma advance_left_swap:
  assumes "l \<le> length xs" "l' = advance_left act xs l" "r' = retreat_right act xs r" "Suc l' < r'" "r \<le> length xs"
  shows "l' < advance_left act (swap_at l' (r' - 1) xs) l'"
proof -
  have r: "r' \<le> length xs" using assms(3,5) retreat_right_le [of act xs r] by simp
  have "act (xs ! (r' - 1))" using retreat_right_spec(1) [of act xs r] assms(3,4) by simp
  then have "act (swap_at l' (r' - 1) xs ! l')" using assms(4) r by (simp add: swap_at_def)
  then show ?thesis using assms(4) r advance_left_ge [of "Suc l'" act "swap_at l' (r' - 1) xs"]
    by (subst advance_left.simps) (simp add: swap_at_def)
qed

function move_loop :: "(nat \<Rightarrow> bool) \<Rightarrow> nat list \<Rightarrow> int list list \<Rightarrow> nat \<Rightarrow> nat \<Rightarrow> nat list \<times> int list list \<times> nat" where
  "move_loop act xs orders l r =
    (let l' = advance_left act xs l; r' = retreat_right act xs r in
     if Suc l' < r' \<and> r \<le> length xs \<and> l \<le> length xs
     then move_loop act (swap_at l' (r' - 1) xs) (if orders = [] then [] else swap_at l' (r' - 1) orders) l' r'
     else (xs, orders, l'))"
  by pat_completeness auto
termination
proof (relation "measure (\<lambda>(act, xs, orders, l, r). r - advance_left act xs l)", goal_cases)
  case (2 act xs orders l r l' r')
  then have "l' < advance_left act (swap_at l' (r' - 1) xs) l'" by (intro advance_left_swap [OF _ 2(1,2)]) simp_all
  moreover have "r' \<le> r" using 2 by (simp add: retreat_right_le)
  moreover have "Suc l' < r'" using 2 by simp
  ultimately have "r' - advance_left act (swap_at l' (r' - 1) xs) l' < r - l'" by linarith
  then show ?case using 2(1) by simp
qed simp

declare move_loop.simps [simp del]

definition MoveInactiveOpsOutside :: "('r, 'q) PgOp \<Rightarrow> ('r, 'q) PgOp" where
  "MoveInactiveOpsOutside p =
    (let (xs, orders, left_iter) = move_loop (\<lambda>a. t_active (templates p ! a)) (pgsql_ops p) (batch_row_orders p) 0 (length (pgsql_ops p))
     in p\<lparr>pgsql_ops := xs, batch_row_orders := orders, active_op_count := left_iter\<rparr>)"

subsection \<open>Read operations\<close>

definition PgOp_ExecuteInit :: "PgExecParameters option \<Rightarrow> ('r, 'q) PgOp \<Rightarrow> ('r, 'q) PgOp" where
  "PgOp_ExecuteInit ep p = (case ep of None \<Rightarrow> p\<lparr>end_of_data := False\<rparr>
     | Some x \<Rightarrow> p\<lparr>end_of_data := False, exec_params := x\<rparr>)"

definition SetRequestTotalLimit :: "('r, 'q) PgOp \<Rightarrow> ('r, 'q) PgOp" where
  "SetRequestTotalLimit p = (let n = limit_count (exec_params p) + limit_offset (exec_params p) in
     set_template 0 (update_read (\<lambda>req. req\<lparr>rd_limit := n\<rparr>)) p)"

text \<open>The row mark type is an enumeration; \<open>15\<close> stands for no row mark.\<close>
definition SetRowMark :: "('r, 'q) PgOp \<Rightarrow> ('r, 'q) PgOp" where
  "SetRowMark p = set_template 0 (update_read (\<lambda>req. req\<lparr>rd_row_mark_type :=
     (if rowmark (exec_params p) < 0 then 15 else rowmark (exec_params p))\<rparr>)) p"

definition set_return_paging_state :: "bool \<Rightarrow> ('r, 'q) PgOpTemplate \<Rightarrow> ('r, 'q) PgOpTemplate" where
  "set_return_paging_state b = update_read (\<lambda>req. req\<lparr>rd_return_paging_state := b\<rparr>)"

definition PgReadOp_ExecuteInit :: "PgExecParameters option \<Rightarrow> ('r, 'q) PgOp \<Rightarrow> ('r, 'q) PgOp" where
  "PgReadOp_ExecuteInit ep p =
    SetRowMark (SetRequestTotalLimit (set_template 0 (set_return_paging_state True) (PgOp_ExecuteInit ep p)))"

definition default_psql_prefetch_limit :: int where "default_psql_prefetch_limit = 1000"

text \<open>A backward scan gets a quarter of the default; the sum of count and offset is compared as a signed number.\<close>
definition SetRequestPrefetchLimit :: "('r, 'q) PgOp \<Rightarrow> ('r, 'q) PgOp checked" where
  "SetRequestPrefetchLimit p = (case t_request (templates p ! 0) of
      Write_request _ _ \<Rightarrow> None
    | Read_request req \<Rightarrow>
       let predicted_limit = max 1 (if rd_is_forward_scan req then default_psql_prefetch_limit else default_psql_prefetch_limit div 4);
           n = limit_count (exec_params p) + limit_offset (exec_params p);
           use_predicted = (limit_use_default (exec_params p) \<or> sint n > predicted_limit)
       in Some ((set_template 0 (update_read (\<lambda>req. req\<lparr>rd_limit := (if use_predicted then of_int predicted_limit else n)\<rparr>)) p)
                \<lparr>suppress_next_result_prefetching := \<not> use_predicted\<rparr>))"

text \<open>The paging state of the response becomes that of the request; without one the operation is done.\<close>
fun paging_loop :: "nat list \<Rightarrow> ('r, 'q) PgOp \<Rightarrow> (bool \<times> ('r, 'q) PgOp) checked" where
  "paging_loop [] p = Some (False, p)"
| "paging_loop (a # as) p = do {
     resp \<leftarrow> t_response (templates p ! a);
     let p1 = set_template a (update_read (\<lambda>req. req\<lparr>rd_paging_state := resp_paging_state resp\<rparr>)) p;
     let more = resp_paging_state resp \<noteq> None;
     let p2 = (if more then p1 else set_template a (\<lambda>t. t\<lparr>t_active := False\<rparr>) p1);
     (rest, p3) \<leftarrow> paging_loop as p2;
     Some (more \<or> rest, p3) }"

definition ProcessResponsePagingState :: "('r, 'q) PgOp \<Rightarrow> ('r, 'q) PgOp checked" where
  "ProcessResponsePagingState p = (let send_count = min (parallelism_level p) (active_op_count p) in do {
     (has_more_data, p1) \<leftarrow> paging_loop (take send_count (pgsql_ops p)) p;
     Some (if has_more_data \<or> send_count < active_op_count p
           then (MoveInactiveOpsOutside p1)\<lparr>end_of_data := False\<rparr>
           else p1\<lparr>active_op_count := 0, end_of_data := request_population_completed p\<rparr>) })"

definition PgReadOp_ProcessResponseImpl ::
  "('r, 'q, 't, 'w) op_env \<Rightarrow> (('r, 'q, 't, 'w) op_state, 'r PgOpResult list result) io" where
  "PgReadOp_ProcessResponseImpl env = bindIO (ProcessResponseResult env) (\<lambda>res. case res of
      Inl c \<Rightarrow> returnIO (Inl c)
    | Inr rs \<Rightarrow> bindIO (getOp ProcessResponsePagingState) (\<lambda>q. case q of
        None \<Rightarrow> (\<lambda>s. None)
      | Some p \<Rightarrow> bindIO (modOp (\<lambda>_. p)) (\<lambda>_. returnIO (Inr rs))))"

definition PgWriteOp_ProcessResponseImpl ::
  "('r, 'q, 't, 'w) op_env \<Rightarrow> (('r, 'q, 't, 'w) op_state, 'r PgOpResult list result) io" where
  "PgWriteOp_ProcessResponseImpl env = bindIO (ProcessResponseResult env) (\<lambda>res. case res of
      Inl c \<Rightarrow> returnIO (Inl c)
    | Inr rs \<Rightarrow> bindIO (modOp (\<lambda>p. p\<lparr>end_of_data := True\<rparr>)) (\<lambda>_. returnIO (Inr rs)))"

definition is_read_op :: "('r, 'q) PgOp \<Rightarrow> bool" where
  "is_read_op p = (case t_request (templates p ! 0) of Read_request _ \<Rightarrow> True | Write_request _ _ \<Rightarrow> False)"

text \<open>The virtual call, by the class of the operation.\<close>
definition ProcessResponseImpl ::
  "('r, 'q, 't, 'w) op_env \<Rightarrow> (('r, 'q, 't, 'w) op_state, 'r PgOpResult list result) io" where
  "ProcessResponseImpl env = bindIO (getOp is_read_op) (\<lambda>b.
     if b then PgReadOp_ProcessResponseImpl env else PgWriteOp_ProcessResponseImpl env)"

definition ProcessResponse ::
  "('r, 'q, 't, 'w) op_env \<Rightarrow> code \<Rightarrow> (('r, 'q, 't, 'w) op_state, 'r PgOpResult list result) io" where
  "ProcessResponse env status = bindIO (getOp exec_status) (\<lambda>c0.
    bindIO (checkIO (c0 = kOk)) (\<lambda>_.
    bindIO (modOp (\<lambda>p. p\<lparr>exec_status := status\<rparr>)) (\<lambda>_.
      if status \<noteq> kOk then returnIO (Inl status)
      else bindIO (ProcessResponseImpl env) (\<lambda>res. case res of
          Inr rs \<Rightarrow> returnIO (Inr rs)
        | Inl c \<Rightarrow> bindIO (modOp (\<lambda>p. p\<lparr>exec_status := c\<rparr>)) (\<lambda>_. returnIO (Inl c))))))"

text \<open>Reading a future consumes it, also when it throws.\<close>
definition get_future :: "(('r, 'q, 't, 'w) op_state, code) io" where
  "get_future = bindIO (getOp requestAsyncRunResult) (\<lambda>f. case f of
      None \<Rightarrow> (\<lambda>s. None)
    | Some reply \<Rightarrow> bindIO (modOp (\<lambda>p. p\<lparr>requestAsyncRunResult := None\<rparr>)) (\<lambda>_. case reply of
        Inl e \<Rightarrow> throwIO e
      | Inr c \<Rightarrow> returnIO c))"

text \<open>The status and the row sets that are appended to the caller's list.\<close>
definition GetResult :: "('r, 'q, 't, 'w) op_env \<Rightarrow> (('r, 'q, 't, 'w) op_state, code \<times> 'r PgOpResult list) io" where
  "GetResult env = bindIO (getOp id) (\<lambda>p.
    if exec_status p \<noteq> kOk then returnIO (exec_status p, [])
    else if end_of_data p then returnIO (kOk, [])
    else bindIO (if suppress_next_result_prefetching p \<and> requestAsyncRunResult p = None
        then bindIO (SendRequest env) (\<lambda>c. bindIO (modOp (\<lambda>p. p\<lparr>exec_status := c\<rparr>)) (\<lambda>_. returnIO c))
        else returnIO kOk) (\<lambda>c.
      if c \<noteq> kOk then returnIO (c, [])
      else bindIO get_future (\<lambda>status. bindIO (ProcessResponse env status) (\<lambda>res. case res of
          Inl c \<Rightarrow> returnIO (c, [])
        | Inr rows \<Rightarrow> bindIO (getOp id) (\<lambda>p1.
            bindIO (checkIO (rows \<noteq> [] \<or> end_of_data p1)) (\<lambda>_.
            if \<not> (end_of_data p1 \<or> suppress_next_result_prefetching p1)
            then bindIO (SendRequest env) (\<lambda>c.
              bindIO (modOp (\<lambda>p. p\<lparr>exec_status := c\<rparr>)) (\<lambda>_. returnIO (c, rows)))
            else returnIO (kOk, rows)))))))"

definition GetRowsAffectedCount :: "('r, 'q) PgOp \<Rightarrow> int result checked" where
  "GetRowsAffectedCount p = (if exec_status p \<noteq> kOk then Some (Inl (exec_status p))
     else do { check_that (end_of_data p); Some (Inr (rows_affected_count p)) })"

definition AbandonExecution :: "('r, 'q) PgOp \<Rightarrow> ('r, 'q) PgOp" where
  "AbandonExecution p = p\<lparr>end_of_data := True\<rparr>"

text \<open>The destructor waits for a pending request.\<close>
definition PgOp_destroy :: "(('r, 'q, 't, 'w) op_state, unit) io" where
  "PgOp_destroy = bindIO (getOp requestAsyncRunResult) (\<lambda>f.
     if f = None then returnIO () else bindIO get_future (\<lambda>_. returnIO ()))"

subsection \<open>Reads by row id\<close>

text \<open>New templates are copies of the operation's own; the count must be positive.\<close>
definition ClonePgsqlOps :: "nat \<Rightarrow> ('r, 'q) PgOp \<Rightarrow> code \<times> ('r, 'q) PgOp" where
  "ClonePgsqlOps op_count p =
    (if op_count = 0 then (kInternalError, p)
     else if length (pgsql_ops p) < op_count
     then let n = length (templates p) in
       (kOk, p\<lparr>templates := templates p @ replicate op_count ((DeepCopy (templates p ! 0))\<lparr>t_active := False\<rparr>),
               pgsql_ops := [n..<n + op_count], parallelism_level := op_count\<rparr>)
     else (kOk, p))"

fun reset_requests :: "nat list \<Rightarrow> ('r, 'q) PgOp \<Rightarrow> ('r, 'q) PgOp" where
  "reset_requests [] p = p"
| "reset_requests (a # as) p =
    reset_requests as (set_template a (update_read (\<lambda>req. req\<lparr>rd_k2pgctid_column_values := [], rd_paging_state := None\<rparr>)) p)"

definition ResetInactivePgsqlOps :: "('r, 'q) PgOp \<Rightarrow> ('r, 'q) PgOp" where
  "ResetInactivePgsqlOps p = (let p1 = reset_requests (drop (active_op_count p) (pgsql_ops p)) p in
     if batch_row_orders p1 = [] then p1
     else p1\<lparr>batch_row_orders := take (active_op_count p) (batch_row_orders p1)
       @ replicate (length (pgsql_ops p) - active_op_count p) [] @ drop (length (pgsql_ops p)) (batch_row_orders p1)\<rparr>)"

definition GetPartitionCount :: nat where "GetPartitionCount = 1"

definition InitializeRowIdOperators :: "('r, 'q) PgOp \<Rightarrow> code \<times> ('r, 'q) PgOp" where
  "InitializeRowIdOperators p =
    (if batch_row_orders p = []
     then (case ClonePgsqlOps GetPartitionCount p of
         (c, p1) \<Rightarrow> if c \<noteq> kOk then (c, p1) else (kOk, p1\<lparr>batch_row_orders := replicate GetPartitionCount []\<rparr>))
     else (kOk, ResetInactivePgsqlOps p))"

fun row_id_binds :: "type_entity \<Rightarrow> string list \<Rightarrow> BindVariable list checked" where
  "row_id_binds string_type [] = Some []"
| "row_id_binds string_type (k2pgctid # ids) = do {
     c \<leftarrow> new_PgConstant_value string_type (SqlValue_slice k2pgctid);
     bs \<leftarrow> row_id_binds string_type ids;
     Some (\<lparr>bv_idx = attr_num kPgTupleId, bv_expr = Some c\<rparr> # bs) }"

definition PgReadOp_PopulateDmlByRowIdOps ::
  "('r, 'q, 't, 'w) op_env \<Rightarrow> string list \<Rightarrow> ('r, 'q) PgOp \<Rightarrow> (code \<times> ('r, 'q) PgOp) checked" where
  "PgReadOp_PopulateDmlByRowIdOps env k2pgctids p = (case InitializeRowIdOperators p of
      (c, p1) \<Rightarrow> if c \<noteq> kOk then Some (c, p1)
      else do {
        binds \<leftarrow> row_id_binds (env_string_type env) k2pgctids;
        check_that (pgsql_ops p1 \<noteq> []);
        let a = pgsql_ops p1 ! 0;
        let p2 = set_template a (\<lambda>t. update_read (\<lambda>req. req\<lparr>rd_k2pgctid_column_values := binds\<rparr>) (t\<lparr>t_active := True\<rparr>))
                   (p1\<lparr>end_of_data := False\<rparr>);
        Some (kOk, (MoveInactiveOpsOutside p2)\<lparr>request_population_completed := True\<rparr>) })"

definition PgWriteOp_PopulateDmlByRowIdOps :: "string list \<Rightarrow> code" where
  "PgWriteOp_PopulateDmlByRowIdOps k2pgctids = kNotSupported"

subsection \<open>Moving inactive operations\<close>

lemma swap_at_simps [simp]: "length (swap_at i j xs) = length xs"
  by (simp add: swap_at_def)

lemma mset_swap_at: "i < length xs \<Longrightarrow> j < length xs \<Longrightarrow> mset (swap_at i j xs) = mset xs"
  using mset_swap [of j xs i] by (simp add: swap_at_def list_update_swap)

lemma zip_swap_at:
  "length xs = length ys \<Longrightarrow> i < length xs \<Longrightarrow> j < length xs \<Longrightarrow> zip (swap_at i j xs) (swap_at i j ys) = swap_at i j (zip xs ys)"
  by (simp add: swap_at_def zip_update)

lemma nth_swap_at:
  "i < length xs \<Longrightarrow> j < length xs \<Longrightarrow> k < length xs \<Longrightarrow> swap_at i j xs ! k = (if k = j then xs ! i else if k = i then xs ! j else xs ! k)"
  by (auto simp: swap_at_def nth_list_update)

lemma move_loop_spec:
  assumes "l \<le> length xs" "r \<le> length xs" "\<forall>k < l. act (xs ! k)" "\<forall>k < length xs. r \<le> k \<longrightarrow> \<not> act (xs ! k)"
    and "orders = [] \<or> length orders = length xs" and "move_loop act xs orders l r = (ys, orders', n)"
  shows "mset ys = mset xs \<and> (orders' = [] \<longleftrightarrow> orders = []) \<and> (orders \<noteq> [] \<longrightarrow> mset (zip ys orders') = mset (zip xs orders))
    \<and> length orders' = length orders \<and> n \<le> length ys \<and> (\<forall>k < length ys. act (ys ! k) \<longleftrightarrow> k < n)"
  using assms
proof (induction act xs orders l r rule: move_loop.induct)
  case (1 act xs orders l r)
  define l' r' where "l' = advance_left act xs l" and "r' = retreat_right act xs r"
  have l: "l \<le> l'" "l' \<le> length xs" "\<forall>k < l'. act (xs ! k)" "l' < length xs \<Longrightarrow> \<not> act (xs ! l')"
    using advance_left_ge advance_left_spec [where l = l and xs = xs and act = act] 1(2,4) by (auto simp: l'_def intro: le_less_linear) (metis not_le)
  have r: "r' \<le> r" "0 < r' \<Longrightarrow> act (xs ! (r' - 1))" "\<forall>k < length xs. r' \<le> k \<longrightarrow> \<not> act (xs ! k)"
    using retreat_right_le [of act xs r] retreat_right_spec [where act = act and xs = xs and r = r] 1(5) by (auto simp: r'_def)
  note e = move_loop.simps [of act xs orders l r, folded l'_def r'_def, unfolded Let_def]
  show ?case
  proof (cases "Suc l' < r'")
    case True
    let ?xs = "swap_at l' (r' - 1) xs" and ?os = "if orders = [] then [] else swap_at l' (r' - 1) orders"
    have in_range: "l' < length xs" "r' - 1 < length xs" using True r(1) 1(3) by simp_all
    have m: "move_loop act ?xs ?os l' r' = (ys, orders', n)" using e True 1(2,3,7) by simp
    have "mset ys = mset ?xs \<and> (orders' = [] \<longleftrightarrow> ?os = []) \<and> (?os \<noteq> [] \<longrightarrow> mset (zip ys orders') = mset (zip ?xs ?os))
        \<and> length orders' = length ?os \<and> n \<le> length ys \<and> (\<forall>k < length ys. act (ys ! k) \<longleftrightarrow> k < n)"
    proof (rule "1.IH" [OF l'_def r'_def _ _ _ _ _ _ m])
      show "Suc l' < r' \<and> r \<le> length xs \<and> l \<le> length xs" using True 1(2,3) by simp
      show "\<forall>k < l'. act (?xs ! k)" using l(3) in_range True by (auto simp: nth_swap_at)
      show "\<forall>k < length ?xs. r' \<le> k \<longrightarrow> \<not> act (?xs ! k)" using r(3) in_range True by (auto simp: nth_swap_at)
    qed (use in_range 1(6) r(1) 1(3) in \<open>auto simp: swap_at_def\<close>)
    moreover have "orders \<noteq> [] \<longrightarrow> ?os \<noteq> []" by (auto simp: swap_at_def)
    ultimately show ?thesis using in_range 1(6) by (auto simp: mset_swap_at zip_swap_at)
  next
    case False
    then have "ys = xs" "orders' = orders" "n = l'" using e 1(7) by simp_all
    moreover have "\<not> act (xs ! k)" if "k < length xs" "l' \<le> k" for k
      using that l(4) r(3) False by (cases "k = l'") auto
    ultimately show ?thesis using l by (auto simp: not_less) (metis not_le)
  qed
qed

lemma MoveInactive_spec:
  assumes "batch_row_orders p = [] \<or> length (batch_row_orders p) = length (pgsql_ops p)"
  defines "p' \<equiv> MoveInactiveOpsOutside p"
  shows "templates p' = templates p" "mset (pgsql_ops p') = mset (pgsql_ops p)"
    "batch_row_orders p \<noteq> [] \<Longrightarrow> mset (zip (pgsql_ops p') (batch_row_orders p')) = mset (zip (pgsql_ops p) (batch_row_orders p))"
    "length (batch_row_orders p') = length (batch_row_orders p)"
    "active_op_count p' \<le> length (pgsql_ops p')"
    "k < length (pgsql_ops p') \<Longrightarrow> t_active (templates p ! (pgsql_ops p' ! k)) \<longleftrightarrow> k < active_op_count p'"
proof -
  let ?act = "\<lambda>a. t_active (templates p ! a)"
  obtain ys os n where m: "move_loop ?act (pgsql_ops p) (batch_row_orders p) 0 (length (pgsql_ops p)) = (ys, os, n)"
    by (metis prod_cases3)
  have p': "p' = p\<lparr>pgsql_ops := ys, batch_row_orders := os, active_op_count := n\<rparr>"
    by (simp add: p'_def MoveInactiveOpsOutside_def m)
  note spec = move_loop_spec [OF _ _ _ _ assms(1) m]
  show "templates p' = templates p" "mset (pgsql_ops p') = mset (pgsql_ops p)"
    "batch_row_orders p \<noteq> [] \<Longrightarrow> mset (zip (pgsql_ops p') (batch_row_orders p')) = mset (zip (pgsql_ops p) (batch_row_orders p))"
    "length (batch_row_orders p') = length (batch_row_orders p)"
    "active_op_count p' \<le> length (pgsql_ops p')"
    "k < length (pgsql_ops p') \<Longrightarrow> t_active (templates p ! (pgsql_ops p' ! k)) \<longleftrightarrow> k < active_op_count p'"
    using spec by (simp_all add: p')
qed

lemma MoveInactive_single:
  assumes "pgsql_ops p = [a]" "length (batch_row_orders p) \<le> 1"
  shows "MoveInactiveOpsOutside p = p\<lparr>active_op_count := (if t_active (templates p ! a) then 1 else 0)\<rparr>"
proof -
  let ?act = "\<lambda>a. t_active (templates p ! a)"
  have "advance_left ?act [a] 0 = (if ?act a then 1 else 0)"
    by (simp add: advance_left.simps [of ?act "[a]" 0] advance_left.simps [of ?act "[a]" "Suc 0"])
  then have "move_loop ?act [a] (batch_row_orders p) 0 1 = ([a], batch_row_orders p, if ?act a then 1 else 0)"
    by (subst move_loop.simps) simp
  then show ?thesis using assms(1) by (simp add: MoveInactiveOpsOutside_def)
qed

subsection \<open>Scans\<close>

lemmas op_steps = bindIO_def returnIO_def getOp_def modOp_def checkIO_def throwIO_def

lemma GetTxn_again:
  "GetTxn ad (h, w) = (Returned kOk, h1, w1) \<Longrightarrow> txn h1 = Some t \<Longrightarrow> GetTxn ad (h1, w2) = (Returned kOk, h1, w2)"
  by (auto simp: GetTxn_def split: if_splits prod.splits outcome.splits)

text \<open>
  What a scan of the storage does: each call returns the next rows, in order, and a call
  without rows is the last.  \<open>pending\<close> are the rows a query has still to return.
\<close>
definition scan_laws :: "('r, 'q, 'w) storage \<Rightarrow> ('w \<Rightarrow> 'q \<Rightarrow> 'r list) \<Rightarrow> bool" where
  "scan_laws st pending \<longleftrightarrow> (\<forall>q w. \<exists>c rows q1 w1. si_scanRead st q w = (Inr (c, rows, q1), w1) \<and> c \<in> {200, 201, 202}
     \<and> pending w q = rows @ pending w1 q1 \<and> (q_isDone st q1 \<longleftrightarrow> pending w1 q1 = []) \<and> (rows = [] \<longrightarrow> q_isDone st q1))"

text \<open>The query a request starts with or continues.\<close>
definition scan_starts :: "('r, 'q, 't, 'w) op_env \<Rightarrow> 't \<Rightarrow> 'q SqlOpReadRequest \<Rightarrow> 'w \<Rightarrow> 'q \<Rightarrow> 'w \<Rightarrow> bool" where
  "scan_starts env t req w q w1 \<longleftrightarrow> rd_k2pgctid_column_values req = [] \<and>
     (case rd_paging_state req of
        None \<Rightarrow> build_scan (env_storage env t) (env_bool_type env) req w = Some (Inr (Inr q), w1)
      | Some ps \<Rightarrow> ps_query ps = Some q \<and> w1 = w)"

text \<open>An operation with one request, the operation's own, that has been answered with some rows.\<close>
definition answered :: "('w \<Rightarrow> 'q \<Rightarrow> 'r list) \<Rightarrow> ('r, 'q, 't, 'w) op_state \<Rightarrow> 'r list \<Rightarrow> bool" where
  "answered pending s remaining \<longleftrightarrow> (\<exists>tp req resp q. templates (os_op s) = [tp] \<and> t_request tp = Read_request req
     \<and> rd_k2pgctid_column_values req = [] \<and> t_response tp = Some resp \<and> resp_status resp = PGSQL_STATUS_OK
     \<and> remaining = t_rows_data tp @ pending (os_world s) q
     \<and> (case resp_paging_state resp of None \<Rightarrow> pending (os_world s) q = []
        | Some ps \<Rightarrow> pending (os_world s) q \<noteq> [] \<and> ps_query ps = Some q \<and> t_rows_data tp \<noteq> []))"

definition op_ready :: "('r, 'q) PgOp \<Rightarrow> bool" where
  "op_ready p \<longleftrightarrow> exec_status p = kOk \<and> \<not> end_of_data p \<and> batch_row_orders p = [] \<and> 1 \<le> parallelism_level p
     \<and> \<not> suppress_next_result_prefetching p"

definition in_flight :: "('r, 'q, 't, 'w) op_env \<Rightarrow> 't \<Rightarrow> ('w \<Rightarrow> 'q \<Rightarrow> 'r list) \<Rightarrow> ('r, 'q, 't, 'w) op_state \<Rightarrow> 'r list \<Rightarrow> bool" where
  "in_flight env t pending s remaining \<longleftrightarrow> answered pending s remaining \<and> op_ready (os_op s) \<and> pgsql_ops (os_op s) = [0]
     \<and> active_op_count (os_op s) = 1 \<and> request_population_completed (os_op s) \<and> t_active (templates (os_op s) ! 0)
     \<and> requestAsyncRunResult (os_op s) = Some (Inr kOk)
     \<and> (\<forall>w. GetTxn (env_adapter env) (os_handler s, w) = (Returned kOk, os_handler s, w)) \<and> txn (os_handler s) = Some t"

lemma Exec_scan:
  assumes laws: "scan_laws (env_storage env t) pending"
    and tp: "templates (os_op s) = [tp]" "t_request tp = Read_request req"
    and start: "scan_starts env t req (os_world s) q w0"
  obtains tp' s' where "Exec env t 0 s = Some (Inr (Inr kOk), s')" "answered pending s' (pending w0 q)"
    "s' = s\<lparr>os_op := (os_op s)\<lparr>templates := [tp']\<rparr>, os_world := os_world s'\<rparr>" "t_active tp' = t_active tp"
proof -
  let ?st = "env_storage env t"
  obtain c rows q1 w1 where scan: "si_scanRead ?st q w0 = (Inr (c, rows, q1), w1)" "c \<in> {200, 201, 202}"
      "pending w0 q = rows @ pending w1 q1" "q_isDone ?st q1 \<longleftrightarrow> pending w1 q1 = []" "rows = [] \<longrightarrow> q_isDone ?st q1"
    using laws unfolding scan_laws_def by blast
  have ok: "K2StatusToK2PgStatus c = kOk" "K2StatusToPGStatus c = PGSQL_STATUS_OK" using scan(2) by auto
  define ps where "ps = next_paging_state ?st (rd_paging_state req) q1 (length rows)"
  define resp where "resp = allocateResponse\<lparr>resp_paging_state := ps, resp_status := PGSQL_STATUS_OK\<rparr>"
  define tp' where "tp' = tp\<lparr>t_response := Some resp, t_rows_data := rows\<rparr>"
  define s' where "s' = s\<lparr>os_op := (os_op s)\<lparr>templates := [tp']\<rparr>, os_world := w1\<rparr>"
  have "handleReadOp ?st (env_bool_type env) (env_initial env) req allocateResponse (t_rows_data tp) (os_world s)
      = Some (Inr kOk, resp, rows, w1)"
    using start scan(1) ok
    by (auto simp: handleReadOp_def read_body_def scan_starts_def running_query_def callIO_def returnIO_def bindIO_def
        resp_def ps_def allocateResponse_def split: option.splits)
  then have "Exec env t 0 s = Some (Inr (Inr kOk), s')"
    using tp by (simp add: Exec_def s'_def set_template_def tp'_def)
  moreover have "answered pending s' (pending w0 q)"
    using tp start scan(3,4,5) unfolding answered_def
    by (intro exI [of _ tp'] exI [of _ req] exI [of _ resp] exI [of _ q1])
      (auto simp: s'_def tp'_def resp_def ps_def next_paging_state_def scan_starts_def split: option.splits)
  ultimately show ?thesis using that [of s' tp'] by (simp add: s'_def tp'_def)
qed

text \<open>The state before a request is sent: one active request, the operation's own, and a transaction.\<close>
definition sendable :: "('r, 'q, 't, 'w) op_env \<Rightarrow> 't \<Rightarrow> ('r, 'q, 't, 'w) op_state \<Rightarrow> 'w \<Rightarrow> bool" where
  "sendable env t s w1 \<longleftrightarrow> op_ready (os_op s) \<and> requestAsyncRunResult (os_op s) = None
     \<and> (if request_population_completed (os_op s)
        then pgsql_ops (os_op s) = [0] \<and> active_op_count (os_op s) = 1 \<and> t_active (templates (os_op s) ! 0)
        else pgsql_ops (os_op s) = [])
     \<and> (\<exists>h1. GetTxn (env_adapter env) (os_handler s, os_world s) = (Returned kOk, h1, w1) \<and> txn h1 = Some t)"

lemma answered_cong:
  "templates (os_op s') = templates (os_op s) \<Longrightarrow> os_world s' = os_world s \<Longrightarrow> answered pending s' = answered pending s"
  by (simp add: answered_def fun_eq_iff cong: option.case_cong)

lemma SendRequest_scan:
  assumes laws: "scan_laws (env_storage env t) pending"
    and tp: "templates (os_op s) = [tp]" "t_request tp = Read_request req"
    and send: "sendable env t s w1" and start: "scan_starts env t req w1 q w2"
  obtains s' where "SendRequest env s = Some (Inr kOk, s')" "in_flight env t pending s' (pending w2 q)"
proof -
  obtain h1 where h1: "GetTxn (env_adapter env) (os_handler s, os_world s) = (Returned kOk, h1, w1)" "txn h1 = Some t"
    using send unfolding sendable_def by blast
  define p1 where "p1 = CreateRequests (os_op s)"
  have p1: "templates p1 = [tp\<lparr>t_active := True\<rparr>]" "pgsql_ops p1 = [0]" "active_op_count p1 = 1" "request_population_completed p1"
    "op_ready p1" "requestAsyncRunResult p1 = None"
    using send tp by (auto simp: p1_def CreateRequests_def set_template_def sendable_def op_ready_def split: if_splits)
  define s0 where "s0 = s\<lparr>os_op := p1\<rparr>"
  define s1 where "s1 = (if ShouldHandleTransactionally env (templates p1 ! 0) then s0
    else InvalidateForeignKeyReferenceCache s0)\<lparr>os_handler := h1, os_world := w1\<rparr>"
  have o1: "os_op s1 = p1" "os_handler s1 = h1" by (simp_all add: s1_def s0_def InvalidateForeignKeyReferenceCache_def)
  have s1: "templates (os_op s1) = [tp\<lparr>t_active := True\<rparr>]" "t_request (tp\<lparr>t_active := True\<rparr>) = Read_request req"
    "scan_starts env t req (os_world s1) q w2"
    using p1(1) tp(2) start o1 by (simp_all add: s1_def)
  obtain tp' s2 where s2: "Exec env t 0 s1 = Some (Inr (Inr kOk), s2)" "answered pending s2 (pending w2 q)"
      "s2 = s1\<lparr>os_op := (os_op s1)\<lparr>templates := [tp']\<rparr>, os_world := os_world s2\<rparr>" "t_active tp' = t_active (tp\<lparr>t_active := True\<rparr>)"
    using Exec_scan [OF laws s1] by metis
  have m: "min (parallelism_level p1) (Suc 0) = Suc 0" using p1(5) by (simp add: op_ready_def min_def)
  have run: "SendRequestImpl env s = Some (Inr kOk, s2\<lparr>os_op := (os_op s2)\<lparr>requestAsyncRunResult := Some (Inr kOk)\<rparr>\<rparr>)"
    using s2(1) h1 p1(2,3) m
    by (cases "ShouldHandleTransactionally env (templates p1 ! 0)")
      (simp_all add: SendRequestImpl_def RunAsync_def op_steps session_txn_def InvalidateForeignKeyReferenceCache_def
        s0_def s1_def p1_def [symmetric])
  define s' where "s' = s2\<lparr>os_op := (os_op s2)\<lparr>requestAsyncRunResult := Some (Inr kOk), exec_status := kOk\<rparr>\<rparr>"
  have "SendRequest env s = Some (Inr kOk, s')"
    using run send by (simp add: SendRequest_def op_steps s'_def sendable_def op_ready_def)
  moreover have "in_flight env t pending s' (pending w2 q)"
    unfolding in_flight_def
  proof (intro conjI)
    show "answered pending s' (pending w2 q)" using s2(2) answered_cong [of s' s2 pending] by (simp add: s'_def)
    have o: "os_op s' = p1\<lparr>templates := [tp'], requestAsyncRunResult := Some (Inr kOk), exec_status := kOk\<rparr>"
      unfolding s'_def by (subst s2(3)) (simp add: o1)
    show "op_ready (os_op s')" "pgsql_ops (os_op s') = [0]" "active_op_count (os_op s') = 1"
      "request_population_completed (os_op s')" "t_active (templates (os_op s') ! 0)" "requestAsyncRunResult (os_op s') = Some (Inr kOk)"
      using p1 s2(4) by (simp_all add: o op_ready_def)
    have h: "os_handler s' = h1" unfolding s'_def by (subst s2(3)) (simp add: o1)
    show "\<forall>w. GetTxn (env_adapter env) (os_handler s', w) = (Returned kOk, os_handler s', w)" "txn (os_handler s') = Some t"
      using GetTxn_again [OF h1] h1(2) by (simp_all add: h)
  qed
  ultimately show ?thesis by (rule that)
qed

lemma ProcessResponse_scan:
  assumes "in_flight env t pending s remaining"
  obtains tp rs s' rest where "ProcessResponse env kOk (s\<lparr>os_op := (os_op s)\<lparr>requestAsyncRunResult := None\<rparr>\<rparr>) = Some (Inr (Inr rs), s')"
    "remaining = concat (map res_data rs) @ rest" "end_of_data (os_op s') \<longleftrightarrow> rest = []" "\<not> end_of_data (os_op s') \<Longrightarrow> rs \<noteq> [] \<and> concat (map res_data rs) \<noteq> []"
    "os_world s' = os_world s" "os_handler s' = os_handler s" "exec_status (os_op s') = kOk" "\<not> suppress_next_result_prefetching (os_op s')"
    "\<not> end_of_data (os_op s') \<Longrightarrow> \<exists>req q. templates (os_op s') = [tp] \<and> t_request tp = Read_request req
       \<and> (\<forall>w. scan_starts env t req w q w) \<and> pending (os_world s) q = rest \<and> sendable env t s' (os_world s)"
proof -
  let ?p = "os_op s"
  obtain tp req resp q where a: "templates ?p = [tp]" "t_request tp = Read_request req"
      "rd_k2pgctid_column_values req = []" "t_response tp = Some resp" "resp_status resp = PGSQL_STATUS_OK"
      "remaining = t_rows_data tp @ pending (os_world s) q"
      "case resp_paging_state resp of None \<Rightarrow> pending (os_world s) q = []
        | Some ps \<Rightarrow> pending (os_world s) q \<noteq> [] \<and> ps_query ps = Some q \<and> t_rows_data tp \<noteq> []"
    using assms unfolding in_flight_def answered_def by blast
  have f: "op_ready ?p" "pgsql_ops ?p = [0]" "active_op_count ?p = 1" "request_population_completed ?p" "t_active tp"
      "\<And>w. GetTxn (env_adapter env) (os_handler s, w) = (Returned kOk, os_handler s, w)" "txn (os_handler s) = Some t"
    using assms a(1) unfolding in_flight_def by auto
  define rs where "rs = (if t_rows_data tp = [] then [] else [PgOpResult_make env (t_rows_data tp) []])"
  define req' where "req' = req\<lparr>rd_paging_state := resp_paging_state resp\<rparr>"
  define more where "more = (resp_paging_state resp \<noteq> None)"
  define tp' where "tp' = tp\<lparr>t_rows_data := [], t_request := Read_request req', t_active := more\<rparr>"
  define p1 where "p1 = ?p\<lparr>requestAsyncRunResult := None, exec_status := kOk, templates := [tp'], rows_affected_count := resp_rows_affected_count resp,
      active_op_count := (if more then 1 else 0), end_of_data := \<not> more\<rparr>"
  define s' where "s' = s\<lparr>os_op := p1\<rparr>"
  have m: "min (parallelism_level ?p) (Suc 0) = Suc 0" using f(1) by (simp add: op_ready_def min_def)
  have "ProcessResponse env kOk (s\<lparr>os_op := ?p\<lparr>requestAsyncRunResult := None\<rparr>\<rparr>) = Some (Inr (Inr rs), s')"
  proof (cases "resp_paging_state resp")
    case None
    then show ?thesis using a f m
      by (simp add: ProcessResponse_def op_steps ProcessResponseImpl_def is_read_op_def PgReadOp_ProcessResponseImpl_def
          ProcessResponseResult_def HandleResponse_def succeeded_def op_ready_def set_template_def rs_def s'_def p1_def more_def
          ProcessResponsePagingState_def update_read_def tp'_def req'_def)
  next
    case (Some ps)
    then show ?thesis using a f m
      by (simp add: ProcessResponse_def op_steps ProcessResponseImpl_def is_read_op_def PgReadOp_ProcessResponseImpl_def
          ProcessResponseResult_def HandleResponse_def succeeded_def op_ready_def set_template_def rs_def s'_def p1_def more_def
          ProcessResponsePagingState_def update_read_def tp'_def req'_def MoveInactive_single)
  qed
  moreover have "remaining = concat (map res_data rs) @ pending (os_world s) q"
    using a(6) by (simp add: rs_def PgOpResult_make_def)
  moreover have "end_of_data (os_op s') \<longleftrightarrow> pending (os_world s) q = []"
    using a(7) by (auto simp: s'_def p1_def more_def split: option.splits)
  moreover have "rs \<noteq> [] \<and> concat (map res_data rs) \<noteq> []" if "\<not> end_of_data (os_op s')"
    using that a(7) by (auto simp: s'_def p1_def more_def rs_def PgOpResult_make_def split: option.splits)
  moreover have "\<exists>req q'. templates (os_op s') = [tp'] \<and> t_request tp' = Read_request req
       \<and> (\<forall>w. scan_starts env t req w q' w) \<and> pending (os_world s) q' = pending (os_world s) q \<and> sendable env t s' (os_world s)"
    if "\<not> end_of_data (os_op s')"
    using that a(3,7) f
    by (intro exI [of _ req'] exI [of _ q])
      (auto simp: s'_def p1_def more_def tp'_def req'_def scan_starts_def sendable_def op_ready_def split: option.splits)
  moreover have "os_world s' = os_world s" "os_handler s' = os_handler s" "exec_status (os_op s') = kOk" "\<not> suppress_next_result_prefetching (os_op s')"
    using f(1) by (simp_all add: s'_def p1_def op_ready_def)
  ultimately show ?thesis using that [of rs s' "pending (os_world s) q" tp'] by blast
qed

lemma GetResult_scan:
  assumes laws: "scan_laws (env_storage env t) pending" and fl: "in_flight env t pending s remaining"
  obtains rs s' rest where "GetResult env s = Some (Inr (kOk, rs), s')" "remaining = concat (map res_data rs) @ rest"
    "if rest = [] then end_of_data (os_op s') else in_flight env t pending s' rest \<and> concat (map res_data rs) \<noteq> []"
proof -
  define s1 where "s1 = s\<lparr>os_op := (os_op s)\<lparr>requestAsyncRunResult := None\<rparr>\<rparr>"
  have ready: "op_ready (os_op s)" "requestAsyncRunResult (os_op s) = Some (Inr kOk)" using fl by (simp_all add: in_flight_def)
  obtain tp rs s2 rest where r: "ProcessResponse env kOk s1 = Some (Inr (Inr rs), s2)"
    "remaining = concat (map res_data rs) @ rest" "end_of_data (os_op s2) \<longleftrightarrow> rest = []"
    "\<not> end_of_data (os_op s2) \<Longrightarrow> rs \<noteq> [] \<and> concat (map res_data rs) \<noteq> []"
    "os_world s2 = os_world s" "os_handler s2 = os_handler s" "exec_status (os_op s2) = kOk" "\<not> suppress_next_result_prefetching (os_op s2)"
    "\<not> end_of_data (os_op s2) \<Longrightarrow> \<exists>req q. templates (os_op s2) = [tp] \<and> t_request tp = Read_request req
       \<and> (\<forall>w. scan_starts env t req w q w) \<and> pending (os_world s) q = rest \<and> sendable env t s2 (os_world s)"
    using ProcessResponse_scan [OF fl] unfolding s1_def by metis
  note step = GetResult_def op_steps get_future_def s1_def [symmetric] r(1) op_ready_def
  show ?thesis
  proof (cases "rest = []")
    case True
    then have "GetResult env s = Some (Inr (kOk, rs), s2)" using ready r(3) by (simp add: step)
    then show ?thesis using True r(2,3) by (intro that [of rs s2 rest]) simp_all
  next
    case False
    then have more: "\<not> end_of_data (os_op s2)" using r(3) by simp
    obtain req q where n: "templates (os_op s2) = [tp]" "t_request tp = Read_request req" "scan_starts env t req (os_world s) q (os_world s)"
        "pending (os_world s) q = rest" "sendable env t s2 (os_world s)"
      using r(9) [OF more] by blast
    obtain s3 where s3: "SendRequest env s2 = Some (Inr kOk, s3)" "in_flight env t pending s3 (pending (os_world s) q)"
      using SendRequest_scan [OF laws n(1,2,5,3)] by metis
    define s4 where "s4 = s3\<lparr>os_op := (os_op s3)\<lparr>exec_status := kOk\<rparr>\<rparr>"
    have "s4 = s3" using s3(2) by (simp add: s4_def in_flight_def op_ready_def)
    moreover have "GetResult env s = Some (Inr (kOk, rs), s4)"
      using ready more r(4,8) s3(1) by (simp add: step s4_def)
    ultimately show ?thesis using False more r(2,4) s3(2) n(4) by (intro that [of rs s3 rest]) simp_all
  qed
qed

text \<open>A client that fetches until the end of the data; \<open>n\<close> bounds the number of calls.\<close>
fun fetch_all :: "nat \<Rightarrow> ('r, 'q, 't, 'w) op_env \<Rightarrow> (('r, 'q, 't, 'w) op_state, code \<times> 'r list) io" where
  "fetch_all 0 env = returnIO (kOk, [])"
| "fetch_all (Suc n) env = bindIO (getOp end_of_data) (\<lambda>done.
    if done then returnIO (kOk, [])
    else bindIO (GetResult env) (\<lambda>(c, rs).
      if c \<noteq> kOk then returnIO (c, concat (map res_data rs))
      else bindIO (fetch_all n env) (\<lambda>(c, rows). returnIO (c, concat (map res_data rs) @ rows))))"

lemma fetch_all_scan:
  assumes laws: "scan_laws (env_storage env t) pending"
  shows "in_flight env t pending s remaining \<Longrightarrow> length remaining < n \<Longrightarrow>
    \<exists>s'. fetch_all n env s = Some (Inr (kOk, remaining), s') \<and> end_of_data (os_op s')"
proof (induction n arbitrary: s remaining)
  case (Suc n)
  obtain rs s1 rest where r: "GetResult env s = Some (Inr (kOk, rs), s1)" "remaining = concat (map res_data rs) @ rest"
    "if rest = [] then end_of_data (os_op s1) else in_flight env t pending s1 rest \<and> concat (map res_data rs) \<noteq> []"
    using GetResult_scan [OF laws Suc.prems(1)] by metis
  have nd: "\<not> end_of_data (os_op s)" using Suc.prems(1) by (simp add: in_flight_def op_ready_def)
  show ?case
  proof (cases "rest = []")
    case True
    then show ?thesis using nd r by (cases n) (auto simp: op_steps)
  next
    case False
    then have "length rest < n" using r(2,3) Suc.prems(2) by (cases "concat (map res_data rs)") auto
    then obtain s' where "fetch_all n env s1 = Some (Inr (kOk, rest), s')" "end_of_data (os_op s')"
      using Suc.IH [of s1 rest] False r(3) by auto
    then show ?thesis using nd r(1,2) by (simp add: op_steps)
  qed
qed simp

lemma Execute_scan:
  assumes laws: "scan_laws (env_storage env t) pending"
    and tp: "templates (os_op s) = [tp]" "t_request tp = Read_request req"
    and send: "sendable env t s w1" and start: "scan_starts env t req w1 q w2"
  obtains s' where "Execute env s = Some (Inr (Inr True), s')" "in_flight env t pending s' (pending w2 q)"
proof -
  obtain s3 where s3: "SendRequest env s = Some (Inr kOk, s3)" "in_flight env t pending s3 (pending w2 q)"
    using SendRequest_scan [OF assms] by metis
  have "s3\<lparr>os_op := (os_op s3)\<lparr>exec_status := kOk\<rparr>\<rparr> = s3" using s3(2) by (simp add: in_flight_def op_ready_def)
  then have "Execute env s = Some (Inr (Inr True), s3)"
    using s3 by (simp add: Execute_def op_steps in_flight_def)
  then show ?thesis using s3(2) that by blast
qed

text \<open>(C17)
  Moving the inactive requests out of the way loses and invents none: the requests
  are permuted, those still active are exactly the ones before the new count, and
  every list of row orders stays with its request.
\<close>
theorem MoveInactiveOpsOutside_partition:
  assumes "batch_row_orders p = [] \<or> length (batch_row_orders p) = length (pgsql_ops p)"
  shows "let p' = MoveInactiveOpsOutside p in mset (pgsql_ops p') = mset (pgsql_ops p)
    \<and> active_op_count p' = length (filter (\<lambda>a. t_active (templates p ! a)) (pgsql_ops p))
    \<and> list_all (\<lambda>a. t_active (templates p ! a)) (take (active_op_count p') (pgsql_ops p'))
    \<and> list_all (\<lambda>a. \<not> t_active (templates p ! a)) (drop (active_op_count p') (pgsql_ops p'))
    \<and> (batch_row_orders p = [] \<or> mset (zip (pgsql_ops p') (batch_row_orders p')) = mset (zip (pgsql_ops p) (batch_row_orders p)))"
proof -
  define p' where "p' = MoveInactiveOpsOutside p"
  define act where "act = (\<lambda>a. t_active (templates p ! a))"
  note spec = MoveInactive_spec [OF assms, folded p'_def, folded act_def]
  let ?n = "active_op_count p'" and ?xs = "pgsql_ops p'"
  have t: "list_all act (take ?n ?xs)" using spec(5,6) by (auto simp: list_all_length act_def)
  have d: "list_all (\<lambda>a. \<not> act a) (drop ?n ?xs)" using spec(5) spec(6) by (auto simp: list_all_length act_def)
  have "filter act ?xs = filter act (take ?n ?xs) @ filter act (drop ?n ?xs)" by (simp flip: filter_append)
  also have "\<dots> = take ?n ?xs" using t d by (simp add: list_all_iff filter_empty_conv)
  finally have "length (filter act ?xs) = ?n" using spec(5) by simp
  moreover have "length (filter act ?xs) = length (filter act (pgsql_ops p))"
    using spec(2) by (metis mset_filter size_mset)
  ultimately show ?thesis using spec(2,3) t d unfolding Let_def p'_def [symmetric] act_def by auto
qed

text \<open>Three requests, the first of which is done.\<close>
definition example_op :: "(nat, nat) PgOp" where
  "example_op = (let t = \<lparr>t_request = Write_request example_insert False, t_response = None, t_rows_data = [], t_active = True\<rparr> in
     (PgOp_make t)\<lparr>templates := [t\<lparr>t_active := False\<rparr>, t, t], pgsql_ops := [0, 1, 2], batch_row_orders := [[10], [11], [12]]\<rparr>)"

theorem MoveInactiveOpsOutside_partition_witness:
  "let p' = MoveInactiveOpsOutside example_op in mset (pgsql_ops p') = mset [0, 1, 2] \<and> active_op_count p' = 2
    \<and> mset (zip (pgsql_ops p') (batch_row_orders p')) = mset [(0, [10]), (1, [11]), (2, [12])]"
  using MoveInactiveOpsOutside_partition [of example_op]
  by (simp add: example_op_def Let_def PgOp_make_def)

text \<open>(C3)
  A scan delivers its rows: initialising a new read operation, executing it and fetching
  until the end of the data returns, page after page, exactly the rows the query has in
  storage, in order, without an error, and the operation knows that it is at the end.
\<close>
theorem scan_returns_rows:
  assumes laws: "scan_laws (env_storage env t) pending"
    and req: "t_request (templates (PgReadOp_ExecuteInit ep (PgOp_make tp)) ! 0) = Read_request req"
      "rd_k2pgctid_column_values req = []" "rd_paging_state req = None"
    and txn: "GetTxn (env_adapter env) (h, w) = (Returned kOk, h1, w1)" "txn h1 = Some t"
    and build: "build_scan (env_storage env t) (env_bool_type env) req w1 = Some (Inr (Inr q), w2)"
    and n: "length (pending w2 q) < n"
  shows "\<exists>s'. bindIO (modOp (PgReadOp_ExecuteInit ep)) (\<lambda>_. bindIO (Execute env) (\<lambda>_. fetch_all n env))
      \<lparr>os_op = PgOp_make tp, os_handler = h, os_fk = fk, os_world = w\<rparr> = Some (Inr (kOk, pending w2 q), s')
    \<and> end_of_data (os_op s')"
proof -
  define p where "p = PgReadOp_ExecuteInit ep (PgOp_make tp)"
  define s where "s = \<lparr>os_op = p, os_handler = h, os_fk = fk, os_world = w\<rparr>"
  have p: "templates p = [templates p ! 0]" "op_ready p" "requestAsyncRunResult p = None" "\<not> request_population_completed p" "pgsql_ops p = []"
    by (simp_all add: p_def PgReadOp_ExecuteInit_def SetRowMark_def SetRequestTotalLimit_def set_template_def
        PgOp_ExecuteInit_def PgOp_make_def op_ready_def Let_def split: option.split)
  have "templates (os_op s) = [templates p ! 0]" using p(1) by (simp add: s_def)
  moreover have "t_request (templates p ! 0) = Read_request req" using req(1) by (simp add: p_def)
  moreover have "sendable env t s w1" using p txn by (auto simp: sendable_def s_def)
  moreover have "scan_starts env t req w1 q w2" using req build by (simp add: scan_starts_def)
  ultimately obtain s1 where s1: "Execute env s = Some (Inr (Inr True), s1)" "in_flight env t pending s1 (pending w2 q)"
    using Execute_scan [OF laws, of s "templates p ! 0" req w1 q w2] by metis
  then obtain s2 where "fetch_all n env s1 = Some (Inr (kOk, pending w2 q), s2)" "end_of_data (os_op s2)"
    using fetch_all_scan [OF laws s1(2) n] by blast
  then show ?thesis using s1(1) by (simp add: op_steps s_def p_def)
qed

text \<open>A store with one table whose scans return two rows at a time; a query is the list of rows it has left.\<close>
definition page_storage :: "list_rec list \<Rightarrow> (list_rec, list_rec list, nat) storage" where
  "page_storage rows = \<lparr>si_skv = list_skv, si_getSchema = (\<lambda>_ _ _ w. (Inr (200, lr_schema (example_record 0)), w)),
     si_newRecord = (\<lambda>_ _. example_record 0), si_emptyRecord = example_record 0,
     si_recordOf = (\<lambda>_ _ i. Inr ((example_record 0)\<lparr>lr_vals := (\<lambda>_. None)(2 := Some (L_string i))\<rparr>)),
     si_toString = (\<lambda>_. []), si_partitionKey = (\<lambda>_. Inr []),
     si_write = (\<lambda>_ _ _ w. (Inr 200, w)), si_partialUpdate = (\<lambda>_ _ _ w. (Inr 200, w)), si_read = (\<lambda>r w. (Inr (200, r), w)),
     si_createScanRead = (\<lambda>_ _ w. (Inr (200, rows), w)), si_scanRead = (\<lambda>q w. (Inr (200, take 2 q, drop 2 q), w)),
     q_schema = (\<lambda>_. lr_schema (example_record 0)), q_setReverseDirection = (\<lambda>_ q. q), q_addProjection = (\<lambda>_ q. q),
     q_setBounds = (\<lambda>_ _ q. q), q_setFilterExpression = (\<lambda>_ q. q), q_setLimit = (\<lambda>_ q. q), q_isDone = (\<lambda>q. q = []),
     k2_is2xxOK = (\<lambda>c. 200 \<le> c \<and> c < 300), k2_ConditionFailed = 412, k2_OK = 200\<rparr>"

lemma page_storage_scan_laws: "scan_laws (page_storage rows) (\<lambda>w q. q)"
  by (auto simp: scan_laws_def page_storage_def)

definition page_env :: "list_rec list \<Rightarrow> (list_rec, list_rec list, nat, nat) op_env" where
  "page_env rows = \<lparr>env_storage = (\<lambda>_. page_storage rows), env_adapter = counter_adapter 200, env_bool_type = int64_entity,
     env_string_type = \<lparr>te_type = DT_STRING, te_datum_to_k2pg = (\<lambda>_. C_slice [])\<rparr>, env_initial = 200,
     env_keyRecord = id, env_recordString = (\<lambda>_. []), env_init_db_mode = False\<rparr>"

definition page_request :: "list_rec list SqlOpReadRequest" where
  "page_request = \<lparr>rd_collection_name = [], rd_table_id = [], rd_base_table_oid = 16384, rd_index_oid = 0,
     rd_schema_version = 1, rd_key_column_values = [example_bind 0 3], rd_k2pgctid_column_values = [], rd_targets = [],
     rd_range_conds = None, rd_where_conds = None, rd_is_forward_scan = True, rd_distinct = False, rd_is_aggregate = False,
     rd_limit = 0, rd_return_paging_state = True, rd_row_mark_type = 15, rd_paging_state = None\<rparr>"

definition page_template :: "(list_rec, list_rec list) PgOpTemplate" where
  "page_template = \<lparr>t_request = Read_request page_request, t_response = None, t_rows_data = [], t_active = False\<rparr>"

lemma page_init:
  "t_request (templates (PgReadOp_ExecuteInit None (PgOp_make page_template)) ! 0) = Read_request page_request"
  by (simp add: PgReadOp_ExecuteInit_def SetRowMark_def SetRequestTotalLimit_def set_template_def update_read_def
      set_return_paging_state_def PgOp_ExecuteInit_def PgOp_make_def page_template_def page_request_def Let_def)

lemma page_build: "build_scan (page_storage rows) bt page_request w = Some (Inr (Inr rows), w)"
proof -
  have "MakeSKVRecord_read (page_storage rows) page_request w = Some (Inr (Inr example_key_record), w)" for w
    by (simp add: MakeSKVRecord_read_def MakeSKVRecordWithKeysSerialized_def bindIO_def callIO_def
        page_storage_def page_request_def example_fill_keys returnIO_def)
  moreover have "page_request = page_request\<lparr>rd_targets := [], rd_range_conds := None, rd_where_conds := None, rd_limit := 0\<rparr>"
    by (simp add: page_request_def)
  ultimately show ?thesis
    by (simp add: build_scan_def bindIO_def callIO_def returnIO_def page_storage_def add_projections_def HandleRangeConditions_def
        filter_expression_def page_request_def)
qed

theorem scan_returns_rows_witness:
  "\<exists>s'. bindIO (modOp (PgReadOp_ExecuteInit None)) (\<lambda>_. bindIO (Execute (page_env (map example_record [1, 2, 3])))
        (\<lambda>_. fetch_all 4 (page_env (map example_record [1, 2, 3]))))
      \<lparr>os_op = PgOp_make page_template, os_handler = initial_handler, os_fk = {}, os_world = 0\<rparr>
      = Some (Inr (kOk, map example_record [1, 2, 3]), s') \<and> end_of_data (os_op s')"
proof (rule scan_returns_rows [OF _ page_init])
  let ?rows = "map example_record [1, 2, 3]"
  show "scan_laws (env_storage (page_env ?rows) 0) (\<lambda>w q. q)" using page_storage_scan_laws by (simp add: page_env_def)
  show "rd_k2pgctid_column_values page_request = []" "rd_paging_state page_request = None" by (simp_all add: page_request_def)
  show "GetTxn (env_adapter (page_env ?rows)) (initial_handler, 0)
      = (Returned kOk, initial_handler\<lparr>txn := Some 0, txn_in_progress := True, can_restart := True\<rparr>, 1)"
    by (simp add: page_env_def counter_adapter_def GetTxn_def primitive_ops initial_handler_def)
  show "txn (initial_handler\<lparr>txn := Some 0, txn_in_progress := True, can_restart := True\<rparr>) = Some 0" by simp
  show "build_scan (env_storage (page_env ?rows) 0) (env_bool_type (page_env ?rows)) page_request 1 = Some (Inr (Inr ?rows), 1)"
    using page_build by (simp add: page_env_def)
qed simp

subsection \<open>Batches of row ids\<close>

text \<open>
  What reads by row id do: the schema is known, a row id of the table is turned into a
  key record, and reading that record returns the row it identifies.
\<close>
definition get_laws :: "('r, 'q, 'w) storage \<Rightarrow> string \<Rightarrow> string \<Rightarrow> (string \<rightharpoonup> 'r) \<Rightarrow> bool" where
  "get_laws st coll tid look \<longleftrightarrow> (\<exists>sc c. k2_is2xxOK st c \<and> (\<forall>w. si_getSchema st coll tid None w = (Inr (c, sc), w))
     \<and> (\<forall>i row. look i = Some row \<longrightarrow> (\<exists>key. si_recordOf st coll sc i = Inr key
          \<and> (\<forall>w. si_read st (skv_seek (si_skv st) 0 key) w = (Inr (200, row), w)))))
     \<and> k2_is2xxOK st 200"

definition id_bind :: "type_entity \<Rightarrow> string \<Rightarrow> BindVariable" where
  "id_bind te i = \<lparr>bv_idx = attr_num kPgTupleId, bv_expr = Some (PgConstant PG_EXPR_CONSTANT te (SqlValue_slice i))\<rparr>"

lemma row_id_binds_eq: "expr_type_ok te \<Longrightarrow> row_id_binds te ids = Some (map (id_bind te) ids)"
  by (induction ids) (auto simp: new_PgConstant_value_def id_bind_def)

lemma K2PGTIDToRecord_id:
  "K2PGTIDToRecord st coll sc (Some (id_bind te i)) = bindE (Some (si_recordOf st coll sc i)) (\<lambda>r. returnE (skv_seek (si_skv st) 0 r))"
  by (simp add: K2PGTIDToRecord_def id_bind_def row_id_slice_def is_constant_def as_value_def SqlValue_slice_def)

lemma issue_reads_ids:
  assumes "get_laws st (rd_collection_name req) (rd_table_id req) look"
  shows "set ids \<subseteq> dom look \<Longrightarrow>
    issue_reads st req (map (id_bind te) ids) w = Some (Inr (map (\<lambda>i. Inr (200, the (look i))) ids), w)"
proof (induction ids)
  case (Cons i ids)
  then obtain row where row: "look i = Some row" by auto
  obtain sc c where sc: "k2_is2xxOK st c" "\<And>w. si_getSchema st (rd_collection_name req) (rd_table_id req) None w = (Inr (c, sc), w)"
      "\<And>i row. look i = Some row \<Longrightarrow> \<exists>key. si_recordOf st (rd_collection_name req) sc i = Inr key
          \<and> (\<forall>w. si_read st (skv_seek (si_skv st) 0 key) w = (Inr (200, row), w))"
    using assms unfolding get_laws_def by blast
  obtain key where "si_recordOf st (rd_collection_name req) sc i = Inr key"
      "\<And>w. si_read st (skv_seek (si_skv st) 0 key) w = (Inr (200, row), w)" using sc(3) [OF row] by blast
  then show ?case using Cons sc(1,2) row
    by (simp add: bindIO_def callIO_def K2PGTIDToRecord_id returnIO_def liftIO_def bindE_def returnE_def)
qed (simp add: returnIO_def)

lemma collect_reads_ok:
  "k2_is2xxOK st 200 \<Longrightarrow> collect_reads st (map (\<lambda>i. Inr (200, f i)) ids) rows c = (rows @ map f ids, Inr (if ids = [] then c else 200))"
  by (induction ids arbitrary: rows c) auto

text \<open>One batch: the requests are populated and sent, and the reply is fetched.\<close>
definition run_batch :: "('r, 'q, 't, 'w) op_env \<Rightarrow> string list \<Rightarrow> (('r, 'q, 't, 'w) op_state, code \<times> 'r list) io" where
  "run_batch env ids = bindIO (getOp (PgReadOp_PopulateDmlByRowIdOps env ids)) (\<lambda>r. case r of
      None \<Rightarrow> (\<lambda>s. None)
    | Some (c, p) \<Rightarrow> bindIO (modOp (\<lambda>_. p)) (\<lambda>_.
        if c \<noteq> kOk then returnIO (c, [])
        else bindIO (Execute env) (\<lambda>_. bindIO (GetResult env) (\<lambda>(c, rs). returnIO (c, concat (map res_data rs))))))"

fun run_batches :: "('r, 'q, 't, 'w) op_env \<Rightarrow> string list list \<Rightarrow> (('r, 'q, 't, 'w) op_state, 'r list) io" where
  "run_batches env [] = returnIO []"
| "run_batches env (ids # idss) = bindIO (run_batch env ids) (\<lambda>(c, rows).
    if c \<noteq> kOk then throwIO Runtime_error else bindIO (run_batches env idss) (\<lambda>rest. returnIO (rows @ rest)))"

text \<open>An operation between two batches: only its own template, or also the clone that served the last batch.\<close>
definition between_batches :: "string \<Rightarrow> string \<Rightarrow> ('r, 'q) PgOp \<Rightarrow> bool" where
  "between_batches coll tid p \<longleftrightarrow> exec_status p = kOk \<and> requestAsyncRunResult p = None \<and> \<not> suppress_next_result_prefetching p
     \<and> (\<exists>tp0 req0. t_request tp0 = Read_request req0 \<and> rd_collection_name req0 = coll \<and> rd_table_id req0 = tid \<and>
        (templates p = [tp0] \<and> pgsql_ops p = [] \<and> batch_row_orders p = []
         \<or> (\<exists>tp1 req1. templates p = [tp0, tp1] \<and> pgsql_ops p = [1] \<and> batch_row_orders p = [[]] \<and> active_op_count p = 0
             \<and> parallelism_level p = 1 \<and> t_rows_data tp1 = [] \<and> t_request tp1 = Read_request req1
             \<and> rd_collection_name req1 = coll \<and> rd_table_id req1 = tid)))"

text \<open>The clone is set up for the ids; it is the only request and it is active.\<close>
lemma populate_ids:
  assumes "between_batches coll tid p" "expr_type_ok (env_string_type env)"
  obtains tp0 tp1 req0 req1 p' where "PgReadOp_PopulateDmlByRowIdOps env ids p = Some (kOk, p')"
    "templates p' = [tp0, tp1]" "t_request tp0 = Read_request req0" "rd_collection_name req0 = coll" "rd_table_id req0 = tid"
    "t_request tp1 = Read_request req1" "rd_k2pgctid_column_values req1 = map (id_bind (env_string_type env)) ids"
    "rd_collection_name req1 = coll" "rd_table_id req1 = tid" "t_rows_data tp1 = []" "t_active tp1"
    "pgsql_ops p' = [1]" "active_op_count p' = 1" "parallelism_level p' = 1" "batch_row_orders p' = [[]]" "request_population_completed p'"
    "\<not> end_of_data p'" "exec_status p' = kOk" "requestAsyncRunResult p' = None" "\<not> suppress_next_result_prefetching p'"
proof -
  let ?binds = "map (id_bind (env_string_type env)) ids"
  obtain tp0 req0 where b: "exec_status p = kOk" "requestAsyncRunResult p = None" "\<not> suppress_next_result_prefetching p"
    "t_request tp0 = Read_request req0" "rd_collection_name req0 = coll" "rd_table_id req0 = tid"
    "templates p = [tp0] \<and> pgsql_ops p = [] \<and> batch_row_orders p = []
     \<or> (\<exists>tp1 req1. templates p = [tp0, tp1] \<and> pgsql_ops p = [1] \<and> batch_row_orders p = [[]] \<and> active_op_count p = 0
         \<and> parallelism_level p = 1 \<and> t_rows_data tp1 = [] \<and> t_request tp1 = Read_request req1
         \<and> rd_collection_name req1 = coll \<and> rd_table_id req1 = tid)"
    using assms(1) unfolding between_batches_def by blast
  have "\<exists>p1 tp1 req1. InitializeRowIdOperators p = (kOk, p1) \<and> templates p1 = [tp0, tp1] \<and> t_request tp1 = Read_request req1
      \<and> rd_collection_name req1 = coll \<and> rd_table_id req1 = tid \<and> t_rows_data tp1 = [] \<and> pgsql_ops p1 = [1]
      \<and> batch_row_orders p1 = [[]] \<and> parallelism_level p1 = 1 \<and> exec_status p1 = kOk \<and> requestAsyncRunResult p1 = None
      \<and> \<not> suppress_next_result_prefetching p1"
    using b(7)
  proof (elim disjE exE conjE)
    assume "templates p = [tp0]" "pgsql_ops p = []" "batch_row_orders p = []"
    then show ?thesis using b by (simp add: InitializeRowIdOperators_def ClonePgsqlOps_def GetPartitionCount_def DeepCopy_def)
  next
    fix tp1 req1
    assume "templates p = [tp0, tp1]" "pgsql_ops p = [1]" "batch_row_orders p = [[]]" "active_op_count p = 0"
      "parallelism_level p = 1" "t_rows_data tp1 = []" "t_request tp1 = Read_request req1"
      "rd_collection_name req1 = coll" "rd_table_id req1 = tid"
    then show ?thesis using b by (simp add: InitializeRowIdOperators_def ResetInactivePgsqlOps_def set_template_def update_read_def)
  qed
  then obtain p1 tp1 req1 where i: "InitializeRowIdOperators p = (kOk, p1)" "templates p1 = [tp0, tp1]" "t_request tp1 = Read_request req1"
      "rd_collection_name req1 = coll" "rd_table_id req1 = tid" "t_rows_data tp1 = []" "pgsql_ops p1 = [1]"
      "batch_row_orders p1 = [[]]" "parallelism_level p1 = 1" "exec_status p1 = kOk" "requestAsyncRunResult p1 = None"
      "\<not> suppress_next_result_prefetching p1" by blast
  define req2 where "req2 = req1\<lparr>rd_k2pgctid_column_values := ?binds\<rparr>"
  define tp2 where "tp2 = tp1\<lparr>t_active := True, t_request := Read_request req2\<rparr>"
  define p' where "p' = p1\<lparr>end_of_data := False, templates := [tp0, tp2], active_op_count := 1, request_population_completed := True\<rparr>"
  have "PgReadOp_PopulateDmlByRowIdOps env ids p = Some (kOk, p')"
    using i by (simp add: PgReadOp_PopulateDmlByRowIdOps_def row_id_binds_eq [OF assms(2)] set_template_def update_read_def
        MoveInactive_single [where a = 1] p'_def tp2_def req2_def)
  then show ?thesis using b(4-6) i
    by (intro that [of p' tp0 tp2 req0 req2]) (simp_all add: p'_def tp2_def req2_def)
qed

lemma GetTxn_open: "txn h = Some t \<Longrightarrow> txn_in_progress h \<Longrightarrow> GetTxn ad (h, w) = (Returned kOk, h, w)"
  by (simp add: GetTxn_def)

lemma Exec_ids:
  assumes laws: "get_laws (env_storage env t) coll tid look" "set ids \<subseteq> dom look" "ids \<noteq> []"
    and tp: "templates (os_op s) = [tp0, tp1]" "t_request tp1 = Read_request req1"
      "rd_k2pgctid_column_values req1 = map (id_bind te) ids" "rd_collection_name req1 = coll" "rd_table_id req1 = tid" "t_rows_data tp1 = []"
  shows "Exec env t 1 s = Some (Inr (Inr kOk), s\<lparr>os_op := (os_op s)\<lparr>templates :=
    [tp0, tp1\<lparr>t_response := Some allocateResponse, t_rows_data := map (\<lambda>i. the (look i)) ids\<rparr>]\<rparr>\<rparr>)"
proof -
  let ?st = "env_storage env t"
  have "issue_reads ?st req1 (map (id_bind te) ids) w = Some (Inr (map (\<lambda>i. Inr (200, the (look i))) ids), w)" for w
    using issue_reads_ids [of ?st req1 look ids] laws tp(4,5) by simp
  moreover have "k2_is2xxOK ?st 200" using laws(1) by (simp add: get_laws_def)
  ultimately have "handleReadOp ?st (env_bool_type env) (env_initial env) req1 allocateResponse [] (os_world s)
      = Some (Inr kOk, allocateResponse, map (\<lambda>i. the (look i)) ids, os_world s)"
    using laws(3) tp(3) by (simp add: handleReadOp_def read_body_def handleReadByRowIds_def bindIO_def returnIO_def
        collect_reads_ok allocateResponse_def K2StatusToK2PgStatus_def K2StatusToPGStatus_def)
  then show ?thesis using tp by (simp add: Exec_def set_template_def)
qed

lemma run_batch_ids:
  assumes laws: "get_laws (env_storage env t) coll tid look" "set ids \<subseteq> dom look" "ids \<noteq> []"
    and op: "between_batches coll tid (os_op s)" "expr_type_ok (env_string_type env)" "\<not> env_init_db_mode env"
    and h: "txn (os_handler s) = Some t" "txn_in_progress (os_handler s)"
  obtains s' where "run_batch env ids s = Some (Inr (kOk, map (\<lambda>i. the (look i)) ids), s')"
    "between_batches coll tid (os_op s')" "os_handler s' = os_handler s" "os_world s' = os_world s"
proof -
  obtain tp0 tp1 req0 req1 p' where p: "PgReadOp_PopulateDmlByRowIdOps env ids (os_op s) = Some (kOk, p')"
    and tps: "templates p' = [tp0, tp1]" "t_request tp0 = Read_request req0" "rd_collection_name req0 = coll" "rd_table_id req0 = tid"
    and tp1: "t_request tp1 = Read_request req1" "rd_k2pgctid_column_values req1 = map (id_bind (env_string_type env)) ids"
      "rd_collection_name req1 = coll" "rd_table_id req1 = tid" "t_rows_data tp1 = []" "t_active tp1"
    and p': "pgsql_ops p' = [1]" "active_op_count p' = 1" "parallelism_level p' = 1" "batch_row_orders p' = [[]]" "request_population_completed p'"
      "\<not> end_of_data p'" "exec_status p' = kOk" "requestAsyncRunResult p' = None" "\<not> suppress_next_result_prefetching p'"
    using populate_ids [OF op(1,2), of ids] by metis
  define rows where "rows = map (\<lambda>i. the (look i)) ids"
  define tp2 where "tp2 = tp1\<lparr>t_response := Some allocateResponse, t_rows_data := rows\<rparr>"
  have ne: "rows \<noteq> []" using laws(3) by (simp add: rows_def)
  have exec: "Exec env t (Suc 0) (s\<lparr>os_op := p'\<rparr>) = Some (Inr (Inr kOk), s\<lparr>os_op := p'\<lparr>templates := [tp0, tp2]\<rparr>\<rparr>)"
    using Exec_ids [OF laws, where s = "s\<lparr>os_op := p'\<rparr>" and te = "env_string_type env"] tps tp1 by (simp add: tp2_def rows_def)
  define p2 where "p2 = p'\<lparr>templates := [tp0, tp2], requestAsyncRunResult := Some (Inr kOk), exec_status := kOk\<rparr>"
  have self: "s\<lparr>os_op := p', os_handler := os_handler s, os_world := os_world s\<rparr> = s\<lparr>os_op := p'\<rparr>"
    by simp
  have st: "session_txn env (s\<lparr>os_op := p'\<rparr>) = Some (Inr t, s\<lparr>os_op := p'\<rparr>)"
    using h self by (simp add: session_txn_def GetTxn_open)
  have run: "SendRequestImpl env (s\<lparr>os_op := p'\<rparr>) = Some (Inr kOk, s\<lparr>os_op := p'\<lparr>templates := [tp0, tp2], requestAsyncRunResult := Some (Inr kOk)\<rparr>\<rparr>)"
    using exec p' st op(3)
    by (simp add: SendRequestImpl_def CreateRequests_def RunAsync_def op_steps ShouldHandleTransactionally_def IsTransactional_def)
  have exe: "Execute env (s\<lparr>os_op := p'\<rparr>) = Some (Inr (Inr True), s\<lparr>os_op := p2\<rparr>)"
    using run p' by (simp add: Execute_def SendRequest_def op_steps p2_def)
  define tp3 where "tp3 = tp2\<lparr>t_rows_data := [], t_request := Read_request (req1\<lparr>rd_paging_state := None\<rparr>), t_active := False\<rparr>"
  define p3 where "p3 = p'\<lparr>requestAsyncRunResult := None, exec_status := kOk, templates := [tp0, tp3], rows_affected_count := 0,
      batch_row_orders := [[]], active_op_count := 0, end_of_data := True\<rparr>"
  have get: "GetResult env (s\<lparr>os_op := p2\<rparr>) = Some (Inr (kOk, [PgOpResult_make env rows []]), s\<lparr>os_op := p3\<rparr>)"
    using p' tps tp1 ne
    by (simp add: GetResult_def get_future_def ProcessResponse_def op_steps ProcessResponseImpl_def is_read_op_def
        PgReadOp_ProcessResponseImpl_def ProcessResponseResult_def HandleResponse_def succeeded_def set_template_def
        ProcessResponsePagingState_def update_read_def p2_def p3_def tp2_def tp3_def allocateResponse_def)
  have "run_batch env ids s = Some (Inr (kOk, rows), s\<lparr>os_op := p3\<rparr>)"
    using p exe get by (simp add: run_batch_def op_steps PgOpResult_make_def)
  moreover have "between_batches coll tid p3" using p' tps tp1 by (simp add: between_batches_def p3_def tp3_def)
  ultimately show ?thesis by (intro that [of "s\<lparr>os_op := p3\<rparr>"]) (simp_all add: rows_def)
qed

lemma run_batches_ids:
  assumes laws: "get_laws (env_storage env t) coll tid look" and env: "expr_type_ok (env_string_type env)" "\<not> env_init_db_mode env"
  shows "\<lbrakk>between_batches coll tid (os_op s); txn (os_handler s) = Some t; txn_in_progress (os_handler s);
      set (concat idss) \<subseteq> dom look; [] \<notin> set idss\<rbrakk> \<Longrightarrow>
    \<exists>s'. run_batches env idss s = Some (Inr (map (\<lambda>i. the (look i)) (concat idss)), s')"
proof (induction idss arbitrary: s)
  case (Cons ids idss)
  then have "set ids \<subseteq> dom look" "ids \<noteq> []" by auto
  then obtain s1 where s1: "run_batch env ids s = Some (Inr (kOk, map (\<lambda>i. the (look i)) ids), s1)"
      "between_batches coll tid (os_op s1)" "os_handler s1 = os_handler s"
    using run_batch_ids [OF laws _ _ Cons.prems(1) env Cons.prems(2,3), of ids] by metis
  then show ?case using Cons.IH [of s1] Cons.prems by (auto simp: op_steps)
qed (simp add: returnIO_def)

text \<open>(C8)
  Reading rows by their ids, in any number of batches over one operation: each batch
  reuses the operation's request, and together the batches return exactly the rows
  that the ids identify, in the order of the ids.
\<close>
theorem row_id_batches:
  assumes "get_laws (env_storage env t) coll tid look" and "expr_type_ok (env_string_type env)" "\<not> env_init_db_mode env"
    and "t_request tp = Read_request req" "rd_collection_name req = coll" "rd_table_id req = tid"
    and "txn h = Some t" "txn_in_progress h" and "set (concat idss) \<subseteq> dom look" "[] \<notin> set idss"
  shows "\<exists>s'. run_batches env idss \<lparr>os_op = PgOp_make tp, os_handler = h, os_fk = fk, os_world = w\<rparr>
    = Some (Inr (map (\<lambda>i. the (look i)) (concat idss)), s')"
proof (rule run_batches_ids [OF assms(1-3)])
  show "between_batches coll tid (os_op \<lparr>os_op = PgOp_make tp, os_handler = h, os_fk = fk, os_world = w\<rparr>)"
    using assms(4-6) by (simp add: between_batches_def PgOp_make_def)
qed (use assms(7-10) in simp_all)

lemma page_storage_get_laws:
  "get_laws (page_storage rows) [] [] (\<lambda>i. Some ((example_record 0)\<lparr>lr_vals := (\<lambda>_. None)(2 := Some (L_string i))\<rparr>))"
  by (auto simp: get_laws_def page_storage_def list_skv_def example_record_def)

theorem row_id_batches_witness:
  "\<exists>s'. run_batches (page_env []) [[''a'', ''b''], [''c'']] \<lparr>os_op = PgOp_make page_template,
      os_handler = initial_handler\<lparr>txn := Some 0, txn_in_progress := True\<rparr>, os_fk = {}, os_world = 0\<rparr>
    = Some (Inr (map (\<lambda>i. (example_record 0)\<lparr>lr_vals := (\<lambda>_. None)(2 := Some (L_string i))\<rparr>) [''a'', ''b'', ''c'']), s')"
proof -
  have "get_laws (env_storage (page_env []) 0) [] [] (\<lambda>i. Some ((example_record 0)\<lparr>lr_vals := (\<lambda>_. None)(2 := Some (L_string i))\<rparr>))"
    using page_storage_get_laws by (simp add: page_env_def)
  from row_id_batches [OF this, where tp = page_template and req = page_request and idss = "[[''a'', ''b''], [''c'']]"
      and h = "initial_handler\<lparr>txn := Some 0, txn_in_progress := True\<rparr>" and fk = "{}" and w = 0]
  show ?thesis by (simp add: page_template_def page_env_def page_request_def expr_type_ok_def dom_def)
qed

lemma ProcessResponse_error: "ProcessResponse env st s = Some (Inr (Inl c), s1) \<Longrightarrow> exec_status (os_op s1) = c"
  by (auto simp: ProcessResponse_def op_steps split: if_splits option.splits sum.splits prod.splits)

lemma GetResult_error:
  assumes "GetResult env s = Some (Inr (c, rs), s1)" "c \<noteq> kOk"
  shows "exec_status (os_op s1) = c"
  using assms
  by (auto simp: GetResult_def op_steps split: if_splits option.splits sum.splits prod.splits dest!: ProcessResponse_error)

text \<open>(C27)
  Failures that are statuses stay: once fetching has returned a failure status, further
  fetching and asking for the affected rows report that status, and nothing is sent or
  changed any more.  A failure that is an exception does not stay: when the future of the
  pending request of a running operation is exceptional, fetching passes the exception on
  and leaves the status of the operation at success without a pending request; the next
  fetch of an operation that prefetches then fails the check that a request is pending.
\<close>
theorem failed_op_keeps_error:
  "(\<forall>c rs s1. GetResult env s = Some (Inr (c, rs), s1) \<and> c \<noteq> kOk \<longrightarrow>
      GetResult env s1 = Some (Inr (c, []), s1) \<and> GetRowsAffectedCount (os_op s1) = Some (Inl c))
   \<and> (\<forall>e. exec_status (os_op s) = kOk \<and> \<not> end_of_data (os_op s) \<and> requestAsyncRunResult (os_op s) = Some (Inl e) \<longrightarrow>
      (\<exists>s1. GetResult env s = Some (Inl e, s1) \<and> exec_status (os_op s1) = kOk \<and> requestAsyncRunResult (os_op s1) = None
        \<and> (suppress_next_result_prefetching (os_op s) \<or> GetResult env s1 = None)))"
proof (intro conjI allI impI)
  fix c rs s1 assume a: "GetResult env s = Some (Inr (c, rs), s1) \<and> c \<noteq> kOk"
  then show "GetResult env s1 = Some (Inr (c, []), s1)" "GetRowsAffectedCount (os_op s1) = Some (Inl c)"
    using GetResult_error [of env s c rs s1] by (simp_all add: GetResult_def op_steps GetRowsAffectedCount_def)
next
  fix e assume a: "exec_status (os_op s) = kOk \<and> \<not> end_of_data (os_op s) \<and> requestAsyncRunResult (os_op s) = Some (Inl e)"
  let ?s1 = "s\<lparr>os_op := (os_op s)\<lparr>requestAsyncRunResult := None\<rparr>\<rparr>"
  have "GetResult env s = Some (Inl e, ?s1)" using a by (simp add: GetResult_def op_steps get_future_def)
  moreover have "suppress_next_result_prefetching (os_op s) \<or> GetResult env ?s1 = None"
    using a by (simp add: GetResult_def op_steps get_future_def)
  ultimately show "\<exists>s1. GetResult env s = Some (Inl e, s1) \<and> exec_status (os_op s1) = kOk \<and> requestAsyncRunResult (os_op s1) = None
        \<and> (suppress_next_result_prefetching (os_op s) \<or> GetResult env s1 = None)"
    using a by (intro exI [of _ ?s1]) simp
qed

abbreviation pending_op :: "(std_exception + code) option \<Rightarrow> code \<Rightarrow> (list_rec, list_rec list, nat, nat) op_state" where
  "pending_op reply c \<equiv> \<lparr>os_op = (PgOp_make page_template)\<lparr>requestAsyncRunResult := reply, exec_status := c\<rparr>,
      os_handler = initial_handler, os_fk = {}, os_world = 0\<rparr>"

theorem failed_op_keeps_error_witness:
  "GetResult (page_env []) (pending_op (Some (Inr kTimedOut)) kOk) = Some (Inr (kTimedOut, []), pending_op None kTimedOut)
   \<and> GetResult (page_env []) (pending_op None kTimedOut) = Some (Inr (kTimedOut, []), pending_op None kTimedOut)
   \<and> (\<exists>s1. GetResult (page_env []) (pending_op (Some (Inl Runtime_error)) kOk) = Some (Inl Runtime_error, s1)
        \<and> GetResult (page_env []) s1 = None)"
proof -
  have a: "GetResult (page_env []) (pending_op (Some (Inr kTimedOut)) kOk) = Some (Inr (kTimedOut, []), pending_op None kTimedOut)"
    by (simp add: GetResult_def op_steps get_future_def ProcessResponse_def PgOp_make_def)
  with failed_op_keeps_error [of "page_env []" "pending_op (Some (Inr kTimedOut)) kOk"]
  have "GetResult (page_env []) (pending_op None kTimedOut) = Some (Inr (kTimedOut, []), pending_op None kTimedOut)" by simp
  moreover have "\<exists>s1. GetResult (page_env []) (pending_op (Some (Inl Runtime_error)) kOk) = Some (Inl Runtime_error, s1)
        \<and> GetResult (page_env []) s1 = None"
    using failed_op_keeps_error [of "page_env []" "pending_op (Some (Inl Runtime_error)) kOk"]
    by (auto simp: PgOp_make_def)
  ultimately show ?thesis using a by blast
qed

end
