(* ===== verification/Catalog_Records.thy ===== *)
theory Catalog_Records
  imports Index_Table Adapter_Record
begin

text \<open>
  Catalog entries as records of the storage (pggate/catalog/table_info_handler.h,
  table_info_handler.cc, sql_catalog_defaults.cc): the records of the three meta tables
  that describe a table and its indexes, the schemas under which the rows of the table
  are stored, and the functions that read the records back.

  A storage record is the sequence of its serialised fields.  The functions that read a
  record call \<open>deserializeNext\<close> field after field, so the call for a field is a read at its
  position; it throws when the field is missing or has another type, and reading the value
  of a null field throws.
\<close>

subsection \<open>Constants\<close>

definition primary_cluster_id :: string where "primary_cluster_id = ''PG_DEFAULT_CLUSTER''"
definition skv_collection_name_primary_cluster :: string where
  "skv_collection_name_primary_cluster = ''K2RESVD_COLLECTION_SQL_PRIMARY_CLUSTER''"
definition skv_schema_name_cluster_meta :: string where
  "skv_schema_name_cluster_meta = ''K2RESVD_SCHEMA_SQL_CLUSTER_META''"
definition skv_schema_name_database_meta :: string where
  "skv_schema_name_database_meta = ''K2RESVD_SCHEMA_SQL_DATABASE_META''"
definition skv_schema_name_table_meta :: string where
  "skv_schema_name_table_meta = ''K2RESVD_SCHEMA_SQL_TABLE_META''"
definition skv_schema_name_tablecolumn_meta :: string where
  "skv_schema_name_tablecolumn_meta = ''K2RESVD_SCHEMA_SQL_TABLECOLUMN_META''"
definition skv_schema_name_indexcolumn_meta :: string where
  "skv_schema_name_indexcolumn_meta = ''K2RESVD_SCHEMA_SQL_INDEXCOLUMN_META''"
definition oid_table_meta :: oid where "oid_table_meta = 4800"
definition oid_tablecolumn_meta :: oid where "oid_tablecolumn_meta = 4801"
definition oid_indexcolumn_meta :: oid where "oid_indexcolumn_meta = 4802"
definition TABLE_ID_COLUMN_NAME :: string where "TABLE_ID_COLUMN_NAME = ''TableId''"
definition INDEX_ID_COLUMN_NAME :: string where "INDEX_ID_COLUMN_NAME = ''IndexId''"
definition BASE_TABLE_ID_COLUMN_NAME :: string where "BASE_TABLE_ID_COLUMN_NAME = ''BaseTableId''"
definition shared_table_skv_colllection_id :: string where
  "shared_table_skv_colllection_id = ''00000001000030008000000000000000''"

definition physical_collection :: "string \<Rightarrow> bool \<Rightarrow> string" where
  "physical_collection database_id is_shared = (if is_shared then shared_table_skv_colllection_id else database_id)"

text \<open>The collection is compared with the shared one, not with the database.\<close>
definition is_on_physical_collection :: "string \<Rightarrow> bool \<Rightarrow> bool" where
  "is_on_physical_collection database_id is_shared =
    (if is_shared then physical_collection database_id is_shared = shared_table_skv_colllection_id else True)"

subsection \<open>Records\<close>

datatype field = F_int16 "16 word" | F_int32 "32 word" | F_int64 "64 word" | F_bool bool | F_string string

record cat_record =
  cr_collection :: string
  cr_schema :: string
  cr_fields :: "field option list"

fun as_int16 :: "field \<Rightarrow> 16 word option" where
  "as_int16 (F_int16 w) = Some w"
| "as_int16 _ = None"

fun as_int32 :: "field \<Rightarrow> 32 word option" where
  "as_int32 (F_int32 w) = Some w"
| "as_int32 _ = None"

fun as_int64 :: "field \<Rightarrow> 64 word option" where
  "as_int64 (F_int64 w) = Some w"
| "as_int64 _ = None"

fun as_bool :: "field \<Rightarrow> bool option" where
  "as_bool (F_bool b) = Some b"
| "as_bool _ = None"

fun as_string :: "field \<Rightarrow> string option" where
  "as_string (F_string s) = Some s"
| "as_string _ = None"

text \<open>The call of \<open>deserializeNext\<close> that reads the field at a position, and with \<open>value\<close>.\<close>
definition deserialize :: "(field \<Rightarrow> 'a option) \<Rightarrow> nat \<Rightarrow> cat_record \<Rightarrow> 'a option run" where
  "deserialize sel k r =
    (if length (cr_fields r) \<le> k then throwE Platform_exception
     else case cr_fields r ! k of
       None \<Rightarrow> returnE None
     | Some f \<Rightarrow> (case sel f of None \<Rightarrow> throwE Platform_exception | Some v \<Rightarrow> returnE (Some v)))"

definition deserialize_value :: "(field \<Rightarrow> 'a option) \<Rightarrow> nat \<Rightarrow> cat_record \<Rightarrow> 'a run" where
  "deserialize_value sel k r = bindE (deserialize sel k r) (\<lambda>v. case v of
     None \<Rightarrow> throwE Logic_error | Some x \<Rightarrow> returnE x)"

subsection \<open>Schemas\<close>

datatype FieldType = INT16T | INT32T | INT64T | FLOATT | DOUBLET | BOOLT | STRINGT

record SchemaField =
  sf_type :: FieldType
  sf_name :: string
  sf_descending :: bool
  sf_nullLast :: bool

record k2_schema =
  ks_name :: string
  ks_version :: "32 word"
  ks_fields :: "SchemaField list"
  ks_partition_keys :: "nat list"
  ks_range_keys :: "nat list"

definition plain_field :: "FieldType \<Rightarrow> string \<Rightarrow> SchemaField" where
  "plain_field t n = \<lparr>sf_type = t, sf_name = n, sf_descending = False, sf_nullLast = False\<rparr>"

definition skv_schema_table_meta :: k2_schema where
  "skv_schema_table_meta = \<lparr>ks_name = skv_schema_name_table_meta, ks_version = 1,
     ks_fields = [plain_field INT64T ''SchemaTableId'', plain_field INT64T ''SchemaIndexId'', plain_field STRINGT ''TableId'',
       plain_field STRINGT ''TableName'', plain_field INT64T ''TableOid'', plain_field STRINGT ''TableUuid'',
       plain_field BOOLT ''IsSysTable'', plain_field BOOLT ''IsShared'', plain_field BOOLT ''IsIndex'',
       plain_field BOOLT ''IsUnique'', plain_field STRINGT ''BaseTableId'', plain_field INT16T ''IndexPermission'',
       plain_field INT32T ''NextColumnId'', plain_field INT32T ''SchemaVersion''],
     ks_partition_keys = [0, 1, 2], ks_range_keys = []\<rparr>"

definition skv_schema_tablecolumn_meta :: k2_schema where
  "skv_schema_tablecolumn_meta = \<lparr>ks_name = skv_schema_name_tablecolumn_meta, ks_version = 1,
     ks_fields = [plain_field INT64T ''SchemaTableId'', plain_field INT64T ''SchemaIndexId'', plain_field STRINGT ''TableId'',
       plain_field INT32T ''ColumnId'', plain_field STRINGT ''ColumnName'', plain_field INT16T ''ColumnType'',
       plain_field BOOLT ''IsNullable'', plain_field BOOLT ''IsPrimary'', plain_field BOOLT ''IsHash'',
       plain_field INT32T ''Order'', plain_field INT16T ''SortingType''],
     ks_partition_keys = [0, 1, 2], ks_range_keys = [3]\<rparr>"

definition skv_schema_indexcolumn_meta :: k2_schema where
  "skv_schema_indexcolumn_meta = \<lparr>ks_name = skv_schema_name_indexcolumn_meta, ks_version = 1,
     ks_fields = [plain_field INT64T ''SchemaTableId'', plain_field INT64T ''SchemaIndexId'', plain_field STRINGT ''TableId'',
       plain_field INT32T ''ColumnId'', plain_field STRINGT ''ColumnName'', plain_field INT16T ''ColumnType'',
       plain_field BOOLT ''IsNullable'', plain_field BOOLT ''IsHash'', plain_field BOOLT ''IsRange'',
       plain_field INT32T ''Order'', plain_field INT16T ''SortingType'', plain_field INT32T ''BaseColumnId''],
     ks_partition_keys = [0, 1, 2], ks_range_keys = [3]\<rparr>"

fun ToK2Type :: "DataType \<Rightarrow> FieldType run" where
  "ToK2Type DT_UINT8 = returnE INT64T"
| "ToK2Type DT_INT8 = returnE INT64T"
| "ToK2Type DT_UINT16 = returnE INT64T"
| "ToK2Type DT_INT16 = returnE INT64T"
| "ToK2Type DT_UINT32 = returnE INT64T"
| "ToK2Type DT_INT32 = returnE INT64T"
| "ToK2Type DT_UINT64 = returnE INT64T"
| "ToK2Type DT_INT64 = returnE INT64T"
| "ToK2Type DT_STRING = returnE STRINGT"
| "ToK2Type DT_BOOL = returnE BOOLT"
| "ToK2Type DT_FLOAT = returnE FLOATT"
| "ToK2Type DT_DOUBLE = returnE DOUBLET"
| "ToK2Type DT_BINARY = returnE STRINGT"
| "ToK2Type DT_TIMESTAMP = returnE INT64T"
| "ToK2Type DT_DECIMAL = returnE STRINGT"
| "ToK2Type _ = throwE Invalid_argument"

definition AddDefaultPartitionKeys :: "k2_schema \<Rightarrow> k2_schema" where
  "AddDefaultPartitionKeys s = s\<lparr>ks_fields := ks_fields s @ [plain_field INT64T TABLE_ID_COLUMN_NAME, plain_field INT64T INDEX_ID_COLUMN_NAME],
     ks_partition_keys := ks_partition_keys s @ [0, 1]\<rparr>"

text \<open>Order and place of nulls; a column without a sorting type keeps the defaults.\<close>
fun sorted_field :: "SortingType \<Rightarrow> SchemaField \<Rightarrow> SchemaField" where
  "sorted_field kAscending f = f\<lparr>sf_descending := False, sf_nullLast := False\<rparr>"
| "sorted_field kDescending f = f\<lparr>sf_descending := True, sf_nullLast := False\<rparr>"
| "sorted_field kAscendingNullsLast f = f\<lparr>sf_descending := False, sf_nullLast := True\<rparr>"
| "sorted_field kDescendingNullsLast f = f\<lparr>sf_descending := True, sf_nullLast := True\<rparr>"
| "sorted_field kNotSpecified f = f"

fun table_fields :: "nat \<Rightarrow> ColumnSchema list \<Rightarrow> k2_schema \<Rightarrow> k2_schema run" where
  "table_fields n [] s = returnE s"
| "table_fields n (c # cs) s = bindE (ToK2Type (type_id (col_type c))) (\<lambda>t.
     table_fields (n + 1) cs (s\<lparr>ks_fields := ks_fields s @ [sorted_field (col_sorting_type c) (plain_field t (col_name c))],
       ks_partition_keys := (if col_is_primary c then ks_partition_keys s @ [n] else ks_partition_keys s)\<rparr>))"

definition DeriveSKVSchemaFromTableInfo :: "TableInfo \<Rightarrow> k2_schema run" where
  "DeriveSKVSchemaFromTableInfo t = table_fields 2 (schema_cols (ti_schema t))
     (AddDefaultPartitionKeys \<lparr>ks_name = ti_table_id t, ks_version = schema_version (ti_schema t), ks_fields = [],
        ks_partition_keys = [], ks_range_keys = []\<rparr>)"

text \<open>A descending column ends the loop with a null pointer.\<close>
fun index_fields :: "nat \<Rightarrow> IndexColumn list \<Rightarrow> k2_schema \<Rightarrow> k2_schema option run" where
  "index_fields n [] s = returnE (Some s)"
| "index_fields n (c # cs) s = bindE (ToK2Type (ic_type c)) (\<lambda>t.
     if ic_sorting_type c = kDescending \<or> ic_sorting_type c = kDescendingNullsLast then returnE None
     else index_fields (n + 1) cs (s\<lparr>ks_fields := ks_fields s @ [sorted_field (ic_sorting_type c) (plain_field t (ic_column_name c))],
       ks_partition_keys := (if ic_is_hash c \<or> ic_is_range c then ks_partition_keys s @ [n] else ks_partition_keys s)\<rparr>))"

definition DeriveIndexSchema :: "IndexInfo \<Rightarrow> k2_schema option run" where
  "DeriveIndexSchema ix = index_fields 2 (ix_columns ix)
     (AddDefaultPartitionKeys \<lparr>ks_name = ix_table_id ix, ks_version = ix_version ix, ks_fields = [],
        ks_partition_keys = [], ks_range_keys = []\<rparr>)"

fun DeriveIndexSchemas :: "(string \<times> IndexInfo) list \<Rightarrow> k2_schema option list run" where
  "DeriveIndexSchemas [] = returnE []"
| "DeriveIndexSchemas ((i, ix) # entries) =
    bindE (DeriveIndexSchema ix) (\<lambda>s. bindE (DeriveIndexSchemas entries) (\<lambda>ss. returnE (s # ss)))"

subsection \<open>Records of tables and indexes\<close>

fun SortingType_value :: "SortingType \<Rightarrow> int" where
  "SortingType_value kNotSpecified = 0"
| "SortingType_value kAscending = 1"
| "SortingType_value kDescending = 2"
| "SortingType_value kAscendingNullsLast = 3"
| "SortingType_value kDescendingNullsLast = 4"

definition DeriveTableMetaRecord :: "string \<Rightarrow> TableInfo \<Rightarrow> cat_record" where
  "DeriveTableMetaRecord coll t = \<lparr>cr_collection = coll, cr_schema = skv_schema_name_table_meta, cr_fields =
     [Some (F_int64 (ucast oid_table_meta)), Some (F_int64 0), Some (F_string (ti_table_id t)), Some (F_string (ti_table_name t)),
      Some (F_int64 (ucast (ti_table_oid t))), Some (F_string (ti_table_uuid t)), Some (F_bool (ti_is_sys_table t)),
      Some (F_bool (ti_is_shared_table t)), Some (F_bool False), Some (F_bool False), None, None,
      Some (F_int32 (word_of_int (ti_next_column_id t))), Some (F_int32 (schema_version (ti_schema t)))]\<rparr>"

definition DeriveTableMetaRecordOfIndex :: "string \<Rightarrow> IndexInfo \<Rightarrow> bool \<Rightarrow> int \<Rightarrow> cat_record" where
  "DeriveTableMetaRecordOfIndex coll ix is_sys_table next_column_id =
    \<lparr>cr_collection = coll, cr_schema = skv_schema_name_table_meta, cr_fields =
     [Some (F_int64 (ucast oid_table_meta)), Some (F_int64 0), Some (F_string (ix_table_id ix)), Some (F_string (ix_table_name ix)),
      Some (F_int64 (ucast (ix_table_oid ix))), Some (F_string (ix_table_uuid ix)), Some (F_bool is_sys_table),
      Some (F_bool (ix_is_shared ix)), Some (F_bool True), Some (F_bool (ix_is_unique ix)), Some (F_string (ix_base_table_id ix)),
      Some (F_int16 (word_of_int (permission_value (ix_permissions ix)))),
      Some (F_int32 (word_of_int next_column_id)), Some (F_int32 (ix_version ix))]\<rparr>"

definition table_column_record :: "string \<Rightarrow> string \<Rightarrow> int \<Rightarrow> ColumnSchema \<Rightarrow> cat_record" where
  "table_column_record coll table_id cid c =
    \<lparr>cr_collection = coll, cr_schema = skv_schema_name_tablecolumn_meta, cr_fields =
     [Some (F_int64 (ucast oid_tablecolumn_meta)), Some (F_int64 0), Some (F_string table_id), Some (F_int32 (word_of_int cid)),
      Some (F_string (col_name c)), Some (F_int16 (word_of_int (DataType_value (type_id (col_type c))))),
      Some (F_bool (col_is_nullable c)), Some (F_bool (col_is_primary c)), Some (F_bool (col_is_hash c)),
      Some (F_int32 (word_of_int (col_order c))), Some (F_int16 (word_of_int (SortingType_value (col_sorting_type c))))]\<rparr>"

text \<open>The ids are read at the position of the column; a missing one has no meaning.\<close>
definition DeriveTableColumnMetaRecords :: "string \<Rightarrow> TableInfo \<Rightarrow> cat_record list checked" where
  "DeriveTableColumnMetaRecords coll t = (let s = ti_schema t in
     if length (col_ids s) < length (schema_cols s) then None
     else Some (map (\<lambda>(i, c). table_column_record coll (ti_table_id t) i c) (zip (col_ids s) (schema_cols s))))"

definition index_column_record :: "string \<Rightarrow> string \<Rightarrow> IndexColumn \<Rightarrow> cat_record" where
  "index_column_record coll index_id c =
    \<lparr>cr_collection = coll, cr_schema = skv_schema_name_indexcolumn_meta, cr_fields =
     [Some (F_int64 (ucast oid_indexcolumn_meta)), Some (F_int64 0), Some (F_string index_id), Some (F_int32 (word_of_int (ic_column_id c))),
      Some (F_string (ic_column_name c)), Some (F_int16 (word_of_int (DataType_value (ic_type c)))),
      Some (F_bool (ic_is_nullable c)), Some (F_bool (ic_is_hash c)), Some (F_bool (ic_is_range c)),
      Some (F_int32 (word_of_int (ic_order c))), Some (F_int16 (word_of_int (SortingType_value (ic_sorting_type c)))),
      Some (F_int32 (word_of_int (ic_base_column_id c)))]\<rparr>"

definition DeriveIndexColumnMetaRecords :: "string \<Rightarrow> IndexInfo \<Rightarrow> cat_record list" where
  "DeriveIndexColumnMetaRecords coll ix = map (index_column_record coll (ix_table_id ix)) (ix_columns ix)"

definition buildRangeRecord :: "string \<Rightarrow> string \<Rightarrow> oid \<Rightarrow> oid \<Rightarrow> string option \<Rightarrow> cat_record" where
  "buildRangeRecord coll schema table_oid index_oid table_id = \<lparr>cr_collection = coll, cr_schema = schema, cr_fields =
     [Some (F_int64 (ucast table_oid)), Some (F_int64 (ucast index_oid))]
     @ (case table_id of None \<Rightarrow> [] | Some i \<Rightarrow> [Some (F_string i)])\<rparr>"

subsection \<open>Reading them back\<close>

text \<open>Casts of stored numbers to the enumerations; a number without an enumerator has no meaning.\<close>
definition SortingType_of_value :: "int \<Rightarrow> SortingType checked" where
  "SortingType_of_value v = find (\<lambda>t. SortingType_value t = v)
     [kNotSpecified, kAscending, kDescending, kAscendingNullsLast, kDescendingNullsLast]"

definition permission_of_value :: "int \<Rightarrow> IndexPermissions checked" where
  "permission_of_value v = find (\<lambda>p. permission_value p = v)
     [INDEX_PERM_DELETE_ONLY, INDEX_PERM_WRITE_AND_DELETE, INDEX_PERM_DO_BACKFILL, INDEX_PERM_READ_WRITE_AND_DELETE,
      INDEX_PERM_WRITE_AND_DELETE_WHILE_REMOVING, INDEX_PERM_DELETE_ONLY_WHILE_REMOVING, INDEX_PERM_INDEX_UNUSED, INDEX_PERM_NOT_USED]"

text \<open>A computation that has no meaning or a value.\<close>
definition liftC :: "'a checked \<Rightarrow> 'a run" where
  "liftC x = (case x of None \<Rightarrow> None | Some v \<Rightarrow> returnE v)"

definition read_table_column :: "cat_record \<Rightarrow> (int \<times> ColumnSchema) run" where
  "read_table_column r =
    bindE (deserialize as_int64 0 r) (\<lambda>_. bindE (deserialize as_int64 1 r) (\<lambda>_.
    bindE (deserialize_value as_string 2 r) (\<lambda>_. bindE (deserialize_value as_int32 3 r) (\<lambda>col_id.
    bindE (deserialize_value as_string 4 r) (\<lambda>name. bindE (deserialize_value as_int16 5 r) (\<lambda>ty.
    bindE (deserialize_value as_bool 6 r) (\<lambda>nullable. bindE (deserialize_value as_bool 7 r) (\<lambda>primary.
    bindE (deserialize_value as_bool 8 r) (\<lambda>hash. bindE (deserialize_value as_int32 9 r) (\<lambda>order.
    bindE (deserialize_value as_int16 10 r) (\<lambda>sorting.
    bindE (liftC (Option.bind (DataType_of_value (sint ty)) Create)) (\<lambda>sql_type. bindE (liftC (SortingType_of_value (sint sorting))) (\<lambda>st.
      returnE (sint col_id, \<lparr>col_name = name, col_type = sql_type, col_is_nullable = nullable, col_is_primary = primary,
        col_is_hash = hash, col_order = sint order, col_sorting_type = st\<rparr>))))))))))))))"

fun read_table_columns :: "cat_record list \<Rightarrow> (int \<times> ColumnSchema) list run" where
  "read_table_columns [] = returnE []"
| "read_table_columns (r # rs) = bindE (read_table_column r) (\<lambda>c. bindE (read_table_columns rs) (\<lambda>cs. returnE (c # cs)))"

text \<open>The schema is copied when the table is made from it.\<close>
definition BuildTableInfo :: "string \<Rightarrow> string \<Rightarrow> cat_record \<Rightarrow> cat_record list \<Rightarrow> TableInfo run" where
  "BuildTableInfo db_id db_name m columns =
    bindE (deserialize as_int64 0 m) (\<lambda>_. bindE (deserialize as_int64 1 m) (\<lambda>_.
    bindE (deserialize_value as_string 2 m) (\<lambda>table_id. bindE (deserialize_value as_string 3 m) (\<lambda>table_name.
    bindE (deserialize_value as_int64 4 m) (\<lambda>table_oid. bindE (deserialize_value as_string 5 m) (\<lambda>table_uuid.
    bindE (deserialize_value as_bool 6 m) (\<lambda>is_sys_table. bindE (deserialize_value as_bool 7 m) (\<lambda>is_shared.
    bindE (deserialize_value as_bool 8 m) (\<lambda>is_index. if is_index then throwE Runtime_error else
    bindE (deserialize as_bool 9 m) (\<lambda>_. bindE (deserialize as_string 10 m) (\<lambda>_. bindE (deserialize as_int16 11 m) (\<lambda>_.
    bindE (deserialize_value as_int32 12 m) (\<lambda>next_column_id. bindE (deserialize_value as_int32 13 m) (\<lambda>version.
    bindE (read_table_columns columns) (\<lambda>cols.
    bindE (liftC (Schema_make (map snd cols) (map fst cols) (int (length (filter (\<lambda>c. col_is_primary (snd c)) cols))))) (\<lambda>s.
      returnE ((TableInfo_make db_id db_name (ucast table_oid) table_name table_uuid (s\<lparr>schema_version := version\<rparr>))
        \<lparr>ti_next_column_id := sint next_column_id, ti_is_sys_table := is_sys_table, ti_is_shared_table := is_shared\<rparr>)))))))))))))))))"

definition read_index_column :: "cat_record \<Rightarrow> IndexColumn run" where
  "read_index_column r =
    bindE (deserialize as_int64 0 r) (\<lambda>_. bindE (deserialize as_int64 1 r) (\<lambda>_.
    bindE (deserialize_value as_string 2 r) (\<lambda>_. bindE (deserialize_value as_int32 3 r) (\<lambda>col_id.
    bindE (deserialize_value as_string 4 r) (\<lambda>name. bindE (deserialize_value as_int16 5 r) (\<lambda>ty.
    bindE (deserialize_value as_bool 6 r) (\<lambda>nullable. bindE (deserialize_value as_bool 7 r) (\<lambda>hash.
    bindE (deserialize_value as_bool 8 r) (\<lambda>rng. bindE (deserialize_value as_int32 9 r) (\<lambda>order.
    bindE (deserialize_value as_int16 10 r) (\<lambda>sorting. bindE (deserialize_value as_int32 11 r) (\<lambda>base_id.
    bindE (liftC (DataType_of_value (sint ty))) (\<lambda>t. bindE (liftC (SortingType_of_value (sint sorting))) (\<lambda>st.
      returnE \<lparr>ic_column_id = sint col_id, ic_column_name = name, ic_type = t, ic_is_nullable = nullable, ic_is_hash = hash,
        ic_is_range = rng, ic_order = sint order, ic_sorting_type = st, ic_base_column_id = sint base_id, ic_colexpr = None\<rparr>))))))))))))))"

fun read_index_columns :: "cat_record list \<Rightarrow> IndexColumn list run" where
  "read_index_columns [] = returnE []"
| "read_index_columns (r # rs) = bindE (read_index_column r) (\<lambda>c. bindE (read_index_columns rs) (\<lambda>cs. returnE (c # cs)))"

text \<open>The head of an index, and the index once its columns have been read.\<close>
definition read_index_meta :: "cat_record \<Rightarrow> (string \<times> (IndexColumn list \<Rightarrow> IndexInfo)) run" where
  "read_index_meta m =
    bindE (deserialize as_int64 0 m) (\<lambda>_. bindE (deserialize as_int64 1 m) (\<lambda>_.
    bindE (deserialize_value as_string 2 m) (\<lambda>table_id. bindE (deserialize_value as_string 3 m) (\<lambda>table_name.
    bindE (deserialize_value as_int64 4 m) (\<lambda>table_oid. bindE (deserialize_value as_string 5 m) (\<lambda>table_uuid.
    bindE (deserialize as_bool 6 m) (\<lambda>_. bindE (deserialize_value as_bool 7 m) (\<lambda>is_shared.
    bindE (deserialize_value as_bool 8 m) (\<lambda>is_index. if \<not> is_index then throwE Runtime_error else
    bindE (deserialize_value as_bool 9 m) (\<lambda>is_unique. bindE (deserialize_value as_string 10 m) (\<lambda>base_table_id.
    bindE (deserialize_value as_int16 11 m) (\<lambda>perm. bindE (deserialize as_int32 12 m) (\<lambda>_.
    bindE (deserialize_value as_int32 13 m) (\<lambda>version. bindE (liftC (permission_of_value (sint perm))) (\<lambda>p.
      returnE (table_id, \<lambda>columns. IndexInfo_make table_name (ucast table_oid) table_uuid base_table_id version is_unique is_shared columns p))))))))))))))))"

subsection \<open>A new index\<close>

fun new_index_columns :: "TableInfo \<Rightarrow> Schema \<Rightarrow> int list \<Rightarrow> IndexColumn list run" where
  "new_index_columns base s [] = returnE []"
| "new_index_columns base s (i # ids) = bindE (liftC (find_column_by_id s i)) (\<lambda>idx.
     if idx = kColumnNotFound then throwE Runtime_error
     else bindE (liftC (schema_column s (nat idx))) (\<lambda>c.
       bindE (if col_name c \<noteq> ''k2pguniqueidxkeysuffix'' \<and> col_name c \<noteq> ''k2pgidxbasectid''
              then bindE (liftC (FindColumnIdByName (ti_schema base) (col_name c))) (\<lambda>(found, b).
                if found then returnE b else throwE Runtime_error)
              else returnE (- 1)) (\<lambda>base_column_id.
       bindE (new_index_columns base s ids) (\<lambda>cs.
         returnE (\<lparr>ic_column_id = i, ic_column_name = col_name c, ic_type = type_id (col_type c), ic_is_nullable = col_is_nullable c,
           ic_is_hash = col_is_hash c, ic_is_range = (col_is_primary c \<and> \<not> col_is_hash c), ic_order = col_order c,
           ic_sorting_type = col_sorting_type c, ic_base_column_id = base_column_id, ic_colexpr = None\<rparr> # cs)))))"

definition BuildIndexInfo_new ::
  "TableInfo \<Rightarrow> string \<Rightarrow> oid \<Rightarrow> string \<Rightarrow> Schema \<Rightarrow> bool \<Rightarrow> bool \<Rightarrow> IndexPermissions \<Rightarrow> IndexInfo run" where
  "BuildIndexInfo_new base index_name table_oid index_uuid s is_unique is_shared perm =
    bindE (new_index_columns base s (col_ids s)) (\<lambda>columns.
      returnE (IndexInfo_make index_name table_oid index_uuid (ti_table_id base) (schema_version s) is_unique is_shared columns perm))"

subsection \<open>Numbers and enumerations\<close>

definition int32_ok :: "int \<Rightarrow> bool" where
  "int32_ok i = (- (2 ^ 31) \<le> i \<and> i < 2 ^ 31)"

lemma sint_int32 [simp]: "int32_ok i \<Longrightarrow> sint (word_of_int i :: 32 word) = i"
  by (simp add: int32_ok_def signed_of_int signed_take_bit_int_eq_self)

lemma sint_int16: "- (2 ^ 15) \<le> i \<Longrightarrow> i < 2 ^ 15 \<Longrightarrow> sint (word_of_int i :: 16 word) = i"
  by (simp add: signed_of_int signed_take_bit_int_eq_self)

lemma DataType_stored [simp]: "DataType_of_value (sint (word_of_int (DataType_value t) :: 16 word)) = Some t"
proof -
  have "sint (word_of_int (DataType_value t) :: 16 word) = DataType_value t" by (rule sint_int16) (cases t; simp)+
  then show ?thesis by (simp add: DataType_of_value_inverse)
qed

lemma SortingType_stored [simp]: "SortingType_of_value (sint (word_of_int (SortingType_value t) :: 16 word)) = Some t"
proof -
  have "sint (word_of_int (SortingType_value t) :: 16 word) = SortingType_value t" by (rule sint_int16) (cases t; simp)+
  then show ?thesis by (cases t) (simp_all add: SortingType_of_value_def)
qed

lemma permission_stored [simp]: "permission_of_value (sint (word_of_int (permission_value p) :: 16 word)) = Some p"
proof -
  have "sint (word_of_int (permission_value p) :: 16 word) = permission_value p" by (rule sint_int16) (cases p; simp)+
  then show ?thesis by (cases p) (simp_all add: permission_of_value_def)
qed

lemma stored_oid [simp]: "ucast (ucast (w :: oid) :: 64 word) = w"
  by (rule bit_word_eqI) (simp add: bit_simps)

lemma deserialize_simps [simp]:
  "k < length (cr_fields r) \<Longrightarrow> cr_fields r ! k = None \<Longrightarrow> deserialize sel k r = returnE None"
  "k < length (cr_fields r) \<Longrightarrow> cr_fields r ! k = Some f \<Longrightarrow> sel f = Some v \<Longrightarrow> deserialize sel k r = returnE (Some v)"
  "k < length (cr_fields r) \<Longrightarrow> cr_fields r ! k = Some f \<Longrightarrow> sel f = Some v \<Longrightarrow> deserialize_value sel k r = returnE v"
  by (simp_all add: deserialize_def deserialize_value_def)

lemma liftC_Some [simp]: "liftC (Some x) = returnE x"
  by (simp add: liftC_def)

subsection \<open>Round trips\<close>

definition column_ok :: "int \<times> ColumnSchema \<Rightarrow> bool" where
  "column_ok = (\<lambda>(i, c). int32_ok i \<and> int32_ok (col_order c) \<and> Create (type_id (col_type c)) = Some (col_type c))"

definition index_column_ok :: "IndexColumn \<Rightarrow> bool" where
  "index_column_ok c = (int32_ok (ic_column_id c) \<and> int32_ok (ic_order c) \<and> int32_ok (ic_base_column_id c) \<and> ic_colexpr c = None)"

lemma read_table_column_record:
  "column_ok (i, c) \<Longrightarrow> read_table_column (table_column_record coll tid i c) = returnE (i, c)"
  by (simp add: read_table_column_def table_column_record_def column_ok_def)

lemma read_table_columns_records:
  "list_all column_ok ics \<Longrightarrow> read_table_columns (map (\<lambda>(i, c). table_column_record coll tid i c) ics) = returnE ics"
  by (induction ics) (auto simp: read_table_column_record)

lemma read_index_column_record: "index_column_ok c \<Longrightarrow> read_index_column (index_column_record coll tid c) = returnE c"
  by (simp add: read_index_column_def index_column_record_def index_column_ok_def)

lemma read_index_columns_records:
  "list_all index_column_ok cs \<Longrightarrow> read_index_columns (map (index_column_record coll tid) cs) = returnE cs"
  by (induction cs) (auto simp: read_index_column_record)

lemma read_index_meta_record:
  assumes "ix = IndexInfo_make name toid uuid base ver uniq shared cols perm"
  shows "\<exists>mk. read_index_meta (DeriveTableMetaRecordOfIndex coll ix sys n) = returnE (ix_table_id ix, mk) \<and> mk cols = ix"
  using assms by (auto simp: read_index_meta_def DeriveTableMetaRecordOfIndex_def IndexInfo_make_def IndexInfo_full_def split: prod.splits)

lemma default_sorting_same:
  assumes "\<And>c. f (c\<lparr>col_sorting_type := kAscending\<rparr>) = f c"
  shows "map f (default_sorting lo hi cs) = map f cs"
  by (rule nth_equalityI) (simp_all add: default_sorting_def nth_enumerate_eq assms split: if_splits)

lemma default_sorting_idem: "default_sorting lo hi (default_sorting lo hi cs) = default_sorting lo hi cs"
  by (rule nth_equalityI) (auto simp: default_sorting_def nth_enumerate_eq split: if_splits)

lemma offset_loop_cong:
  "map col_name ds = map col_name cs \<Longrightarrow> map col_type ds = map col_type cs \<Longrightarrow>
    offset_loop i off ds m offs = offset_loop i off cs m offs"
proof (induction cs arbitrary: ds i off m offs)
  case (Cons c cs)
  then obtain d ds' where "ds = d # ds'" by (cases ds) auto
  moreover from this Cons.prems have "col_type_info d = col_type_info c" by (simp add: col_type_info_def)
  ultimately show ?case using Cons.prems Cons.IH [of ds'] by simp
qed simp

lemma map_eq_filter: "map g xs = map g ys \<Longrightarrow> length (filter g xs) = length (filter g ys)"
proof (induction ys arbitrary: xs)
  case (Cons y ys)
  then obtain x xs' where "xs = x # xs'" by (cases xs) auto
  with Cons.prems Cons.IH [of xs'] show ?case by simp
qed simp

lemma map_eq_exists: "map g xs = map g ys \<Longrightarrow> (\<exists>x \<in> set xs. g x) \<longleftrightarrow> (\<exists>y \<in> set ys. g y)"
  by (metis (mono_tags, lifting) imageE image_eqI list.set_map)

text \<open>Making a schema from the columns of a made schema gives it again.\<close>
lemma Schema_make_again:
  assumes "Schema_make cs ids k = Some s"
  shows "Schema_make (schema_cols s) (col_ids s) k = Some s"
proof -
  let ?h = "length (filter col_is_key cs)"
  define kk where "kk = nat (k mod 2 ^ 64)"
  define ds where "ds = default_sorting ?h kk cs"
  obtain m offs off where r: "int (length cs) \<ge> k mod 2 ^ 64" "0 \<le> k" "ids = [] \<or> length ids = length cs"
      "\<not> (\<exists>c \<in> set (take (nat k) cs). col_is_nullable c)"
      "offset_loop 0 0 cs Map.empty [] = Some (False, m, offs, off)"
      "s = empty_schema\<lparr>schema_cols := ds, num_key_columns := kk, num_hash_key_columns := ?h,
        has_nullables := (\<exists>c \<in> set cs. col_is_nullable c), name_to_index := m, col_offsets := offs @ [off], col_ids := ids,
        id_to_index := insert_from 0 ids Map.empty, max_col_id := Some (foldl (\<lambda>m i. if i > m then i else m) 0 ids)\<rparr>"
    using assms
    by (auto simp: Schema_make_def Schema_Reset_def Let_def empty_schema_def ds_def kk_def split: if_splits Option.bind_splits prod.splits)
  have nul: "map col_is_nullable ds = map col_is_nullable cs" unfolding ds_def by (rule default_sorting_same) simp
  then have "map col_is_nullable (take (nat k) ds) = map col_is_nullable (take (nat k) cs)" by (simp flip: take_map)
  note ex = map_eq_exists [OF nul] map_eq_exists [OF this]
  have "map col_is_key ds = map col_is_key cs" unfolding ds_def by (rule default_sorting_same) (simp add: col_is_key_def)
  then have h: "length (filter col_is_key ds) = ?h" by (rule map_eq_filter)
  have off: "offset_loop 0 0 ds Map.empty [] = Some (False, m, offs, off)"
    using offset_loop_cong [of ds cs] default_sorting_same [of col_type] r(5) by (simp add: ds_def)
  have len: "length ds = length cs" and idem: "default_sorting ?h kk ds = ds"
    by (simp_all add: ds_def default_sorting_idem)
  have "Schema_Reset ds ids k empty_schema = Some (kOk, s)"
    using r(1-4) unfolding Schema_Reset_def Let_def h ex len kk_def [symmetric]
    by (auto simp: empty_schema_def off r(6) idem)
  then show ?thesis by (simp add: r(6) Schema_make_def empty_schema_def)
qed

text \<open>A table that was made from a schema of plain columns, with its primary columns as keys.\<close>
definition table_ok :: "TableInfo \<Rightarrow> bool" where
  "table_ok t = (\<exists>s. Schema_make (schema_cols s) (col_ids s) (int (length (filter col_is_primary (schema_cols s)))) = Some s
     \<and> ti_schema t = copy_schema s \<and> length (col_ids s) = length (schema_cols s)
     \<and> list_all column_ok (zip (col_ids s) (schema_cols s)) \<and> ti_table_id t = GetTableId (ti_table_oid t)
     \<and> int32_ok (ti_next_column_id t))"

lemma copy_schema_version: "copy_schema (s\<lparr>schema_version := v\<rparr>) = copy_schema s"
  by (simp add: copy_schema_def CopyFrom_def)

lemma copy_schema_sel [simp]:
  "schema_cols (copy_schema s) = schema_cols s" "col_ids (copy_schema s) = col_ids s" "schema_version (copy_schema s) = 0"
  by (simp_all add: copy_schema_def CopyFrom_def empty_schema_def)

lemma BuildTableInfo_records:
  assumes "table_ok t"
  shows "\<exists>rs. DeriveTableColumnMetaRecords coll t = Some rs
    \<and> BuildTableInfo (ti_database_id t) (ti_database_name t) (DeriveTableMetaRecord coll t) rs = returnE (t\<lparr>ti_index_map := Map.empty\<rparr>)"
proof -
  obtain s where s: "Schema_make (schema_cols s) (col_ids s) (int (length (filter col_is_primary (schema_cols s)))) = Some s"
      "ti_schema t = copy_schema s" "length (col_ids s) = length (schema_cols s)"
      "list_all column_ok (zip (col_ids s) (schema_cols s))" "ti_table_id t = GetTableId (ti_table_oid t)"
      "int32_ok (ti_next_column_id t)"
    using assms unfolding table_ok_def by blast
  let ?ics = "zip (col_ids s) (schema_cols s)"
  let ?rs = "map (\<lambda>(i, c). table_column_record coll (ti_table_id t) i c) ?ics"
  have rs: "DeriveTableColumnMetaRecords coll t = Some ?rs" using s(2,3) by (simp add: DeriveTableColumnMetaRecords_def Let_def)
  have "map col_is_primary (map snd ?ics) = map col_is_primary (schema_cols s)" using s(3) by simp
  then have "length (filter (\<lambda>c. col_is_primary (snd c)) ?ics) = length (filter col_is_primary (schema_cols s))"
    using map_eq_filter [of col_is_primary "map snd ?ics" "schema_cols s"] by (simp add: filter_map comp_def)
  then have make: "Schema_make (map snd ?ics) (map fst ?ics) (int (length (filter (\<lambda>c. col_is_primary (snd c)) ?ics))) = Some s"
    using s(1,3) by simp
  have "BuildTableInfo (ti_database_id t) (ti_database_name t) (DeriveTableMetaRecord coll t) ?rs = returnE (t\<lparr>ti_index_map := Map.empty\<rparr>)"
    unfolding BuildTableInfo_def read_table_columns_records [OF s(4)]
    using s(2,5,6) make
    by (simp add: DeriveTableMetaRecord_def TableInfo_make_def copy_schema_version) blast
  with rs show ?thesis by blast
qed

subsection \<open>Schemas of the rows\<close>

fun literal_type :: "k2_literal \<Rightarrow> FieldType" where
  "literal_type (L_bool b) = BOOLT"
| "literal_type (L_int64 w) = INT64T"
| "literal_type (L_float w) = FLOATT"
| "literal_type (L_double w) = DOUBLET"
| "literal_type (L_string s) = STRINGT"

lemma ToK2Type_value_type: "ToK2Type t = (case value_type_of t of None \<Rightarrow> throwE Invalid_argument
    | Some VT_BOOL \<Rightarrow> returnE BOOLT | Some VT_INT \<Rightarrow> returnE INT64T | Some VT_FLOAT \<Rightarrow> returnE FLOATT
    | Some VT_DOUBLE \<Rightarrow> returnE DOUBLET | Some VT_SLICE \<Rightarrow> returnE STRINGT | Some VT_UNKNOWN \<Rightarrow> throwE Invalid_argument)"
  by (cases t) simp_all

lemma literal_type_ToK2Type:
  "value_type_of t = Some vt \<Longrightarrow> literal_of vt d = returnE l \<Longrightarrow> ToK2Type t = returnE (literal_type l)"
  by (cases vt; cases d) (auto simp: ToK2Type_value_type)

lemma sorted_field_sel [simp]: "sf_type (sorted_field st f) = sf_type f" "sf_name (sorted_field st f) = sf_name f"
  by (cases st; simp)+

lemma table_fields_spec:
  "table_fields n cs s = returnE ks \<Longrightarrow> \<exists>fs. ks = s\<lparr>ks_fields := ks_fields s @ fs,
      ks_partition_keys := ks_partition_keys s @ map (\<lambda>i. n + i) (filter (\<lambda>i. col_is_primary (cs ! i)) [0..<length cs])\<rparr>
    \<and> length fs = length cs
    \<and> (\<forall>i < length cs. ToK2Type (type_id (col_type (cs ! i))) = returnE (sf_type (fs ! i)) \<and> sf_name (fs ! i) = col_name (cs ! i))"
proof (induction cs arbitrary: n s)
  case (Cons c cs)
  obtain t where t: "ToK2Type (type_id (col_type c)) = returnE t" using Cons.prems by (auto simp: bindE_def returnE_def split: option.splits sum.splits)
  let ?f = "sorted_field (col_sorting_type c) (plain_field t (col_name c))"
  let ?s = "s\<lparr>ks_fields := ks_fields s @ [?f],
       ks_partition_keys := (if col_is_primary c then ks_partition_keys s @ [n] else ks_partition_keys s)\<rparr>"
  have "table_fields (n + 1) cs ?s = returnE ks" using Cons.prems t by simp
  from Cons.IH [OF this] obtain fs where fs: "ks = ?s\<lparr>ks_fields := ks_fields ?s @ fs,
      ks_partition_keys := ks_partition_keys ?s @ map (\<lambda>i. n + 1 + i) (filter (\<lambda>i. col_is_primary (cs ! i)) [0..<length cs])\<rparr>"
     "length fs = length cs" "\<forall>i < length cs. ToK2Type (type_id (col_type (cs ! i))) = returnE (sf_type (fs ! i)) \<and> sf_name (fs ! i) = col_name (cs ! i)"
    by blast
  have "[0..<length (c # cs)] = 0 # map Suc [0..<length cs]" by (simp add: upt_conv_Cons map_Suc_upt del: upt_Suc)
  then have keys: "map (\<lambda>i. n + i) (filter (\<lambda>i. col_is_primary ((c # cs) ! i)) [0..<length (c # cs)])
      = (if col_is_primary c then [n] else []) @ map (\<lambda>i. n + 1 + i) (filter (\<lambda>i. col_is_primary (cs ! i)) [0..<length cs])"
    by (simp add: filter_map comp_def)
  show ?case unfolding keys
    using fs t by (intro exI [of _ "?f # fs"]) (auto simp: nth_Cons' plain_field_def)
qed simp

lemma table_fields_ok:
  "(\<forall>c \<in> set cs. value_type_of (type_id (col_type c)) \<noteq> None) \<Longrightarrow> \<exists>ks. table_fields n cs s = returnE ks"
proof (induction cs arbitrary: n s)
  case (Cons c cs)
  obtain t where "ToK2Type (type_id (col_type c)) = returnE t"
    using Cons.prems by (cases "type_id (col_type c)") auto
  then show ?case using Cons by simp
qed simp

text \<open>(C13)
  The catalog and the values agree on types.  In the schema that is created for the rows of
  a table every column has its field behind the two identifiers, under its name and
  with the type of the literals that the adapter writes for values of the column's
  type; the key fields are the identifiers and the primary columns in order.
\<close>
theorem stored_values_have_field_type:
  assumes "DeriveSKVSchemaFromTableInfo t = returnE ks" "i < length (schema_cols (ti_schema t))"
    and "te_type te = type_id (col_type (schema_cols (ti_schema t) ! i))"
    and "SqlValue_of_datum B te d False = Some v" "literal_of (sv_type v) (sv_data v) = returnE l"
  shows "sf_type (ks_fields ks ! (SKV_FIELD_OFFSET + i)) = literal_type l
    \<and> sf_name (ks_fields ks ! (SKV_FIELD_OFFSET + i)) = col_name (schema_cols (ti_schema t) ! i)
    \<and> ks_partition_keys ks = [0, 1] @ map (\<lambda>k. SKV_FIELD_OFFSET + k)
        (filter (\<lambda>k. col_is_primary (schema_cols (ti_schema t) ! k)) [0..<length (schema_cols (ti_schema t))])"
proof -
  let ?cs = "schema_cols (ti_schema t)"
  obtain fs where fs: "ks_fields ks = [plain_field INT64T TABLE_ID_COLUMN_NAME, plain_field INT64T INDEX_ID_COLUMN_NAME] @ fs"
      "ks_partition_keys ks = [0, 1] @ map (\<lambda>k. 2 + k) (filter (\<lambda>k. col_is_primary (?cs ! k)) [0..<length ?cs])"
      "ToK2Type (type_id (col_type (?cs ! i))) = returnE (sf_type (fs ! i))" "sf_name (fs ! i) = col_name (?cs ! i)"
    using table_fields_spec [OF assms(1) [unfolded DeriveSKVSchemaFromTableInfo_def]] assms(2)
    by (auto simp: AddDefaultPartitionKeys_def)
  have "value_type_of (te_type te) = Some (sv_type v)"
    using assms(4) by (auto simp: SqlValue_of_datum_def split: Option.bind_splits)
  from literal_type_ToK2Type [OF this assms(5)] have "sf_type (fs ! i) = literal_type l"
    using fs(3) assms(3) by (simp add: returnE_def)
  then show ?thesis using fs by (simp add: SKV_FIELD_OFFSET_def)
qed

definition example_schema :: Schema where
  "example_schema = \<lparr>schema_cols = [example_column ''a'' True, example_column ''b'' False], num_key_columns = 1,
     num_hash_key_columns = 1, max_col_id = Some 2, col_ids = [1, 2], col_offsets = [0, 8, 16],
     name_to_index = [''a'' \<mapsto> 0, ''b'' \<mapsto> 1], id_to_index = [1 \<mapsto> 0, 2 \<mapsto> 1], has_nullables = True, schema_version = 0\<rparr>"

lemma example_schema_made:
  "Schema_make [example_column ''a'' True, example_column ''b'' False] [1, 2] 1 = Some example_schema"
  by (simp add: Schema_make_def Schema_Reset_def Let_def empty_schema_def default_sorting_def example_schema_def)

definition example_catalog_table :: TableInfo where
  "example_catalog_table = (TableInfo_make ''db'' ''template1'' 16384 ''t'' (GetTableUuid 1 16384) example_schema)\<lparr>ti_next_column_id := 3\<rparr>"

lemma example_table_ok: "table_ok example_catalog_table"
  unfolding table_ok_def using example_schema_made
  by (intro exI [of _ example_schema])
    (simp add: example_schema_def example_catalog_table_def TableInfo_make_def column_ok_def int32_ok_def example_column_def)

theorem stored_values_have_field_type_witness:
  "\<exists>ks. DeriveSKVSchemaFromTableInfo example_catalog_table = returnE ks \<and> sf_type (ks_fields ks ! 3) = INT64T
    \<and> sf_name (ks_fields ks ! 3) = ''b'' \<and> ks_partition_keys ks = [0, 1, 2]"
proof -
  let ?t = example_catalog_table
  have cols: "schema_cols (ti_schema ?t) = [example_column ''a'' True, example_column ''b'' False]"
    by (simp add: example_catalog_table_def TableInfo_make_def example_schema_def)
  have ty: "value_type_of (type_id (col_type (example_column n b))) \<noteq> None" for n b by (simp add: example_column_def)
  obtain ks where ks: "DeriveSKVSchemaFromTableInfo ?t = returnE ks"
    using table_fields_ok [of "schema_cols (ti_schema ?t)", unfolded cols] ty
    unfolding DeriveSKVSchemaFromTableInfo_def cols by (metis (no_types, lifting) empty_iff insert_iff list.set)
  have "SqlValue_of_datum int_bignum int64_entity 5 False = Some \<lparr>sv_type = VT_INT, sv_data = D_int 5, sv_null = False\<rparr>"
    by (simp add: SqlValue_of_datum_def data_of_cell_def int64_entity_def)
  from stored_values_have_field_type [OF ks, of 1 int64_entity, OF _ _ this] show ?thesis
    using ks by (auto simp: cols SKV_FIELD_OFFSET_def int64_entity_def example_column_def upt_rec [of 0] upt_rec [of 1])
qed

end
