(* ===== verification/Catalog_Store.thy ===== *)
theory Catalog_Store
  imports Catalog_Records Adapter_Ops Pg_Txn
begin

text \<open>
  The handlers that keep the catalog in storage (pggate/catalog/cluster_info_handler.cc,
  database_info_handler.cc, table_info_handler.cc).  They run inside transactions that
  their callers open; a transaction is a handler of \<^verbatim>\<open>Pg_Txn\<close> in a list indexed by address.
  The storage client is the parameter \<open>catalog_env\<close>.  A function that catches all exceptions is
  a \<open>catchIO\<close>; the status of a response is its code.
\<close>

subsection \<open>Storage and state\<close>

datatype hash_scheme = Range_scheme | HashCRC32C

text \<open>
  \<open>ce_write t r erase\<close> is the write of a record; \<open>ce_indexes\<close> is the order in which a hash map of
  indexes is walked; \<open>ce_range_ends\<close> is the configuration of a collection.
\<close>
record ('q, 't, 'w) catalog_env =
  ce_adapter :: "('t, 'w) adapter"
  ce_range_ends :: "string \<Rightarrow> string list option"
  ce_createCollection :: "string \<Rightarrow> hash_scheme \<Rightarrow> string list \<Rightarrow> 'w \<Rightarrow> (std_exception + k2_status) \<times> 'w"
  ce_dropCollection :: "string \<Rightarrow> 'w \<Rightarrow> (std_exception + k2_status) \<times> 'w"
  ce_createSchema :: "string \<Rightarrow> k2_schema \<Rightarrow> 'w \<Rightarrow> (std_exception + k2_status) \<times> 'w"
  ce_getSchema :: "string \<Rightarrow> string \<Rightarrow> 32 word \<Rightarrow> 'w \<Rightarrow> (std_exception + k2_status \<times> k2_schema) \<times> 'w"
  ce_write :: "'t \<Rightarrow> cat_record \<Rightarrow> bool \<Rightarrow> 'w \<Rightarrow> (std_exception + k2_status) \<times> 'w"
  ce_read :: "'t \<Rightarrow> cat_record \<Rightarrow> 'w \<Rightarrow> (std_exception + k2_status \<times> cat_record) \<times> 'w"
  ce_createScanRead :: "string \<Rightarrow> string \<Rightarrow> 'w \<Rightarrow> (std_exception + k2_status \<times> 'q) \<times> 'w"
  ce_scanRead :: "'t \<Rightarrow> 'q \<Rightarrow> 'w \<Rightarrow> (std_exception + k2_status \<times> cat_record list \<times> 'q) \<times> 'w"
  cq_setFilterExpression :: "k2_expression \<Rightarrow> 'q \<Rightarrow> 'q"
  cq_setRange :: "cat_record \<Rightarrow> cat_record \<Rightarrow> 'q \<Rightarrow> 'q"
  cq_serializeStart :: "field \<Rightarrow> 'q \<Rightarrow> std_exception + 'q"
  cq_isDone :: "'q \<Rightarrow> bool"
  ce_is2xxOK :: "k2_status \<Rightarrow> bool"
  ce_cloneToOtherSchema :: "string \<Rightarrow> k2_schema \<Rightarrow> cat_record \<Rightarrow> cat_record"
  ce_indexes :: "(string \<rightharpoonup> IndexInfo) \<Rightarrow> (string \<times> IndexInfo) list"

text \<open>The transactions by address and the world of the storage.\<close>
record ('t, 'w) cat_state =
  cs_handlers :: "'t handler list"
  cs_world :: 'w

definition catchIO :: "('s, 'a) io \<Rightarrow> (std_exception \<Rightarrow> ('s, 'a) io) \<Rightarrow> ('s, 'a) io" where
  "catchIO m h s = (case m s of Some (Inl e, s1) \<Rightarrow> h e s1 | r \<Rightarrow> r)"

definition callW :: "('w \<Rightarrow> (std_exception + 'a) \<times> 'w) \<Rightarrow> (('t, 'w, 'z) cat_state_scheme, 'a) io" where
  "callW f s = (let (r, w) = f (cs_world s) in Some (r, s\<lparr>cs_world := w\<rparr>))"

text \<open>An operation of the handler at an address.\<close>
definition txn_op :: "nat \<Rightarrow> (('t, 'w) hstate \<Rightarrow> outcome \<times> ('t, 'w) hstate) \<Rightarrow> (('t, 'w, 'z) cat_state_scheme, code) io" where
  "txn_op h f s = (if length (cs_handlers s) \<le> h then None else
     case f (cs_handlers s ! h, cs_world s) of
       (Returned c, h1, w) \<Rightarrow> Some (Inr c, s\<lparr>cs_handlers := (cs_handlers s)[h := h1], cs_world := w\<rparr>)
     | (Threw, h1, w) \<Rightarrow> Some (Inl Runtime_error, s\<lparr>cs_handlers := (cs_handlers s)[h := h1], cs_world := w\<rparr>)
     | (Crashed, _) \<Rightarrow> None)"

definition getTxn :: "('q, 't, 'w) catalog_env \<Rightarrow> nat \<Rightarrow> (('t, 'w, 'z) cat_state_scheme, 't) io" where
  "getTxn env h = bindIO (txn_op h (GetTxn (ce_adapter env))) (\<lambda>_ s. case txn (cs_handlers s ! h) of
     None \<Rightarrow> None | Some t \<Rightarrow> Some (Inr t, s))"

subsection \<open>Adapter\<close>

text \<open>The range ends of the configuration decide on the hash scheme; a missing entry throws.\<close>
definition CreateCollection :: "('q, 't, 'w) catalog_env \<Rightarrow> string \<Rightarrow> string \<Rightarrow> (('t, 'w, 'z) cat_state_scheme, k2_status) io" where
  "CreateCollection env coll db_name = (case ce_range_ends env db_name of
      None \<Rightarrow> throwIO Platform_exception
    | Some ends \<Rightarrow> callW (ce_createCollection env coll (if ends \<noteq> [] then Range_scheme else HashCRC32C) ends))"

definition WriteRecord :: "('q, 't, 'w) catalog_env \<Rightarrow> nat \<Rightarrow> cat_record \<Rightarrow> bool \<Rightarrow> (('t, 'w, 'z) cat_state_scheme, k2_status) io" where
  "WriteRecord env h r isDelete = bindIO (getTxn env h) (\<lambda>t. callW (ce_write env t r isDelete))"

definition UpsertRecord :: "('q, 't, 'w) catalog_env \<Rightarrow> nat \<Rightarrow> cat_record \<Rightarrow> (('t, 'w, 'z) cat_state_scheme, k2_status) io" where
  "UpsertRecord env h r = WriteRecord env h r False"

definition DeleteRecord :: "('q, 't, 'w) catalog_env \<Rightarrow> nat \<Rightarrow> cat_record \<Rightarrow> (('t, 'w, 'z) cat_state_scheme, k2_status) io" where
  "DeleteRecord env h r = WriteRecord env h r True"

definition ReadRecord :: "('q, 't, 'w) catalog_env \<Rightarrow> nat \<Rightarrow> cat_record \<Rightarrow> (('t, 'w, 'z) cat_state_scheme, k2_status \<times> cat_record) io" where
  "ReadRecord env h r = bindIO (getTxn env h) (\<lambda>t. callW (ce_read env t r))"

definition ScanRead :: "('q, 't, 'w) catalog_env \<Rightarrow> nat \<Rightarrow> 'q \<Rightarrow> (('t, 'w, 'z) cat_state_scheme, k2_status \<times> cat_record list \<times> 'q) io" where
  "ScanRead env h q = bindIO (getTxn env h) (\<lambda>t. callW (ce_scanRead env t q))"

text \<open>A status of the storage that is not a success ends the caller with its translation.\<close>
definition unless2xx :: "('q, 't, 'w) catalog_env \<Rightarrow> k2_status \<Rightarrow> ('s, 'a result) io \<Rightarrow> ('s, 'a result) io" where
  "unless2xx env c m = (if \<not> ce_is2xxOK env c then returnIO (Inl (K2StatusToK2PgStatus c)) else m)"

text \<open>A write whose failure ends the caller; on success the next step runs.\<close>
definition write_then :: "('q, 't, 'w) catalog_env \<Rightarrow> nat \<Rightarrow> cat_record \<Rightarrow> bool \<Rightarrow> (('t, 'w, 'z) cat_state_scheme, 'a result) io \<Rightarrow>
    (('t, 'w, 'z) cat_state_scheme, 'a result) io" where
  "write_then env h r isDelete m = bindIO (WriteRecord env h r isDelete) (\<lambda>c. unless2xx env c m)"

text \<open>Functions that turn every exception into a run time error.\<close>
definition catch_all :: "('s, 'a result) io \<Rightarrow> ('s, 'a result) io" where
  "catch_all m = catchIO m (\<lambda>e. returnIO (Inl kRuntimeError))"

text \<open>The next step of a function on a successful result, the error otherwise.\<close>
definition bindR :: "('s, 'a result) io \<Rightarrow> ('a \<Rightarrow> ('s, 'b result) io) \<Rightarrow> ('s, 'b result) io" where
  "bindR m f = bindIO m (\<lambda>r. case r of Inl c \<Rightarrow> returnIO (Inl c) | Inr x \<Rightarrow> f x)"

subsection \<open>Cluster information\<close>

record ClusterInfo =
  ci_cluster_id :: string
  ci_catalog_version :: "64 word"
  ci_initdb_done :: bool

definition skv_schema_cluster_meta :: k2_schema where
  "skv_schema_cluster_meta = \<lparr>ks_name = skv_schema_name_cluster_meta, ks_version = 1,
     ks_fields = [plain_field STRINGT ''ClusterId'', plain_field INT64T ''CatalogVersion'', plain_field BOOLT ''InitDbDone''],
     ks_partition_keys = [0], ks_range_keys = []\<rparr>"

definition UpdateClusterInfo :: "('q, 't, 'w) catalog_env \<Rightarrow> nat \<Rightarrow> ClusterInfo \<Rightarrow> (('t, 'w, 'z) cat_state_scheme, unit result) io" where
  "UpdateClusterInfo env h ci = write_then env h
     \<lparr>cr_collection = skv_collection_name_primary_cluster, cr_schema = skv_schema_name_cluster_meta,
      cr_fields = [Some (F_string (ci_cluster_id ci)), Some (F_int64 (ci_catalog_version ci)), Some (F_bool (ci_initdb_done ci))]\<rparr> False
     (returnIO (Inr ()))"

definition InitClusterInfo :: "('q, 't, 'w) catalog_env \<Rightarrow> nat \<Rightarrow> ClusterInfo \<Rightarrow> (('t, 'w, 'z) cat_state_scheme, unit result) io" where
  "InitClusterInfo env h ci =
    bindIO (callW (ce_createSchema env skv_collection_name_primary_cluster skv_schema_cluster_meta)) (\<lambda>c.
      unless2xx env c (UpdateClusterInfo env h ci))"

definition GetClusterInfo :: "('q, 't, 'w) catalog_env \<Rightarrow> nat \<Rightarrow> string \<Rightarrow> (('t, 'w, 'z) cat_state_scheme, ClusterInfo result) io" where
  "GetClusterInfo env h cluster_id =
    bindIO (ReadRecord env h \<lparr>cr_collection = skv_collection_name_primary_cluster, cr_schema = skv_schema_name_cluster_meta,
      cr_fields = [Some (F_string cluster_id)]\<rparr>) (\<lambda>(c, r). unless2xx env c (liftIO (
        bindE (deserialize_value as_string 0 r) (\<lambda>i. bindE (deserialize_value as_int64 1 r) (\<lambda>v.
        bindE (deserialize_value as_bool 2 r) (\<lambda>b.
          returnE (Inr \<lparr>ci_cluster_id = i, ci_catalog_version = v, ci_initdb_done = b\<rparr>)))))))"

subsection \<open>Databases\<close>

record DatabaseInfo =
  db_database_id :: string
  db_database_name :: string
  db_database_oid :: oid
  db_next_pg_oid :: oid

text \<open>The setter asserts that the oid grows; a new object has the oid zero.\<close>
definition SetNextPgOid :: "oid \<Rightarrow> DatabaseInfo \<Rightarrow> DatabaseInfo checked" where
  "SetNextPgOid next d = (if next > db_next_pg_oid d then Some (d\<lparr>db_next_pg_oid := next\<rparr>) else None)"

definition make_DatabaseInfo :: "string \<Rightarrow> string \<Rightarrow> oid \<Rightarrow> oid \<Rightarrow> DatabaseInfo checked" where
  "make_DatabaseInfo i name db_oid next =
     SetNextPgOid next \<lparr>db_database_id = i, db_database_name = name, db_database_oid = db_oid, db_next_pg_oid = 0\<rparr>"

definition skv_schema_database_meta :: k2_schema where
  "skv_schema_database_meta = \<lparr>ks_name = skv_schema_name_database_meta, ks_version = 1,
     ks_fields = [plain_field STRINGT ''DatabaseId'', plain_field STRINGT ''DatabaseName'', plain_field INT64T ''DatabaseOid'',
       plain_field INT64T ''NextPgOid''],
     ks_partition_keys = [0], ks_range_keys = []\<rparr>"

definition database_record :: "DatabaseInfo \<Rightarrow> cat_record" where
  "database_record d = \<lparr>cr_collection = skv_collection_name_primary_cluster, cr_schema = skv_schema_name_database_meta,
     cr_fields = [Some (F_string (db_database_id d)), Some (F_string (db_database_name d)),
       Some (F_int64 (ucast (db_database_oid d))), Some (F_int64 (ucast (db_next_pg_oid d)))]\<rparr>"

definition read_database :: "cat_record \<Rightarrow> DatabaseInfo run" where
  "read_database r = bindE (deserialize_value as_string 0 r) (\<lambda>i. bindE (deserialize_value as_string 1 r) (\<lambda>name.
     bindE (deserialize_value as_int64 2 r) (\<lambda>db_oid. bindE (deserialize_value as_int64 3 r) (\<lambda>next.
       liftC (make_DatabaseInfo i name (ucast db_oid) (ucast next))))))"

definition InitDatabasTable :: "('q, 't, 'w) catalog_env \<Rightarrow> (('t, 'w, 'z) cat_state_scheme, unit result) io" where
  "InitDatabasTable env =
    bindIO (callW (ce_getSchema env skv_collection_name_primary_cluster skv_schema_name_database_meta 1)) (\<lambda>(c, _).
      if c \<noteq> 404 then returnIO (Inl (if ce_is2xxOK env c then kInternalError else K2StatusToK2PgStatus c))
      else bindIO (callW (ce_createSchema env skv_collection_name_primary_cluster skv_schema_database_meta)) (\<lambda>c.
        unless2xx env c (returnIO (Inr ()))))"

definition UpsertDatabase :: "('q, 't, 'w) catalog_env \<Rightarrow> nat \<Rightarrow> DatabaseInfo \<Rightarrow> (('t, 'w, 'z) cat_state_scheme, unit result) io" where
  "UpsertDatabase env h d = write_then env h (database_record d) False (returnIO (Inr ()))"

definition GetDatabase :: "('q, 't, 'w) catalog_env \<Rightarrow> nat \<Rightarrow> string \<Rightarrow> (('t, 'w, 'z) cat_state_scheme, DatabaseInfo result) io" where
  "GetDatabase env h database_id =
    bindIO (ReadRecord env h \<lparr>cr_collection = skv_collection_name_primary_cluster, cr_schema = skv_schema_name_database_meta,
      cr_fields = [Some (F_string database_id)]\<rparr>) (\<lambda>(c, r). unless2xx env c (liftIO (bindE (read_database r) (\<lambda>d. returnE (Inr d)))))"

fun read_databases :: "cat_record list \<Rightarrow> DatabaseInfo list run" where
  "read_databases [] = returnE []"
| "read_databases (r # rs) = bindE (read_database r) (\<lambda>d. bindE (read_databases rs) (\<lambda>ds. returnE (d # ds)))"

definition DeleteDatabase_record :: "('q, 't, 'w) catalog_env \<Rightarrow> nat \<Rightarrow> DatabaseInfo \<Rightarrow> (('t, 'w, 'z) cat_state_scheme, unit result) io" where
  "DeleteDatabase_record env h d = write_then env h (database_record d) True (returnIO (Inr ()))"

subsection \<open>Scans\<close>

text \<open>
  The loop around a scan: \<open>prep\<close> changes the query before each read, \<open>on_fail\<close> is the end of the
  function on a bad status, \<open>body\<close> handles the records of a page.  The loop ends when the query is
  done, which is up to the storage.
\<close>
partial_function (option) scan_loop ::
  "('q, 't, 'w) catalog_env \<Rightarrow> nat \<Rightarrow> ('q \<Rightarrow> std_exception + 'q) \<Rightarrow> (k2_status \<Rightarrow> std_exception + 'a result) \<Rightarrow>
   (cat_record list \<Rightarrow> 'a \<Rightarrow> (('t, 'w, 'z) cat_state_scheme, 'a result) io) \<Rightarrow> 'q \<Rightarrow> 'a \<Rightarrow> ('t, 'w, 'z) cat_state_scheme \<Rightarrow>
   ((std_exception + 'a result) \<times> ('t, 'w, 'z) cat_state_scheme) option" where
  "scan_loop env h prep on_fail body q acc s = (case prep q of
     Inl e \<Rightarrow> Some (Inl e, s)
   | Inr q0 \<Rightarrow> (case ScanRead env h q0 s of
       None \<Rightarrow> None
     | Some (Inl e, s1) \<Rightarrow> Some (Inl e, s1)
     | Some (Inr (c, rs, q1), s1) \<Rightarrow>
         if \<not> ce_is2xxOK env c then Some (on_fail c, s1)
         else (case body rs acc s1 of
             None \<Rightarrow> None
           | Some (Inl e, s2) \<Rightarrow> Some (Inl e, s2)
           | Some (Inr (Inl d), s2) \<Rightarrow> Some (Inr (Inl d), s2)
           | Some (Inr (Inr acc1), s2) \<Rightarrow>
               if cq_isDone env q1 then Some (Inr (Inr acc1), s2) else scan_loop env h prep on_fail body q1 acc1 s2)))"

definition fail_status :: "k2_status \<Rightarrow> std_exception + 'a result" where
  "fail_status c = Inr (Inl (K2StatusToK2PgStatus c))"

definition ListDatabases :: "('q, 't, 'w) catalog_env \<Rightarrow> nat \<Rightarrow> (('t, 'w, 'z) cat_state_scheme, DatabaseInfo list result) io" where
  "ListDatabases env h =
    bindIO (callW (ce_createScanRead env skv_collection_name_primary_cluster skv_schema_name_database_meta)) (\<lambda>(c, q).
      unless2xx env c (scan_loop env h (cq_serializeStart env (F_string [])) fail_status
        (\<lambda>rs acc. liftIO (bindE (read_databases rs) (\<lambda>ds. returnE (Inr (acc @ ds))))) q []))"

definition eq_filter :: "string \<Rightarrow> k2_literal \<Rightarrow> k2_expression" where
  "eq_filter name l = makeExpression K2_EQ [makeValueReference name, makeValueLiteral l] []"

text \<open>The records of a meta table with a given value in a column; failures are exceptions.\<close>
definition fetch_records ::
  "('q, 't, 'w) catalog_env \<Rightarrow> nat \<Rightarrow> string \<Rightarrow> string \<Rightarrow> k2_expression \<Rightarrow> cat_record \<Rightarrow> (('t, 'w, 'z) cat_state_scheme, cat_record list) io" where
  "fetch_records env h coll schema_name filter_expr rng =
    bindIO (callW (ce_createScanRead env coll schema_name)) (\<lambda>(c, q).
      if \<not> ce_is2xxOK env c then throwIO Runtime_error
      else bindIO (scan_loop env h Inr (\<lambda>_. Inl Runtime_error) (\<lambda>rs acc. returnIO (Inr (acc @ rs)))
        (cq_setRange env rng rng (cq_setFilterExpression env filter_expr q)) []) (\<lambda>r. case r of
          Inr rs \<Rightarrow> returnIO rs | Inl _ \<Rightarrow> throwIO Runtime_error))"

definition FetchIndexMetaSKVRecords :: "('q, 't, 'w) catalog_env \<Rightarrow> nat \<Rightarrow> string \<Rightarrow> string \<Rightarrow> (('t, 'w, 'z) cat_state_scheme, cat_record list) io" where
  "FetchIndexMetaSKVRecords env h coll base_table_id = fetch_records env h coll skv_schema_name_table_meta
     (eq_filter BASE_TABLE_ID_COLUMN_NAME (L_string base_table_id))
     (buildRangeRecord coll skv_schema_name_table_meta oid_table_meta 0 None)"

definition FetchTableColumnMetaSKVRecords :: "('q, 't, 'w) catalog_env \<Rightarrow> nat \<Rightarrow> string \<Rightarrow> string \<Rightarrow> (('t, 'w, 'z) cat_state_scheme, cat_record list) io" where
  "FetchTableColumnMetaSKVRecords env h coll table_id = fetch_records env h coll skv_schema_name_tablecolumn_meta
     (eq_filter TABLE_ID_COLUMN_NAME (L_string table_id))
     (buildRangeRecord coll skv_schema_name_tablecolumn_meta oid_tablecolumn_meta 0 (Some table_id))"

definition FetchIndexColumnMetaSKVRecords :: "('q, 't, 'w) catalog_env \<Rightarrow> nat \<Rightarrow> string \<Rightarrow> string \<Rightarrow> (('t, 'w, 'z) cat_state_scheme, cat_record list) io" where
  "FetchIndexColumnMetaSKVRecords env h coll table_id = fetch_records env h coll skv_schema_name_indexcolumn_meta
     (eq_filter TABLE_ID_COLUMN_NAME (L_string table_id))
     (buildRangeRecord coll skv_schema_name_indexcolumn_meta oid_indexcolumn_meta 0 (Some table_id))"

definition FetchTableMetaSKVRecord :: "('q, 't, 'w) catalog_env \<Rightarrow> nat \<Rightarrow> string \<Rightarrow> string \<Rightarrow> (('t, 'w, 'z) cat_state_scheme, cat_record result) io" where
  "FetchTableMetaSKVRecord env h coll table_id =
    bindIO (ReadRecord env h (buildRangeRecord coll skv_schema_name_table_meta oid_table_meta 0 (Some table_id))) (\<lambda>(c, r).
      unless2xx env c (returnIO (Inr r)))"

subsection \<open>Writing tables\<close>

definition create_schema :: "('q, 't, 'w) catalog_env \<Rightarrow> string \<Rightarrow> k2_schema \<Rightarrow> (('t, 'w, 'z) cat_state_scheme, unit result) io" where
  "create_schema env coll s = bindIO (callW (ce_createSchema env coll s)) (\<lambda>c. unless2xx env c (returnIO (Inr ())))"

definition CreateMetaTables :: "('q, 't, 'w) catalog_env \<Rightarrow> string \<Rightarrow> (('t, 'w, 'z) cat_state_scheme, unit result) io" where
  "CreateMetaTables env coll = catch_all (bindR (create_schema env coll skv_schema_table_meta) (\<lambda>_.
     bindR (create_schema env coll skv_schema_tablecolumn_meta) (\<lambda>_. create_schema env coll skv_schema_indexcolumn_meta)))"

fun create_index_schemas :: "('q, 't, 'w) catalog_env \<Rightarrow> string \<Rightarrow> k2_schema option list \<Rightarrow> (('t, 'w, 'z) cat_state_scheme, unit result) io" where
  "create_index_schemas env coll [] = returnIO (Inr ())"
| "create_index_schemas env coll (None # ss) = returnIO (Inl kInvalidArgument)"
| "create_index_schemas env coll (Some s # ss) = bindR (create_schema env coll s) (\<lambda>_. create_index_schemas env coll ss)"

definition CreateTableSKVSchema :: "('q, 't, 'w) catalog_env \<Rightarrow> string \<Rightarrow> TableInfo \<Rightarrow> (('t, 'w, 'z) cat_state_scheme, unit result) io" where
  "CreateTableSKVSchema env coll t = catch_all (
    bindIO (callW (ce_getSchema env coll (ti_table_id t) (schema_version (ti_schema t)))) (\<lambda>(c, _).
      if ce_is2xxOK env c then returnIO (Inr ())
      else if c \<noteq> 404 then returnIO (Inl (K2StatusToK2PgStatus c))
      else bindIO (liftIO (DeriveSKVSchemaFromTableInfo t)) (\<lambda>s. bindR (create_schema env coll s) (\<lambda>_.
        if has_secondary_indexes t
        then bindIO (liftIO (DeriveIndexSchemas (ce_indexes env (ti_index_map t)))) (create_index_schemas env coll)
        else returnIO (Inr ())))))"

text \<open>The derived schema is not checked for a null pointer.\<close>
definition CreateIndexSKVSchema :: "('q, 't, 'w) catalog_env \<Rightarrow> string \<Rightarrow> IndexInfo \<Rightarrow> (('t, 'w, 'z) cat_state_scheme, unit result) io" where
  "CreateIndexSKVSchema env coll ix = catch_all (bindIO (liftIO (DeriveIndexSchema ix)) (\<lambda>s. case s of
      None \<Rightarrow> (\<lambda>st. None)
    | Some ks \<Rightarrow> bindIO (callW (ce_createSchema env coll ks)) (\<lambda>c. unless2xx env c
        (returnIO (if K2StatusToK2PgStatus c = kOk then Inr () else Inl (K2StatusToK2PgStatus c))))))"

fun write_records :: "('q, 't, 'w) catalog_env \<Rightarrow> nat \<Rightarrow> bool \<Rightarrow> cat_record list \<Rightarrow> (('t, 'w, 'z) cat_state_scheme, unit result) io" where
  "write_records env h isDelete [] = returnIO (Inr ())"
| "write_records env h isDelete (r # rs) = write_then env h r isDelete (write_records env h isDelete rs)"

definition PersistIndexMeta :: "('q, 't, 'w) catalog_env \<Rightarrow> nat \<Rightarrow> string \<Rightarrow> TableInfo \<Rightarrow> IndexInfo \<Rightarrow> (('t, 'w, 'z) cat_state_scheme, unit result) io" where
  "PersistIndexMeta env h coll t ix = catch_all (
    write_then env h (DeriveTableMetaRecordOfIndex coll ix (ti_is_sys_table t) (ti_next_column_id t)) False
      (write_records env h False (DeriveIndexColumnMetaRecords coll ix)))"

fun persist_indexes :: "('q, 't, 'w) catalog_env \<Rightarrow> nat \<Rightarrow> string \<Rightarrow> TableInfo \<Rightarrow> (string \<times> IndexInfo) list \<Rightarrow> (('t, 'w, 'z) cat_state_scheme, unit result) io" where
  "persist_indexes env h coll t [] = returnIO (Inr ())"
| "persist_indexes env h coll t ((i, ix) # entries) = bindR (PersistIndexMeta env h coll t ix) (\<lambda>_. persist_indexes env h coll t entries)"

definition PersistTableMeta :: "('q, 't, 'w) catalog_env \<Rightarrow> nat \<Rightarrow> string \<Rightarrow> TableInfo \<Rightarrow> (('t, 'w, 'z) cat_state_scheme, unit result) io" where
  "PersistTableMeta env h coll t = catch_all (
    write_then env h (DeriveTableMetaRecord coll t) False (
      bindIO (liftIO (liftC (DeriveTableColumnMetaRecords coll t))) (\<lambda>rs.
      bindR (write_records env h False rs) (\<lambda>_.
        if has_secondary_indexes t then persist_indexes env h coll t (ce_indexes env (ti_index_map t)) else returnIO (Inr ())))))"

definition CreateOrUpdateTable :: "('q, 't, 'w) catalog_env \<Rightarrow> nat \<Rightarrow> string \<Rightarrow> TableInfo \<Rightarrow> (('t, 'w, 'z) cat_state_scheme, unit result) io" where
  "CreateOrUpdateTable env h coll t = catch_all (bindR (PersistTableMeta env h coll t) (\<lambda>_.
     if is_on_physical_collection (ti_database_id t) (ti_is_shared_table t) then CreateTableSKVSchema env coll t else returnIO (Inr ())))"

subsection \<open>Reading tables\<close>

definition BuildIndexInfo :: "('q, 't, 'w) catalog_env \<Rightarrow> nat \<Rightarrow> string \<Rightarrow> cat_record \<Rightarrow> (('t, 'w, 'z) cat_state_scheme, IndexInfo) io" where
  "BuildIndexInfo env h coll m = bindIO (liftIO (read_index_meta m)) (\<lambda>(table_id, mk).
     bindIO (FetchIndexColumnMetaSKVRecords env h coll table_id) (\<lambda>rs.
     bindIO (liftIO (read_index_columns rs)) (\<lambda>cs. returnIO (mk cs))))"

fun add_indexes :: "('q, 't, 'w) catalog_env \<Rightarrow> nat \<Rightarrow> string \<Rightarrow> cat_record list \<Rightarrow> TableInfo \<Rightarrow> (('t, 'w, 'z) cat_state_scheme, TableInfo) io" where
  "add_indexes env h coll [] t = returnIO t"
| "add_indexes env h coll (m # ms) t = bindIO (BuildIndexInfo env h coll m) (\<lambda>ix.
     add_indexes env h coll ms (add_secondary_index (ix_table_id ix) ix t))"

definition GetTable :: "('q, 't, 'w) catalog_env \<Rightarrow> nat \<Rightarrow> string \<Rightarrow> string \<Rightarrow> string \<Rightarrow> (('t, 'w, 'z) cat_state_scheme, TableInfo result) io" where
  "GetTable env h coll db_name table_id = catch_all (bindR (FetchTableMetaSKVRecord env h coll table_id) (\<lambda>m.
     bindIO (FetchTableColumnMetaSKVRecords env h coll table_id) (\<lambda>rs.
     bindIO (liftIO (BuildTableInfo coll db_name m rs)) (\<lambda>t.
     bindIO (FetchIndexMetaSKVRecords env h coll table_id) (\<lambda>ims.
     bindIO (add_indexes env h coll ims t) (\<lambda>t1. returnIO (Inr t1)))))))"

fun read_table_ids :: "bool \<Rightarrow> cat_record list \<Rightarrow> string list run" where
  "read_table_ids isSysTableIncluded [] = returnE []"
| "read_table_ids isSysTableIncluded (r # rs) =
    bindE (deserialize as_int64 0 r) (\<lambda>_. bindE (deserialize as_int64 1 r) (\<lambda>_. bindE (deserialize_value as_string 2 r) (\<lambda>table_id.
    bindE (deserialize as_string 3 r) (\<lambda>_. bindE (deserialize as_int64 4 r) (\<lambda>_. bindE (deserialize as_string 5 r) (\<lambda>_.
    bindE (deserialize_value as_bool 6 r) (\<lambda>is_sys_table. bindE (read_table_ids isSysTableIncluded rs) (\<lambda>ids.
      returnE (if isSysTableIncluded \<or> \<not> is_sys_table then table_id # ids else ids)))))))))"

definition ListTableIds :: "('q, 't, 'w) catalog_env \<Rightarrow> nat \<Rightarrow> string \<Rightarrow> bool \<Rightarrow> (('t, 'w, 'z) cat_state_scheme, string list result) io" where
  "ListTableIds env h coll isSysTableIncluded = catch_all (
    bindIO (callW (ce_createScanRead env coll skv_schema_name_table_meta)) (\<lambda>(c, q). unless2xx env c (
      let rng = buildRangeRecord coll skv_schema_name_table_meta oid_table_meta 0 None in
      scan_loop env h Inr fail_status
        (\<lambda>rs acc. liftIO (bindE (read_table_ids isSysTableIncluded rs) (\<lambda>ids. returnE (Inr (acc @ ids)))))
        (cq_setRange env rng rng (cq_setFilterExpression env (eq_filter ''IsIndex'' (L_bool False)) q)) [])))"

fun get_tables :: "('q, 't, 'w) catalog_env \<Rightarrow> nat \<Rightarrow> string \<Rightarrow> string \<Rightarrow> string list \<Rightarrow> (('t, 'w, 'z) cat_state_scheme, TableInfo list result) io" where
  "get_tables env h coll db_name [] = returnIO (Inr [])"
| "get_tables env h coll db_name (i # is) = bindR (GetTable env h coll db_name i) (\<lambda>t.
     bindR (get_tables env h coll db_name is) (\<lambda>ts. returnIO (Inr (t # ts))))"

definition ListTables :: "('q, 't, 'w) catalog_env \<Rightarrow> nat \<Rightarrow> string \<Rightarrow> string \<Rightarrow> bool \<Rightarrow> (('t, 'w, 'z) cat_state_scheme, TableInfo list result) io" where
  "ListTables env h coll db_name isSysTableIncluded = catch_all (
     bindR (ListTableIds env h coll isSysTableIncluded) (get_tables env h coll db_name))"

definition GetBaseTableId :: "('q, 't, 'w) catalog_env \<Rightarrow> nat \<Rightarrow> string \<Rightarrow> string \<Rightarrow> (('t, 'w, 'z) cat_state_scheme, string result) io" where
  "GetBaseTableId env h coll index_id = catch_all (bindR (FetchTableMetaSKVRecord env h coll index_id) (\<lambda>r. liftIO (
    bindE (deserialize as_int64 0 r) (\<lambda>_. bindE (deserialize as_int64 1 r) (\<lambda>_. bindE (deserialize as_string 2 r) (\<lambda>_.
    bindE (deserialize as_string 3 r) (\<lambda>_. bindE (deserialize as_int64 4 r) (\<lambda>_. bindE (deserialize as_string 5 r) (\<lambda>_.
    bindE (deserialize as_bool 6 r) (\<lambda>_. bindE (deserialize as_bool 7 r) (\<lambda>_. bindE (deserialize as_bool 8 r) (\<lambda>_.
    bindE (deserialize as_bool 9 r) (\<lambda>_. bindE (deserialize_value as_string 10 r) (\<lambda>b. returnE (Inr b)))))))))))))))"

text \<open>Whether the table is shared and whether it is an index.\<close>
definition GetTableTypeInfo :: "('q, 't, 'w) catalog_env \<Rightarrow> nat \<Rightarrow> string \<Rightarrow> string \<Rightarrow> (('t, 'w, 'z) cat_state_scheme, (bool \<times> bool) result) io" where
  "GetTableTypeInfo env h coll table_id = catch_all (bindR (FetchTableMetaSKVRecord env h coll table_id) (\<lambda>r. liftIO (
    bindE (deserialize as_int64 0 r) (\<lambda>_. bindE (deserialize as_int64 1 r) (\<lambda>_. bindE (deserialize as_string 2 r) (\<lambda>_.
    bindE (deserialize as_string 3 r) (\<lambda>_. bindE (deserialize as_int64 4 r) (\<lambda>_. bindE (deserialize as_string 5 r) (\<lambda>_.
    bindE (deserialize as_bool 6 r) (\<lambda>_. bindE (deserialize_value as_bool 7 r) (\<lambda>sh. bindE (deserialize_value as_bool 8 r) (\<lambda>ix.
      returnE (Inr (sh, ix))))))))))))))"

subsection \<open>Copying, deleting and creating\<close>

fun copy_records :: "('q, 't, 'w) catalog_env \<Rightarrow> nat \<Rightarrow> string \<Rightarrow> k2_schema \<Rightarrow> cat_record list \<Rightarrow> (('t, 'w, 'z) cat_state_scheme, unit result) io" where
  "copy_records env h coll target [] = returnIO (Inr ())"
| "copy_records env h coll target (r # rs) =
    bindIO (UpsertRecord env h (ce_cloneToOtherSchema env coll target r)) (\<lambda>c. unless2xx env c (copy_records env h coll target rs))"

definition CopySKVTable ::
  "('q, 't, 'w) catalog_env \<Rightarrow> nat \<Rightarrow> string \<Rightarrow> string \<Rightarrow> 32 word \<Rightarrow> nat \<Rightarrow> string \<Rightarrow> string \<Rightarrow> 32 word \<Rightarrow> oid \<Rightarrow> oid \<Rightarrow>
   (('t, 'w, 'z) cat_state_scheme, unit result) io" where
  "CopySKVTable env target_h target_coll target_schema target_version source_h source_coll source_schema source_version source_table_oid source_index_oid =
    bindIO (callW (ce_getSchema env target_coll target_schema target_version)) (\<lambda>(c, target). unless2xx env c (
    bindIO (callW (ce_getSchema env source_coll source_schema source_version)) (\<lambda>(c, source). unless2xx env c (
    bindIO (callW (ce_createScanRead env source_coll (ks_name source))) (\<lambda>(c, q). unless2xx env c (
      let rng = buildRangeRecord source_coll (ks_name source) source_table_oid source_index_oid None in
      scan_loop env source_h Inr fail_status (\<lambda>rs _. copy_records env target_h target_coll target rs) (cq_setRange env rng rng q) ()))))))"

text \<open>
  The indexes of a table that is not shared: the map from names to indexes holds the addresses of
  a loop variable, so an entry that is found is a dangling pointer and reading it has no meaning.
\<close>
fun copy_indexes :: "string list \<Rightarrow> (string \<times> IndexInfo) list \<Rightarrow> (('t, 'w, 'z) cat_state_scheme, unit result) io" where
  "copy_indexes target_names [] = returnIO (Inr ())"
| "copy_indexes target_names ((i, ix) # entries) =
    (if ix_is_shared ix then (\<lambda>s. None)
     else if ix_table_name ix \<notin> set target_names then returnIO (Inl kNotFound) else (\<lambda>s. None))"

definition CopyTable ::
  "('q, 't, 'w) catalog_env \<Rightarrow> nat \<Rightarrow> string \<Rightarrow> string \<Rightarrow> oid \<Rightarrow> nat \<Rightarrow> string \<Rightarrow> string \<Rightarrow> string \<Rightarrow>
   (('t, 'w, 'z) cat_state_scheme, TableInfo result) io" where
  "CopyTable env target_h target_coll target_db_name target_db_oid source_h source_coll source_db_name source_table_id = catch_all (
    bindR (GetTable env source_h source_coll source_db_name source_table_id) (\<lambda>source.
    let indexes = ce_indexes env (ti_index_map source);
        target = TableInfo_Clone indexes source target_coll target_db_name (GetTableUuid target_db_oid (ti_table_oid source)) (ti_table_name source) in
    bindR (CreateOrUpdateTable env target_h target_coll target) (\<lambda>_.
      if ti_is_shared_table source then
        (if \<forall>(i, ix) \<in> set indexes. ix_is_shared ix then returnIO (Inr target) else (\<lambda>s. None))
      else bindR (CopySKVTable env target_h target_coll (ti_table_id target) (schema_version (ti_schema target))
          source_h source_coll source_table_id (schema_version (ti_schema source)) (ti_table_oid source) 0) (\<lambda>_.
        bindR (copy_indexes (map (ix_table_name \<circ> snd) (ce_indexes env (ti_index_map target))) indexes) (\<lambda>_.
          returnIO (Inr target))))))"

definition DeleteIndexMetadata :: "('q, 't, 'w) catalog_env \<Rightarrow> nat \<Rightarrow> string \<Rightarrow> string \<Rightarrow> (('t, 'w, 'z) cat_state_scheme, unit result) io" where
  "DeleteIndexMetadata env h coll index_id = catch_all (
    bindIO (FetchIndexColumnMetaSKVRecords env h coll index_id) (\<lambda>rs.
    bindR (write_records env h True rs) (\<lambda>_.
    bindR (FetchTableMetaSKVRecord env h coll index_id) (\<lambda>m. write_then env h m True (returnIO (Inr ()))))))"

fun delete_indexes :: "('q, 't, 'w) catalog_env \<Rightarrow> nat \<Rightarrow> string \<Rightarrow> cat_record list \<Rightarrow> (('t, 'w, 'z) cat_state_scheme, unit result) io" where
  "delete_indexes env h coll [] = returnIO (Inr ())"
| "delete_indexes env h coll (r # rs) = bindIO (liftIO (
      bindE (deserialize as_int64 0 r) (\<lambda>_. bindE (deserialize as_int64 1 r) (\<lambda>_. deserialize_value as_string 2 r)))) (\<lambda>index_id.
    bindR (DeleteIndexMetadata env h coll index_id) (\<lambda>_. delete_indexes env h coll rs))"

definition DeleteTableMetadata :: "('q, 't, 'w) catalog_env \<Rightarrow> nat \<Rightarrow> string \<Rightarrow> TableInfo \<Rightarrow> (('t, 'w, 'z) cat_state_scheme, unit result) io" where
  "DeleteTableMetadata env h coll t = catch_all (
    bindIO (FetchIndexMetaSKVRecords env h coll (ti_table_id t)) (\<lambda>ims.
    bindR (delete_indexes env h coll ims) (\<lambda>_.
    bindIO (FetchTableColumnMetaSKVRecords env h coll (ti_table_id t)) (\<lambda>rs.
    bindR (write_records env h True rs) (\<lambda>_.
    bindR (FetchTableMetaSKVRecord env h coll (ti_table_id t)) (\<lambda>m. write_then env h m True (returnIO (Inr ()))))))))"

text \<open>The rows of a dropped table or index stay.\<close>
definition DeleteTableData :: "TableInfo \<Rightarrow> ('s, unit result) io" where
  "DeleteTableData t = returnIO (Inr ())"

definition DeleteIndexData :: "string \<Rightarrow> ('s, unit result) io" where
  "DeleteIndexData index_id = returnIO (Inr ())"

record CreateIndexTableParams =
  cip_index_name :: string
  cip_table_oid :: oid
  cip_index_schema :: Schema
  cip_is_unique :: bool
  cip_is_shared :: bool
  cip_is_not_exist :: bool
  cip_skip_index_backfill :: bool
  cip_index_permissions :: IndexPermissions

text \<open>The result is the index and the base table, which the function changes.\<close>
definition CreateIndexTable ::
  "('q, 't, 'w) catalog_env \<Rightarrow> nat \<Rightarrow> DatabaseInfo \<Rightarrow> TableInfo \<Rightarrow> CreateIndexTableParams \<Rightarrow>
   (('t, 'w, 'z) cat_state_scheme, (IndexInfo \<times> TableInfo) result) io" where
  "CreateIndexTable env h db base p = (case ti_index_map base (GetTableId (cip_table_oid p)) of
      Some ix \<Rightarrow> returnIO (if cip_is_not_exist p then Inr (ix, base) else Inl kAlreadyPresent)
    | None \<Rightarrow> catch_all (
        bindIO (liftIO (BuildIndexInfo_new base (db_database_id db) (cip_table_oid p)
          (GetTableUuid (db_database_oid db) (cip_table_oid p)) (cip_index_schema p) (cip_is_unique p) (cip_is_shared p)
          (cip_index_permissions p))) (\<lambda>ix.
        bindR (PersistIndexMeta env h (db_database_id db) base ix) (\<lambda>_.
        bindR (if is_on_physical_collection (db_database_id db) (ix_is_shared ix)
               then CreateIndexSKVSchema env (db_database_id db) ix else returnIO (Inr ())) (\<lambda>_.
          returnIO (Inr (ix, add_secondary_index (ix_table_id ix) ix base)))))))"

text \<open>The destructor of a handler at the end of its scope, on every way out.\<close>
definition scoped :: "('q, 't, 'w) catalog_env \<Rightarrow> nat \<Rightarrow> (('t, 'w, 'z) cat_state_scheme, 'a) io \<Rightarrow> (('t, 'w, 'z) cat_state_scheme, 'a) io" where
  "scoped env h m s = (case m s of None \<Rightarrow> None | Some (r, s1) \<Rightarrow>
     (case txn_op h (destroy (ce_adapter env)) s1 of None \<Rightarrow> None | Some (_, s2) \<Rightarrow> Some (r, s2)))"

text \<open>The status of ending a transaction is not looked at; its exception goes on.\<close>
definition abort_with :: "('q, 't, 'w) catalog_env \<Rightarrow> nat \<Rightarrow> 'a \<Rightarrow> (('t, 'w, 'z) cat_state_scheme, 'a) io" where
  "abort_with env h r = bindIO (txn_op h (AbortTransaction (ce_adapter env))) (\<lambda>_. returnIO r)"

definition commit_with :: "('q, 't, 'w) catalog_env \<Rightarrow> nat \<Rightarrow> 'a \<Rightarrow> (('t, 'w, 'z) cat_state_scheme, 'a) io" where
  "commit_with env h r = bindIO (txn_op h (CommitTransaction (ce_adapter env))) (\<lambda>_. returnIO r)"

text \<open>A failed step aborts the transaction.\<close>
definition or_abort :: "('q, 't, 'w) catalog_env \<Rightarrow> nat \<Rightarrow> (('t, 'w, 'z) cat_state_scheme, 'a result) io \<Rightarrow>
    ('a \<Rightarrow> (('t, 'w, 'z) cat_state_scheme, 'b result) io) \<Rightarrow> (('t, 'w, 'z) cat_state_scheme, 'b result) io" where
  "or_abort env h m f = bindIO m (\<lambda>r. case r of Inl c \<Rightarrow> abort_with env h (Inl c) | Inr x \<Rightarrow> f x)"

text \<open>The part of the function after the transaction has been chosen; the database may be a null pointer.\<close>
definition get_table_schema ::
  "('q, 't, 'w) catalog_env \<Rightarrow> nat \<Rightarrow> string \<Rightarrow> DatabaseInfo option \<Rightarrow> string \<Rightarrow> bool \<Rightarrow> IndexInfo option \<Rightarrow>
   (('t, 'w, 'z) cat_state_scheme, TableInfo result) io" where
  "get_table_schema env h coll db table_id is_index index_info = (
    let read = (\<lambda>i. case db of None \<Rightarrow> (\<lambda>s. None) | Some d \<Rightarrow>
          or_abort env h (GetTable env h coll (db_database_name d) i) (\<lambda>t. commit_with env h (Inr t))) in
    if \<not> is_index then read table_id
    else or_abort env h (case index_info of None \<Rightarrow> GetBaseTableId env h coll table_id | Some ix \<Rightarrow> returnIO (Inr (ix_base_table_id ix))) (\<lambda>b.
      if b = [] then abort_with env h (Inl kNotFound) else read b))"

definition GetTableSchema_stored ::
  "('q, 't, 'w) catalog_env \<Rightarrow> (string \<Rightarrow> (('t, 'w, 'z) cat_state_scheme, DatabaseInfo option) io) \<Rightarrow> (('t, 'w, 'z) cat_state_scheme, nat) io \<Rightarrow>
   nat \<Rightarrow> DatabaseInfo \<Rightarrow> string \<Rightarrow> IndexInfo option \<Rightarrow> (('t, 'w, 'z) cat_state_scheme, TableInfo result) io" where
  "GetTableSchema_stored env fnc_db fnc_tx h db table_id index_info =
    or_abort env h (GetTableTypeInfo env h (db_database_id db) table_id) (\<lambda>(is_shared, is_index).
      let coll = physical_collection (db_database_id db) is_shared in
      if is_shared \<and> coll \<noteq> db_database_id db then
        bindIO (txn_op h (CommitTransaction (ce_adapter env))) (\<lambda>_.
        bindIO (fnc_db coll) (\<lambda>local_db.
        bindIO fnc_tx (\<lambda>h1. scoped env h1 (get_table_schema env h1 coll local_db table_id is_index index_info))))
      else get_table_schema env h coll (Some db) table_id is_index index_info)"

subsection \<open>What the storage promises for the meta tables\<close>

text \<open>
  The three meta tables as lists of rows.  A row belongs to a group, its identifiers and the id of
  its table; the rows of one group differ in the number of the column.
\<close>
definition row_group :: "cat_record \<Rightarrow> string \<times> string \<times> field option list" where
  "row_group r = (cr_collection r, cr_schema r, take 3 (cr_fields r))"

definition row_number :: "cat_record \<Rightarrow> int" where
  "row_number r = (if cr_schema r = skv_schema_name_table_meta then 0
     else case cr_fields r ! 3 of Some (F_int32 i) \<Rightarrow> sint i | _ \<Rightarrow> 0)"

definition same_key :: "cat_record \<Rightarrow> cat_record \<Rightarrow> bool" where
  "same_key a b = (row_group a = row_group b \<and> row_number a = row_number b)"

definition meta_schema :: "string \<Rightarrow> k2_schema" where
  "meta_schema n = (if n = skv_schema_name_table_meta then skv_schema_table_meta
     else if n = skv_schema_name_tablecolumn_meta then skv_schema_tablecolumn_meta else skv_schema_indexcolumn_meta)"

definition field_named :: "string \<Rightarrow> cat_record \<Rightarrow> field option" where
  "field_named n r = (case map_of (zip (map sf_name (ks_fields (meta_schema (cr_schema r)))) (cr_fields r)) n of
     None \<Rightarrow> None | Some f \<Rightarrow> f)"

text \<open>A scan from a record to itself covers the rows that begin with its fields.\<close>
definition in_range :: "cat_record \<Rightarrow> cat_record \<Rightarrow> bool" where
  "in_range rng r = (cr_collection r = cr_collection rng \<and> cr_schema r = cr_schema rng
     \<and> take (length (cr_fields rng)) (cr_fields r) = cr_fields rng)"

text \<open>
  How the storage is seen: its rows, the rows that a query has still to deliver, and the pages that
  are left; \<open>mv_inv\<close> holds in the states of the storage.
\<close>
record ('q, 'w) meta_view =
  mv_rows :: "'w \<Rightarrow> cat_record list"
  mv_todo :: "'q \<Rightarrow> 'w \<Rightarrow> cat_record list"
  mv_left :: "'q \<Rightarrow> 'w \<Rightarrow> nat"
  mv_inv :: "'w \<Rightarrow> bool"

definition row_before :: "cat_record \<Rightarrow> cat_record \<Rightarrow> bool" where
  "row_before a b = (row_group a = row_group b \<longrightarrow> row_number a < row_number b)"

text \<open>Rows of the meta tables; a column has a number.\<close>
definition is_meta_row :: "cat_record \<Rightarrow> bool" where
  "is_meta_row r = (cr_schema r = skv_schema_name_table_meta
     \<or> cr_schema r \<in> {skv_schema_name_tablecolumn_meta, skv_schema_name_indexcolumn_meta}
       \<and> length (cr_fields r) > 3 \<and> (case cr_fields r ! 3 of Some (F_int32 i) \<Rightarrow> True | _ \<Rightarrow> False))"

definition upsert_law :: "('q, 't, 'w) catalog_env \<Rightarrow> ('q, 'w) meta_view \<Rightarrow> bool" where
  "upsert_law env v = (\<forall>t r w. mv_inv v w \<longrightarrow> is_meta_row r \<longrightarrow> (\<exists>w1. ce_write env t r False w = (Inr 200, w1) \<and> mv_inv v w1
     \<and> set (mv_rows v w1) = insert r {x \<in> set (mv_rows v w). \<not> same_key x r}))"

definition read_law :: "('q, 't, 'w) catalog_env \<Rightarrow> ('q, 'w) meta_view \<Rightarrow> bool" where
  "read_law env v = (\<forall>t i coll r w. mv_inv v w \<longrightarrow> r \<in> set (mv_rows v w) \<longrightarrow>
     in_range (buildRangeRecord coll skv_schema_name_table_meta oid_table_meta 0 (Some i)) r \<longrightarrow>
     ce_read env t (buildRangeRecord coll skv_schema_name_table_meta oid_table_meta 0 (Some i)) w = (Inr (200, r), w))"

text \<open>A new query with a comparison and a range delivers the rows of the range with the value, in the order of the keys.\<close>
definition query_law :: "('q, 't, 'w) catalog_env \<Rightarrow> ('q, 'w) meta_view \<Rightarrow> bool" where
  "query_law env v = (\<forall>coll sc w. \<exists>q. ce_createScanRead env coll sc w = (Inr (200, q), w)
     \<and> (\<forall>name x oid i w. mv_todo v (let rng = buildRangeRecord coll sc oid 0 i in
           cq_setRange env rng rng (cq_setFilterExpression env (eq_filter name (L_string x)) q)) w
         = filter (\<lambda>r. in_range (buildRangeRecord coll sc oid 0 i) r \<and> field_named name r = Some (F_string x)) (mv_rows v w)))"

definition page_law :: "('q, 't, 'w) catalog_env \<Rightarrow> ('q, 'w) meta_view \<Rightarrow> bool" where
  "page_law env v = (\<forall>t q w. mv_inv v w \<longrightarrow> (\<exists>rs q1. ce_scanRead env t q w = (Inr (200, rs, q1), w)
     \<and> mv_todo v q w = rs @ (if cq_isDone env q1 then [] else mv_todo v q1 w)
     \<and> (\<not> cq_isDone env q1 \<longrightarrow> mv_left v q1 w < mv_left v q w)))"

definition meta_laws :: "('q, 't, 'w) catalog_env \<Rightarrow> ('q, 'w) meta_view \<Rightarrow> bool" where
  "meta_laws env v = (ce_is2xxOK env 200 \<and> upsert_law env v \<and> read_law env v \<and> query_law env v \<and> page_law env v
     \<and> (\<forall>w. mv_inv v w \<longrightarrow> sorted_wrt row_before (mv_rows v w)))"

text \<open>A handler whose transaction runs.\<close>
definition open_txn :: "nat \<Rightarrow> 't \<Rightarrow> ('t, 'w, 'z) cat_state_scheme \<Rightarrow> bool" where
  "open_txn h t s = (h < length (cs_handlers s) \<and> txn (cs_handlers s ! h) = Some t \<and> txn_in_progress (cs_handlers s ! h))"

lemma open_txn_world [simp]: "open_txn h t (s\<lparr>cs_world := w\<rparr>) = open_txn h t s"
  by (simp add: open_txn_def)

lemma getTxn_open: "open_txn h t s \<Longrightarrow> getTxn env h s = Some (Inr t, s)"
  by (simp add: open_txn_def getTxn_def txn_op_def GetTxn_def bindIO_def)

lemma cat_state_same [simp]: "s\<lparr>cs_world := cs_world s\<rparr> = (s :: ('t, 'w, 'z) cat_state_scheme)"
  by simp

lemmas catalog_steps = bindIO_def returnIO_def throwIO_def liftIO_def callW_def bindR_def catch_all_def catchIO_def unless2xx_def

lemma ScanRead_open:
  assumes "page_law env v" "open_txn h t s" "mv_inv v (cs_world s)"
  shows "\<exists>rs q1. ScanRead env h q s = Some (Inr (200, rs, q1), s)
    \<and> mv_todo v q (cs_world s) = rs @ (if cq_isDone env q1 then [] else mv_todo v q1 (cs_world s))
    \<and> (\<not> cq_isDone env q1 \<longrightarrow> mv_left v q1 (cs_world s) < mv_left v q (cs_world s))"
proof -
  obtain rs q1 where "ce_scanRead env t q (cs_world s) = (Inr (200, rs, q1), cs_world s)"
      "mv_todo v q (cs_world s) = rs @ (if cq_isDone env q1 then [] else mv_todo v q1 (cs_world s))"
      "\<not> cq_isDone env q1 \<longrightarrow> mv_left v q1 (cs_world s) < mv_left v q (cs_world s)"
    using assms(1) [unfolded page_law_def, rule_format, OF assms(3), of t q] by blast
  then show ?thesis
    by (intro exI [of _ rs] exI [of _ q1]) (simp add: ScanRead_def bindIO_def getTxn_open [OF assms(2)] callW_def)
qed

text \<open>The loop gathers what the query has to deliver, and ends.\<close>
lemma scan_loop_all:
  assumes "page_law env v" "ce_is2xxOK env 200" "open_txn h t s" "mv_inv v (cs_world s)"
  shows "scan_loop env h Inr on_fail (\<lambda>rs acc. returnIO (Inr (acc @ rs))) q acc s
    = Some (Inr (Inr (acc @ mv_todo v q (cs_world s))), s)"
proof (induction "mv_left v q (cs_world s)" arbitrary: q acc rule: less_induct)
  case less
  obtain rs q1 where r: "ScanRead env h q s = Some (Inr (200, rs, q1), s)"
      "mv_todo v q (cs_world s) = rs @ (if cq_isDone env q1 then [] else mv_todo v q1 (cs_world s))"
      "\<not> cq_isDone env q1 \<longrightarrow> mv_left v q1 (cs_world s) < mv_left v q (cs_world s)"
    using ScanRead_open [OF assms(1,3,4)] by blast
  show ?case using less [of q1 "acc @ rs"] r assms(2)
    by (subst scan_loop.simps) (auto simp: returnIO_def)
qed

lemma fetch_records_all:
  assumes laws: "meta_laws env v" and s: "open_txn h t s" "mv_inv v (cs_world s)"
  shows "fetch_records env h coll sc (eq_filter name (L_string x)) (buildRangeRecord coll sc oid 0 i) s
    = Some (Inr (filter (\<lambda>r. in_range (buildRangeRecord coll sc oid 0 i) r \<and> field_named name r = Some (F_string x))
        (mv_rows v (cs_world s))), s)"
proof -
  have ok: "ce_is2xxOK env 200" and pages: "page_law env v" and q: "query_law env v" using laws by (simp_all add: meta_laws_def)
  let ?q = "\<lambda>q. let rng = buildRangeRecord coll sc oid 0 i in
           cq_setRange env rng rng (cq_setFilterExpression env (eq_filter name (L_string x)) q)"
  obtain q where q: "ce_createScanRead env coll sc (cs_world s) = (Inr (200, q), cs_world s)"
      "mv_todo v (?q q) (cs_world s) = filter (\<lambda>r. in_range (buildRangeRecord coll sc oid 0 i) r \<and> field_named name r = Some (F_string x))
        (mv_rows v (cs_world s))"
    using q [unfolded query_law_def, rule_format, of coll sc "cs_world s"] by blast
  show ?thesis using q ok scan_loop_all [OF pages ok s, of _ "?q q" "[]"]
    by (simp add: fetch_records_def catalog_steps Let_def)
qed

lemma FetchTableMeta_row:
  assumes "meta_laws env v" "open_txn h t s" "mv_inv v (cs_world s)" "r \<in> set (mv_rows v (cs_world s))"
    "in_range (buildRangeRecord coll skv_schema_name_table_meta oid_table_meta 0 (Some i)) r"
  shows "FetchTableMetaSKVRecord env h coll i s = Some (Inr (Inr r), s)"
  using assms(1) [unfolded meta_laws_def read_law_def] assms(3-5)
  by (simp add: FetchTableMetaSKVRecord_def ReadRecord_def catalog_steps getTxn_open [OF assms(2)])

lemma sorted_by_number_unique:
  "sorted_wrt (\<lambda>a b. f a < (f b :: int)) xs \<Longrightarrow> sorted_wrt (\<lambda>a b. f a < f b) ys \<Longrightarrow> set xs = set ys \<Longrightarrow> xs = ys"
proof (induction xs arbitrary: ys)
  case (Cons x xs)
  then obtain y ys' where ys: "ys = y # ys'" by (cases ys) auto
  have "x = y"
  proof (rule ccontr)
    assume "x \<noteq> y"
    with Cons.prems ys have "x \<in> set ys'" "y \<in> set xs" by auto
    with Cons.prems ys show False by fastforce
  qed
  moreover from this Cons.prems ys have "set xs = set ys'" by fastforce
  ultimately show ?case using Cons.IH [of ys'] Cons.prems ys by simp
qed simp

lemma group_rows_unique:
  assumes "sorted_wrt row_before xs" "sorted_wrt (\<lambda>a b. row_number a < row_number b) ys" "set xs = set ys" "\<forall>x \<in> set ys. row_group x = g"
  shows "xs = ys"
proof -
  have "sorted_wrt (\<lambda>a b. row_number a < row_number b) xs"
    by (rule sorted_wrt_mono_rel [OF _ assms(1)]) (use assms(3,4) in \<open>auto simp: row_before_def\<close>)
  then show ?thesis using assms(2,3) by (rule sorted_by_number_unique)
qed

text \<open>The rows after a list of writes with different keys.\<close>
definition overwrite :: "cat_record list \<Rightarrow> cat_record set \<Rightarrow> cat_record set" where
  "overwrite rs R = set rs \<union> {x \<in> R. \<forall>r \<in> set rs. \<not> same_key x r}"

abbreviation different_keys :: "cat_record list \<Rightarrow> bool" where
  "different_keys \<equiv> sorted_wrt (\<lambda>a b. \<not> same_key a b)"

lemma overwrite_append: "different_keys (rs @ ss) \<Longrightarrow> overwrite ss (overwrite rs R) = overwrite (rs @ ss) R"
  by (auto simp: overwrite_def sorted_wrt_append)

text \<open>A computation that stores rows and succeeds.\<close>
definition stores :: "('q, 'w) meta_view \<Rightarrow> cat_record list \<Rightarrow> (('t, 'w, 'z) cat_state_scheme, unit result) io \<Rightarrow> nat \<Rightarrow> 't \<Rightarrow> bool" where
  "stores v rs m h t = (\<forall>s. open_txn h t s \<longrightarrow> mv_inv v (cs_world s) \<longrightarrow> (\<exists>w. m s = Some (Inr (Inr ()), s\<lparr>cs_world := w\<rparr>)
     \<and> mv_inv v w \<and> set (mv_rows v w) = overwrite rs (set (mv_rows v (cs_world s)))))"

lemma stores_nothing: "stores (v :: ('q, 'w) meta_view) [] (returnIO (Inr ()) :: (('t, 'w, 'z) cat_state_scheme, unit result) io) h t"
  unfolding stores_def returnIO_def
proof (intro allI impI)
  fix s :: "('t, 'w, 'z) cat_state_scheme"
  assume "mv_inv v (cs_world s)"
  then show "\<exists>w. Some (Inr (Inr ()), s) = Some (Inr (Inr ()), s\<lparr>cs_world := w\<rparr>)
     \<and> mv_inv v w \<and> set (mv_rows v w) = overwrite [] (set (mv_rows v (cs_world s)))"
    by (intro exI [of _ "cs_world s"]) (simp add: overwrite_def)
qed

lemma stores_catch: "stores v rs m h t \<Longrightarrow> stores v rs (catch_all m) h t"
  by (fastforce simp: stores_def catch_all_def catchIO_def)

lemma stores_bind:
  fixes m n :: "(('t, 'w, 'z) cat_state_scheme, unit result) io"
  assumes "stores v rs m h t" "stores v ss n h t" "different_keys (rs @ ss)"
  shows "stores v (rs @ ss) (bindR m (\<lambda>_. n)) h t"
  unfolding stores_def
proof (intro allI impI)
  fix s :: "('t, 'w, 'z) cat_state_scheme"
  assume s: "open_txn h t s" "mv_inv v (cs_world s)"
  obtain w where w: "m s = Some (Inr (Inr ()), s\<lparr>cs_world := w\<rparr>)" "mv_inv v w"
      "set (mv_rows v w) = overwrite rs (set (mv_rows v (cs_world s)))"
    using assms(1) s unfolding stores_def by blast
  obtain w2 where "n (s\<lparr>cs_world := w\<rparr>) = Some (Inr (Inr ()), s\<lparr>cs_world := w\<rparr>\<lparr>cs_world := w2\<rparr>)" "mv_inv v w2"
      "set (mv_rows v w2) = overwrite ss (set (mv_rows v w))"
    using assms(2) [unfolded stores_def, rule_format, of "s\<lparr>cs_world := w\<rparr>"] s(1) w(2) by auto
  then show "\<exists>w. bindR m (\<lambda>_. n) s = Some (Inr (Inr ()), s\<lparr>cs_world := w\<rparr>) \<and> mv_inv v w
      \<and> set (mv_rows v w) = overwrite (rs @ ss) (set (mv_rows v (cs_world s)))"
    using w overwrite_append [OF assms(3)] by (intro exI [of _ w2]) (simp add: bindR_def bindIO_def)
qed

lemma write_then_eq: "write_then env h r d m = bindR (write_then env h r d (returnIO (Inr ()))) (\<lambda>_. m)"
  by (rule ext) (auto simp: write_then_def catalog_steps split: option.splits sum.splits prod.splits)

lemma stores_one:
  assumes "meta_laws env v" "is_meta_row r"
  shows "stores v [r] (write_then env h r False (returnIO (Inr ())) :: (('t, 'w, 'z) cat_state_scheme, unit result) io) h t"
  unfolding stores_def
proof (intro allI impI)
  fix s :: "('t, 'w, 'z) cat_state_scheme"
  assume s: "open_txn h t s" "mv_inv v (cs_world s)"
  obtain w where w: "ce_write env t r False (cs_world s) = (Inr 200, w)" "mv_inv v w"
      "set (mv_rows v w) = insert r {x \<in> set (mv_rows v (cs_world s)). \<not> same_key x r}"
    using assms s(2) unfolding meta_laws_def upsert_law_def by blast
  then show "\<exists>w. write_then env h r False (returnIO (Inr ())) s = Some (Inr (Inr ()), s\<lparr>cs_world := w\<rparr>) \<and> mv_inv v w
      \<and> set (mv_rows v w) = overwrite [r] (set (mv_rows v (cs_world s)))"
    using assms(1) by (intro exI [of _ w])
      (simp add: write_then_def WriteRecord_def catalog_steps getTxn_open [OF s(1)] overwrite_def meta_laws_def)
qed

lemma stores_then:
  assumes "meta_laws env v" "is_meta_row r" "stores v rs m h t" "different_keys (r # rs)"
  shows "stores v (r # rs) (write_then env h r False m) h t"
  using stores_bind [OF stores_one [OF assms(1,2)] assms(3)] assms(4) by (subst write_then_eq) simp

lemma stores_records:
  "meta_laws env v \<Longrightarrow> list_all is_meta_row rs \<Longrightarrow> different_keys rs \<Longrightarrow> stores v rs (write_records env h False rs) h t"
  by (induction rs) (auto intro: stores_nothing stores_then)

subsection \<open>A table in the meta tables\<close>

definition index_rows :: "string \<Rightarrow> TableInfo \<Rightarrow> IndexInfo \<Rightarrow> cat_record list" where
  "index_rows coll t ix = DeriveTableMetaRecordOfIndex coll ix (ti_is_sys_table t) (ti_next_column_id t) # DeriveIndexColumnMetaRecords coll ix"

definition row_id :: "cat_record \<Rightarrow> field option" where
  "row_id r = cr_fields r ! 2"

lemma row_id_key: "length (cr_fields a) > 2 \<Longrightarrow> length (cr_fields b) > 2 \<Longrightarrow> row_id a \<noteq> row_id b \<Longrightarrow> \<not> same_key a b"
  using nth_take [of 2 3 "cr_fields a"] nth_take [of 2 3 "cr_fields b"]
  unfolding same_key_def row_group_def row_id_def by (metis lessI numeral_2_eq_2 numeral_3_eq_3 prod.inject)

lemma different_keys_concat:
  assumes "\<And>e r. e \<in> set es \<Longrightarrow> r \<in> set (f e) \<Longrightarrow> row_id r = Some (F_string (g e)) \<and> length (cr_fields r) > 2"
    and "distinct (map g es)" "\<And>e. e \<in> set es \<Longrightarrow> different_keys (f e)"
  shows "different_keys (concat (map f es))"
  using assms
proof (induction es)
  case (Cons e es)
  have "\<not> same_key a b" if "a \<in> set (f e)" "e' \<in> set es" "b \<in> set (f e')" for a b e'
    using Cons.prems(1) [of e a] Cons.prems(1) [of e' b] that Cons.prems(2) by (intro row_id_key) auto
  moreover have "different_keys (concat (map f es))"
    using Cons.prems(2) by (intro Cons.IH Cons.prems(1) Cons.prems(3)) simp_all
  ultimately show ?case using Cons.prems(3) [of e] by (auto simp: sorted_wrt_append)
qed simp

text \<open>An index of a table as the catalog makes it, with its columns in the order of their numbers.\<close>
definition index_ok :: "TableInfo \<Rightarrow> string \<times> IndexInfo \<Rightarrow> bool" where
  "index_ok t e = (\<exists>name toid uuid ver uniq shared cols perm.
     e = (GetTableId toid, IndexInfo_make name toid uuid (ti_table_id t) ver uniq shared cols perm)
     \<and> list_all index_column_ok cols \<and> sorted_wrt (\<lambda>a b. ic_column_id a < ic_column_id b) cols)"

lemma index_okD:
  assumes "index_ok t (i, ix)"
  shows "ix_table_id ix = i" "list_all index_column_ok (ix_columns ix)" "ix_base_table_id ix = ti_table_id t"
    "sorted_wrt (\<lambda>a b. ic_column_id a < ic_column_id b) (ix_columns ix)"
    "\<exists>mk. read_index_meta (DeriveTableMetaRecordOfIndex coll ix sys n) = returnE (i, mk) \<and> mk (ix_columns ix) = ix"
proof -
  obtain name toid uuid ver uniq shared cols perm where
    e: "i = GetTableId toid" "ix = IndexInfo_make name toid uuid (ti_table_id t) ver uniq shared cols perm"
      "list_all index_column_ok cols" "sorted_wrt (\<lambda>a b. ic_column_id a < ic_column_id b) cols"
    using assms unfolding index_ok_def by blast
  then have c: "ix_columns ix = cols" and id: "ix_table_id ix = i" by (simp_all add: IndexInfo_make_def IndexInfo_full_def split: prod.splits)
  then show "ix_table_id ix = i" "list_all index_column_ok (ix_columns ix)" "ix_base_table_id ix = ti_table_id t"
    "sorted_wrt (\<lambda>a b. ic_column_id a < ic_column_id b) (ix_columns ix)"
    using e by (simp_all add: IndexInfo_make_def IndexInfo_full_def split: prod.splits)
  show "\<exists>mk. read_index_meta (DeriveTableMetaRecordOfIndex coll ix sys n) = returnE (i, mk) \<and> mk (ix_columns ix) = ix"
    using read_index_meta_record [OF e(2)] unfolding c id .
qed

lemma names_differ [simp]:
  "skv_schema_name_tablecolumn_meta \<noteq> skv_schema_name_table_meta" "skv_schema_name_indexcolumn_meta \<noteq> skv_schema_name_table_meta"
  "skv_schema_name_indexcolumn_meta \<noteq> skv_schema_name_tablecolumn_meta" "skv_schema_name_table_meta \<noteq> skv_schema_name_tablecolumn_meta"
  "skv_schema_name_table_meta \<noteq> skv_schema_name_indexcolumn_meta" "skv_schema_name_tablecolumn_meta \<noteq> skv_schema_name_indexcolumn_meta"
  by (simp_all add: skv_schema_name_tablecolumn_meta_def skv_schema_name_table_meta_def skv_schema_name_indexcolumn_meta_def)

lemmas row_defs = DeriveTableMetaRecord_def DeriveTableMetaRecordOfIndex_def table_column_record_def index_column_record_def
  row_group_def row_number_def row_id_def is_meta_row_def

lemma take3 [simp]: "take 3 (a # b # c # ds) = [a, b, c]"
  by (simp add: numeral_3_eq_3)

lemma index_column_number: "index_column_ok c \<Longrightarrow> row_number (index_column_record coll i c) = ic_column_id c"
  by (simp add: row_defs index_column_ok_def)

lemma table_column_number: "column_ok (k, c) \<Longrightarrow> row_number (table_column_record coll i k c) = k"
  by (simp add: row_defs column_ok_def)

lemma index_rows_sorted:
  "list_all index_column_ok cols \<Longrightarrow> sorted_wrt (\<lambda>a b. ic_column_id a < ic_column_id b) cols \<Longrightarrow>
    sorted_wrt (\<lambda>a b. row_number a < row_number b) (map (index_column_record coll i) cols)"
  by (auto simp: sorted_wrt_map index_column_number list_all_iff intro: sorted_wrt_mono_rel [rotated])

lemma table_rows_sorted:
  assumes "list_all column_ok ics" "sorted_wrt (<) (map fst ics)"
  shows "sorted_wrt (\<lambda>a b. row_number a < row_number b) (map (\<lambda>(k, c). table_column_record coll i k c) ics)"
  using assms by (auto simp: sorted_wrt_map table_column_number list_all_iff split_beta intro: sorted_wrt_mono_rel [rotated])

lemma numbers_different: "sorted_wrt (\<lambda>a b. row_number a < row_number b) rs \<Longrightarrow> different_keys rs"
  by (erule sorted_wrt_mono_rel [rotated]) (simp add: same_key_def)

lemma index_rows_props:
  assumes "index_ok t (i, ix)"
  shows "list_all is_meta_row (index_rows coll t ix)" "different_keys (index_rows coll t ix)"
    "r \<in> set (index_rows coll t ix) \<Longrightarrow> row_id r = Some (F_string i) \<and> length (cr_fields r) > 2"
  using index_okD [OF assms] numbers_different [OF index_rows_sorted [of "ix_columns ix" coll i]]
  by (auto simp: index_rows_def DeriveIndexColumnMetaRecords_def list_all_iff same_key_def row_defs)

lemma PersistIndexMeta_stores:
  assumes "meta_laws env v" "index_ok t (i, ix)"
  shows "stores v (index_rows coll t ix) (PersistIndexMeta env h coll t ix) h tx"
  using stores_records [OF assms(1) index_rows_props(1,2) [OF assms(2)]]
  unfolding PersistIndexMeta_def index_rows_def write_records.simps by (rule stores_catch)

abbreviation indexes_rows :: "string \<Rightarrow> TableInfo \<Rightarrow> (string \<times> IndexInfo) list \<Rightarrow> cat_record list" where
  "indexes_rows coll t es \<equiv> concat (map (\<lambda>e. index_rows coll t (snd e)) es)"

lemma indexes_rows_props:
  assumes "list_all (index_ok t) es" "distinct (map fst es)"
  shows "list_all is_meta_row (indexes_rows coll t es)" "different_keys (indexes_rows coll t es)"
    "r \<in> set (indexes_rows coll t es) \<Longrightarrow> row_id r \<in> (Some \<circ> F_string) ` fst ` set es \<and> length (cr_fields r) > 2"
proof -
  show "different_keys (indexes_rows coll t es)"
    by (rule different_keys_concat [where g = fst]) (use assms index_rows_props in \<open>auto simp: list_all_iff\<close>)
  show "list_all is_meta_row (indexes_rows coll t es)"
    using assms(1) index_rows_props(1) by (auto simp: list_all_iff)
  assume "r \<in> set (indexes_rows coll t es)"
  then obtain i ix where e: "(i, ix) \<in> set es" "r \<in> set (index_rows coll t ix)" by auto
  then have "index_ok t (i, ix)" using assms(1) by (auto simp: list_all_iff)
  from index_rows_props(3) [OF this e(2)] e(1) show "row_id r \<in> (Some \<circ> F_string) ` fst ` set es \<and> length (cr_fields r) > 2"
    by force
qed

lemma persist_indexes_stores:
  assumes "meta_laws env v"
  shows "list_all (index_ok t) es \<Longrightarrow> distinct (map fst es) \<Longrightarrow>
    stores v (indexes_rows coll t es) (persist_indexes env h coll t es) h tx"
proof (induction es)
  case (Cons e es)
  obtain i ix where e: "e = (i, ix)" by (cases e)
  show ?case using Cons stores_bind [OF PersistIndexMeta_stores [OF assms, of t i ix], of "indexes_rows coll t es"]
      indexes_rows_props(2) [OF Cons.prems, of coll] by (simp add: e)
qed (simp add: stores_nothing)

definition column_rows :: "string \<Rightarrow> TableInfo \<Rightarrow> cat_record list" where
  "column_rows coll t = map (\<lambda>(k, c). table_column_record coll (ti_table_id t) k c) (zip (col_ids (ti_schema t)) (schema_cols (ti_schema t)))"

definition table_rows :: "string \<Rightarrow> TableInfo \<Rightarrow> (string \<times> IndexInfo) list \<Rightarrow> cat_record list" where
  "table_rows coll t es = DeriveTableMetaRecord coll t
     # column_rows coll t
     @ indexes_rows coll t es"

text \<open>A table whose columns have ascending numbers, with its indexes under different ids.\<close>
definition storable :: "TableInfo \<Rightarrow> (string \<times> IndexInfo) list \<Rightarrow> bool" where
  "storable t es = (table_ok t \<and> sorted_wrt (<) (col_ids (ti_schema t)) \<and> map_of es = ti_index_map t
     \<and> list_all (index_ok t) es \<and> distinct (ti_table_id t # map fst es))"

text \<open>No row of the collection has one of the ids of the table, or the table as its base table.\<close>
definition unused_ids :: "string \<Rightarrow> TableInfo \<Rightarrow> (string \<times> IndexInfo) list \<Rightarrow> cat_record list \<Rightarrow> bool" where
  "unused_ids coll t es rows = list_all (\<lambda>r. cr_collection r = coll \<longrightarrow>
     row_id r \<notin> set (map (Some \<circ> F_string) (ti_table_id t # map fst es))
     \<and> field_named BASE_TABLE_ID_COLUMN_NAME r \<noteq> Some (F_string (ti_table_id t))) rows"

lemma bind_known: "bindIO (liftIO (liftC (Some x))) f = f x"
  by (rule ext) (simp add: bindIO_def liftIO_def returnE_def)

lemma table_okD:
  assumes "table_ok t"
  shows "list_all column_ok (zip (col_ids (ti_schema t)) (schema_cols (ti_schema t)))"
    "length (col_ids (ti_schema t)) = length (schema_cols (ti_schema t))"
  using assms by (auto simp: table_ok_def)

lemma column_rows_props:
  assumes "storable t es"
  shows "sorted_wrt (\<lambda>a b. row_number a < row_number b) (column_rows coll t)" "list_all is_meta_row (column_rows coll t)"
    "r \<in> set (column_rows coll t) \<Longrightarrow> row_id r = Some (F_string (ti_table_id t)) \<and> length (cr_fields r) > 2 \<and> cr_schema r = skv_schema_name_tablecolumn_meta"
    "DeriveTableColumnMetaRecords coll t = Some (column_rows coll t)"
proof -
  have t: "table_ok t" "sorted_wrt (<) (col_ids (ti_schema t))" using assms by (simp_all add: storable_def)
  show "sorted_wrt (\<lambda>a b. row_number a < row_number b) (column_rows coll t)"
    unfolding column_rows_def using t(2) table_okD [OF t(1)] by (intro table_rows_sorted) simp_all
  show "list_all is_meta_row (column_rows coll t)"
    by (auto simp: column_rows_def list_all_iff row_defs)
  show "DeriveTableColumnMetaRecords coll t = Some (column_rows coll t)"
    using table_okD [OF t(1)] by (simp add: DeriveTableColumnMetaRecords_def column_rows_def Let_def)
  show "row_id r = Some (F_string (ti_table_id t)) \<and> length (cr_fields r) > 2 \<and> cr_schema r = skv_schema_name_tablecolumn_meta"
    if "r \<in> set (column_rows coll t)"
    using that by (auto simp: column_rows_def row_defs)
qed

lemma table_rows_props:
  assumes "storable t es"
  shows "list_all is_meta_row (table_rows coll t es)" "different_keys (table_rows coll t es)"
proof -
  let ?m = "DeriveTableMetaRecord coll t"
  have ix: "list_all (index_ok t) es" "distinct (map fst es)" "ti_table_id t \<notin> fst ` set es" using assms by (auto simp: storable_def)
  have m: "is_meta_row ?m" "row_id ?m = Some (F_string (ti_table_id t))" "length (cr_fields ?m) > 2" "cr_schema ?m = skv_schema_name_table_meta"
    by (simp_all add: row_defs)
  note cols = column_rows_props [OF assms, where coll = coll] and irows = indexes_rows_props [OF ix(1,2), where coll = coll]
  show "list_all is_meta_row (table_rows coll t es)" using m(1) cols(2) irows(1) by (simp add: table_rows_def)
  have "\<not> same_key a b" if "a = ?m \<or> a \<in> set (column_rows coll t)" "b \<in> set (indexes_rows coll t es)" for a b
  proof -
    have "row_id a = Some (F_string (ti_table_id t))" "length (cr_fields a) > 2" using that(1) m(2,3) cols(3) by blast+
    moreover have "row_id b \<noteq> Some (F_string (ti_table_id t))" "length (cr_fields b) > 2" using irows(3) [OF that(2)] ix(3) by force+
    ultimately show ?thesis by (intro row_id_key) simp_all
  qed
  moreover have "\<not> same_key ?m b" if "b \<in> set (column_rows coll t)" for b
    using cols(3) [OF that] m(4) by (auto simp: same_key_def row_group_def)
  ultimately show "different_keys (table_rows coll t es)"
    using numbers_different [OF cols(1)] irows(2) by (auto simp: table_rows_def sorted_wrt_append)
qed

lemma PersistTableMeta_stores:
  assumes "meta_laws env v" "storable t (ce_indexes env (ti_index_map t))"
  shows "stores v (table_rows coll t (ce_indexes env (ti_index_map t))) (PersistTableMeta env h coll t) h tx"
proof -
  let ?es = "ce_indexes env (ti_index_map t)"
  let ?m = "DeriveTableMetaRecord coll t"
  have rows: "list_all is_meta_row (?m # column_rows coll t @ indexes_rows coll t ?es)" "different_keys (?m # column_rows coll t @ indexes_rows coll t ?es)"
    using table_rows_props [OF assms(2), of coll] by (simp_all add: table_rows_def)
  have ix: "list_all (index_ok t) ?es" "distinct (map fst ?es)" "map_of ?es = ti_index_map t" using assms(2) by (auto simp: storable_def)
  have none: "?es = []" if "\<not> has_secondary_indexes t"
    using that ix(3) by (cases ?es) (auto simp: has_secondary_indexes_def)
  have "stores v (indexes_rows coll t ?es) (if has_secondary_indexes t then persist_indexes env h coll t ?es else returnIO (Inr ())) h tx"
    using persist_indexes_stores [OF assms(1) ix(1,2)] stores_nothing none by auto
  moreover have "stores v (column_rows coll t) (write_records env h False (column_rows coll t)) h tx"
    using rows by (intro stores_records assms(1)) (simp_all add: sorted_wrt_append)
  ultimately have "stores v (column_rows coll t @ indexes_rows coll t ?es) (bindR (write_records env h False (column_rows coll t))
      (\<lambda>_. if has_secondary_indexes t then persist_indexes env h coll t ?es else returnIO (Inr ()))) h tx"
    using rows(2) by (intro stores_bind) simp_all
  then have "stores v (?m # column_rows coll t @ indexes_rows coll t ?es) (write_then env h ?m False (bindR (write_records env h False (column_rows coll t))
      (\<lambda>_. if has_secondary_indexes t then persist_indexes env h coll t ?es else returnIO (Inr ())))) h tx"
    using rows by (intro stores_then assms(1)) simp_all
  then show ?thesis unfolding PersistTableMeta_def table_rows_def column_rows_props(4) [OF assms(2)] bind_known by (rule stores_catch)
qed

lemma row_schema [simp]:
  "cr_schema (DeriveTableMetaRecord coll t) = skv_schema_name_table_meta"
  "cr_schema (DeriveTableMetaRecordOfIndex coll ix sys n) = skv_schema_name_table_meta"
  "cr_schema (table_column_record coll i k c) = skv_schema_name_tablecolumn_meta"
  "cr_schema (index_column_record coll i ic) = skv_schema_name_indexcolumn_meta"
  by (simp_all add: row_defs)

lemma in_range_id:
  assumes "in_range (buildRangeRecord coll sc o0 0 (Some i)) r"
  shows "cr_collection r = coll" "cr_schema r = sc" "row_id r = Some (F_string i)"
proof -
  have *: "take 3 (cr_fields r) = [Some (F_int64 (ucast o0)), Some (F_int64 0), Some (F_string i)]"
    and "cr_collection r = coll" "cr_schema r = sc"
    using assms by (auto simp: in_range_def buildRangeRecord_def numeral_3_eq_3)
  then show "cr_collection r = coll" "cr_schema r = sc" "row_id r = Some (F_string i)"
    using nth_take [of 2 3 "cr_fields r"] unfolding * by (simp_all add: row_id_def)
qed

lemmas meta_fields = field_named_def meta_schema_def skv_schema_table_meta_def skv_schema_tablecolumn_meta_def
  skv_schema_indexcolumn_meta_def plain_field_def TABLE_ID_COLUMN_NAME_def BASE_TABLE_ID_COLUMN_NAME_def

lemma column_row_found:
  "in_range (buildRangeRecord coll skv_schema_name_tablecolumn_meta oid_tablecolumn_meta 0 (Some i)) (table_column_record coll i k c)"
  "field_named TABLE_ID_COLUMN_NAME (table_column_record coll i k c) = Some (F_string i)"
  "in_range (buildRangeRecord coll skv_schema_name_indexcolumn_meta oid_indexcolumn_meta 0 (Some i)) (index_column_record coll i ic)"
  "field_named TABLE_ID_COLUMN_NAME (index_column_record coll i ic) = Some (F_string i)"
  by (simp_all add: in_range_def buildRangeRecord_def table_column_record_def index_column_record_def meta_fields)

lemma meta_row_found:
  "in_range (buildRangeRecord coll skv_schema_name_table_meta oid_table_meta 0 (Some (ti_table_id t))) (DeriveTableMetaRecord coll t)"
  "field_named BASE_TABLE_ID_COLUMN_NAME (DeriveTableMetaRecord coll t) = None"
  "in_range (buildRangeRecord coll skv_schema_name_table_meta oid_table_meta 0 None) (DeriveTableMetaRecordOfIndex coll ix sys n)"
  "field_named BASE_TABLE_ID_COLUMN_NAME (DeriveTableMetaRecordOfIndex coll ix sys n) = Some (F_string (ix_base_table_id ix))"
  by (simp_all add: in_range_def buildRangeRecord_def DeriveTableMetaRecord_def DeriveTableMetaRecordOfIndex_def meta_fields)

text \<open>The rows of a group, when the table has been written to a storage without its ids.\<close>
lemma rows_of_group:
  assumes sorted: "sorted_wrt row_before rows" "sorted_wrt (\<lambda>a b. row_number a < row_number b) ys"
    and S: "set rows = overwrite rs (set old)" "set ys \<subseteq> set rs"
    and ys: "\<And>y. y \<in> set ys \<Longrightarrow> P y" "\<And>y. y \<in> set ys \<Longrightarrow> row_group y = g"
    and others: "\<And>x. x \<in> set rs \<Longrightarrow> P x \<Longrightarrow> x \<in> set ys" "\<And>x. x \<in> set old \<Longrightarrow> \<not> P x"
  shows "filter P rows = ys"
proof (rule group_rows_unique)
  show "set (filter P rows) = set ys"
    using S ys(1) others by (auto simp: overwrite_def)
qed (use sorted ys(2) in \<open>auto simp: sorted_wrt_filter\<close>)

lemma written_columns:
  assumes t: "storable t es" and rows: "sorted_wrt row_before rows" "set rows = overwrite (table_rows coll t es) (set old)"
    and new: "unused_ids coll t es old"
  shows "filter (\<lambda>r. in_range (buildRangeRecord coll skv_schema_name_tablecolumn_meta oid_tablecolumn_meta 0 (Some (ti_table_id t))) r
      \<and> field_named TABLE_ID_COLUMN_NAME r = Some (F_string (ti_table_id t))) rows = column_rows coll t"
proof (rule rows_of_group [OF rows(1) column_rows_props(1) [OF t] rows(2)])
  fix x
  let ?P = "in_range (buildRangeRecord coll skv_schema_name_tablecolumn_meta oid_tablecolumn_meta 0 (Some (ti_table_id t))) x
      \<and> field_named TABLE_ID_COLUMN_NAME x = Some (F_string (ti_table_id t))"
  show "x \<in> set (column_rows coll t)" if "x \<in> set (table_rows coll t es)" ?P
    using that(1) in_range_id(2) [OF that(2) [THEN conjunct1]]
    by (auto simp: table_rows_def index_rows_def DeriveIndexColumnMetaRecords_def)
  show "\<not> ?P" if "x \<in> set old"
    using that new in_range_id [of coll _ _ "ti_table_id t" x] by (auto simp: unused_ids_def list_all_iff)
  show ?P if "x \<in> set (column_rows coll t)" using that by (auto simp: column_rows_def column_row_found)
  show "row_group x = (coll, skv_schema_name_tablecolumn_meta, [Some (F_int64 (ucast oid_tablecolumn_meta)), Some (F_int64 0), Some (F_string (ti_table_id t))])"
    if "x \<in> set (column_rows coll t)" using that by (auto simp: column_rows_def row_defs)
qed (auto simp: table_rows_def)

lemma written_index_columns:
  assumes t: "storable t es" and rows: "sorted_wrt row_before rows" "set rows = overwrite (table_rows coll t es) (set old)"
    and new: "unused_ids coll t es old" and e: "(i, ix) \<in> set es"
  shows "filter (\<lambda>r. in_range (buildRangeRecord coll skv_schema_name_indexcolumn_meta oid_indexcolumn_meta 0 (Some i)) r
      \<and> field_named TABLE_ID_COLUMN_NAME r = Some (F_string i)) rows = DeriveIndexColumnMetaRecords coll ix"
proof -
  have ok: "list_all (index_ok t) es" "distinct (map fst es)" using t by (simp_all add: storable_def)
  then have ok1: "index_ok t (i, ix)" using e by (auto simp: list_all_iff)
  note ix = index_okD [OF ok1]
  show ?thesis unfolding DeriveIndexColumnMetaRecords_def ix(1)
  proof (rule rows_of_group [OF rows(1) index_rows_sorted [OF ix(2,4)] rows(2)])
    fix x
    let ?P = "in_range (buildRangeRecord coll skv_schema_name_indexcolumn_meta oid_indexcolumn_meta 0 (Some i)) x
        \<and> field_named TABLE_ID_COLUMN_NAME x = Some (F_string i)"
    let ?cs = "map (index_column_record coll i) (ix_columns ix)"
    show "x \<in> set ?cs" if "x \<in> set (table_rows coll t es)" ?P
    proof -
      have x: "cr_schema x = skv_schema_name_indexcolumn_meta" "row_id x = Some (F_string i)"
        using in_range_id [OF that(2) [THEN conjunct1]] by simp_all
      with that(1) have "x \<in> set (indexes_rows coll t es)" by (auto simp: table_rows_def column_rows_def)
      then obtain j jx where j: "(j, jx) \<in> set es" "x \<in> set (index_rows coll t jx)" by auto
      then have "index_ok t (j, jx)" using ok(1) by (auto simp: list_all_iff)
      from index_rows_props(3) [OF this j(2)] x(2) have "j = i" by simp
      with j(1) e ok(2) have "jx = ix" by (metis eq_key_imp_eq_value)
      with j(2) x(1) show ?thesis using ix(1) by (auto simp: index_rows_def DeriveIndexColumnMetaRecords_def)
    qed
    show "\<not> ?P" if "x \<in> set old"
      using that new in_range_id [of coll _ _ i x] e by (force simp: unused_ids_def list_all_iff)
    show ?P if "x \<in> set ?cs" using that by (auto simp: column_row_found)
    show "row_group x = (coll, skv_schema_name_indexcolumn_meta, [Some (F_int64 (ucast oid_indexcolumn_meta)), Some (F_int64 0), Some (F_string i)])"
      if "x \<in> set ?cs" using that by (auto simp: row_defs)
  qed (use e ix(1) in \<open>force simp: table_rows_def index_rows_def DeriveIndexColumnMetaRecords_def\<close>)
qed

lemma written_indexes:
  assumes t: "storable t es" and rows: "set rows = overwrite (table_rows coll t es) (set old)"
    and new: "unused_ids coll t es old"
  shows "set (filter (\<lambda>r. in_range (buildRangeRecord coll skv_schema_name_table_meta oid_table_meta 0 None) r
      \<and> field_named BASE_TABLE_ID_COLUMN_NAME r = Some (F_string (ti_table_id t))) rows)
    = (\<lambda>e. DeriveTableMetaRecordOfIndex coll (snd e) (ti_is_sys_table t) (ti_next_column_id t)) ` set es"
proof -
  let ?P = "\<lambda>r. in_range (buildRangeRecord coll skv_schema_name_table_meta oid_table_meta 0 None) r
      \<and> field_named BASE_TABLE_ID_COLUMN_NAME r = Some (F_string (ti_table_id t))"
  have "index_ok t e" if "e \<in> set es" for e using t that by (auto simp: storable_def list_all_iff)
  then have base: "ix_base_table_id (snd e) = ti_table_id t" if "e \<in> set es" for e
    using index_okD(3) [of t "fst e" "snd e"] that by simp
  have old: "\<not> ?P r" if "r \<in> set old" for r
    using that new by (auto simp: unused_ids_def list_all_iff in_range_def buildRangeRecord_def)
  have cols: "\<not> ?P r" if "cr_schema r \<noteq> skv_schema_name_table_meta" for r
    using that by (simp add: in_range_def buildRangeRecord_def)
  have "{r \<in> set (table_rows coll t es). ?P r} = (\<lambda>e. DeriveTableMetaRecordOfIndex coll (snd e) (ti_is_sys_table t) (ti_next_column_id t)) ` set es"
    using base cols
    by (auto simp: table_rows_def column_rows_def index_rows_def DeriveIndexColumnMetaRecords_def meta_row_found)
  then show ?thesis using rows old by (auto simp: overwrite_def)
qed

lemma map_of_subset:
  assumes "distinct (map fst es)" "set ds = set es"
  shows "map_of ds = map_of es"
proof (rule ext)
  fix k
  show "map_of ds k = map_of es k"
  proof (cases "map_of ds k")
    case None
    then have "k \<notin> fst ` set es" using assms(2) by (simp add: map_of_eq_None_iff)
    then have "map_of es k = None" by (simp add: map_of_eq_None_iff)
    then show ?thesis using None by simp
  next
    case (Some x)
    then have "(k, x) \<in> set es" using assms(2) map_of_SomeD by fastforce
    then show ?thesis using Some assms(1) by simp
  qed
qed

lemma list_of_images: "set xs = f ` set es \<Longrightarrow> \<exists>ds. xs = map f ds \<and> set ds \<subseteq> set es"
proof (induction xs arbitrary: es)
  case (Cons x xs)
  have "\<exists>ds. xs = map f ds \<and> set ds \<subseteq> set (filter (\<lambda>e. f e \<in> set xs) es)"
    by (rule Cons.IH) (use Cons.prems in auto)
  then obtain ds where "xs = map f ds" "set ds \<subseteq> set es" by auto
  moreover obtain e where "x = f e" "e \<in> set es" using Cons.prems by (metis imageE list.set_intros(1))
  ultimately show ?case by (intro exI [of _ "e # ds"]) simp
qed simp

lemma BuildIndexInfo_written:
  assumes laws: "meta_laws env v" and s: "open_txn h tx s" "mv_inv v (cs_world s)"
    and t: "storable t es" and rows: "set (mv_rows v (cs_world s)) = overwrite (table_rows coll t es) (set old)"
    and new: "unused_ids coll t es old" and e: "e \<in> set es"
  shows "BuildIndexInfo env h coll (DeriveTableMetaRecordOfIndex coll (snd e) sys n) s = Some (Inr (snd e), s)"
proof -
  obtain i ix where i: "e = (i, ix)" by (cases e)
  then have ok: "index_ok t (i, ix)" using t e by (auto simp: storable_def list_all_iff)
  obtain mk where mk: "read_index_meta (DeriveTableMetaRecordOfIndex coll ix sys n) = returnE (i, mk)" "mk (ix_columns ix) = ix"
    using index_okD(5) [OF ok] by blast
  have "sorted_wrt row_before (mv_rows v (cs_world s))" using laws s(2) by (simp add: meta_laws_def)
  from written_index_columns [OF t this rows new] e i
  have "FetchIndexColumnMetaSKVRecords env h coll i s = Some (Inr (DeriveIndexColumnMetaRecords coll ix), s)"
    unfolding FetchIndexColumnMetaSKVRecords_def by (simp add: fetch_records_all [OF laws s])
  moreover have "read_index_columns (DeriveIndexColumnMetaRecords coll ix) = returnE (ix_columns ix)"
    unfolding DeriveIndexColumnMetaRecords_def by (rule read_index_columns_records [OF index_okD(2) [OF ok]])
  ultimately show ?thesis using mk by (simp add: i BuildIndexInfo_def catalog_steps returnE_def)
qed

lemma add_indexes_fold:
  assumes "\<And>e. e \<in> set ds \<Longrightarrow> BuildIndexInfo env h coll (m e) s = Some (Inr (snd e), s) \<and> ix_table_id (snd e) = fst e"
  shows "add_indexes env h coll (map m ds) t s = Some (Inr (fold (\<lambda>(i, ix) n. add_secondary_index i ix n) ds t), s)"
  using assms by (induction ds arbitrary: t) (auto simp: catalog_steps)

lemma add_indexes_only_map:
  "fold (\<lambda>(i, ix) n. add_secondary_index i ix n) ds t = t\<lparr>ti_index_map := map_of ds ++ ti_index_map t\<rparr>"
proof -
  have "\<exists>m. fold (\<lambda>(i, ix) n. add_secondary_index i ix n) ds t = t\<lparr>ti_index_map := m\<rparr>"
  proof (induction ds arbitrary: t)
    case Nil
    show ?case by (intro exI [of _ "ti_index_map t"]) simp
  next
    case (Cons d ds)
    obtain m where "fold (\<lambda>(i, ix) n. add_secondary_index i ix n) ds (add_secondary_index (fst d) (snd d) t)
        = (add_secondary_index (fst d) (snd d) t)\<lparr>ti_index_map := m\<rparr>" using Cons by blast
    moreover have "(add_secondary_index (fst d) (snd d) t)\<lparr>ti_index_map := m\<rparr> = t\<lparr>ti_index_map := m\<rparr>"
      by (simp add: add_secondary_index_def)
    ultimately show ?case by (intro exI [of _ m]) (simp add: case_prod_unfold)
  qed
  then obtain m where m: "fold (\<lambda>(i, ix) n. add_secondary_index i ix n) ds t = t\<lparr>ti_index_map := m\<rparr>" by blast
  with add_indexes_map [of ds t] show ?thesis by simp
qed

lemma GetTable_written:
  assumes laws: "meta_laws env v" and s: "open_txn h tx s" "mv_inv v (cs_world s)"
    and t: "storable t es" and rows: "set (mv_rows v (cs_world s)) = overwrite (table_rows (ti_database_id t) t es) (set old)"
    and new: "unused_ids (ti_database_id t) t es old"
  shows "GetTable env h (ti_database_id t) (ti_database_name t) (ti_table_id t) s = Some (Inr (Inr t), s)"
proof -
  let ?coll = "ti_database_id t" and ?m = "\<lambda>e. DeriveTableMetaRecordOfIndex (ti_database_id t) (snd e) (ti_is_sys_table t) (ti_next_column_id t)"
  let ?t = "t\<lparr>ti_index_map := Map.empty\<rparr>"
  have es: "map_of es = ti_index_map t" "list_all (index_ok t) es" "distinct (map fst es)" "table_ok t" using t by (simp_all add: storable_def)
  have meta: "FetchTableMetaSKVRecord env h ?coll (ti_table_id t) s = Some (Inr (Inr (DeriveTableMetaRecord ?coll t)), s)"
    by (rule FetchTableMeta_row [OF laws s _ meta_row_found(1)]) (simp add: rows overwrite_def table_rows_def)
  have "sorted_wrt row_before (mv_rows v (cs_world s))" using laws s(2) by (simp add: meta_laws_def)
  from written_columns [OF t this rows new]
  have cols: "FetchTableColumnMetaSKVRecords env h ?coll (ti_table_id t) s = Some (Inr (column_rows ?coll t), s)"
    unfolding FetchTableColumnMetaSKVRecords_def by (simp add: fetch_records_all [OF laws s])
  have build: "BuildTableInfo ?coll (ti_database_name t) (DeriveTableMetaRecord ?coll t) (column_rows ?coll t) = returnE ?t"
    using BuildTableInfo_records [OF es(4), of ?coll] column_rows_props(4) [OF t, of ?coll] by simp
  obtain ims where ims: "FetchIndexMetaSKVRecords env h ?coll (ti_table_id t) s = Some (Inr ims, s)" "set ims = ?m ` set es"
    unfolding FetchIndexMetaSKVRecords_def using written_indexes [OF t rows new] by (simp add: fetch_records_all [OF laws s])
  obtain ds where ds: "ims = map ?m ds" "set ds \<subseteq> set es" using list_of_images [OF ims(2)] by blast
  have ids: "ix_table_id (snd e) = fst e" if "e \<in> set es" for e
    using es(2) index_okD(1) [of t "fst e" "snd e"] that by (auto simp: list_all_iff)
  have "e \<in> set ds" if "e \<in> set es" for e
  proof -
    have "?m e \<in> ?m ` set ds" using that ims(2) unfolding ds(1) by auto
    then obtain d where d: "d \<in> set ds" "?m d = ?m e" by auto
    then have "ix_table_id (snd d) = ix_table_id (snd e)" by (simp add: DeriveTableMetaRecordOfIndex_def)
    moreover have "d \<in> set es" using d(1) ds(2) by blast
    ultimately have "fst d = fst e" using ids that by simp
    then have "d = e" using es(3) \<open>d \<in> set es\<close> that by (simp add: distinct_map inj_on_def)
    then show ?thesis using d(1) by simp
  qed
  then have "map_of ds = map_of es" using ds(2) by (intro map_of_subset es(3)) blast
  moreover have "add_indexes env h ?coll ims ?t s = Some (Inr (fold (\<lambda>(i, ix) n. add_secondary_index i ix n) ds ?t), s)"
    unfolding ds(1) by (rule add_indexes_fold) (use ds(2) ids BuildIndexInfo_written [OF laws s t rows new] in blast)
  ultimately have "add_indexes env h ?coll ims ?t s = Some (Inr t, s)"
    by (simp add: add_indexes_only_map es(1))
  then show ?thesis using meta cols build ims(1) by (simp add: GetTable_def catalog_steps returnE_def)
qed

text \<open>(C4)
  A table that is written to the catalog is read back as it was.  For a table of plain
  columns with ascending column ids and its primary columns as keys, whose indexes have
  their columns in ascending order of their numbers, and for ids of the table and of its
  indexes that are different from each other and that no row of the collection uses yet
  (no row has one of them, or the table as its base table): storing the table with its
  columns and its indexes in a running transaction succeeds, and looking the table up by its
  id afterwards gives the same table with the same indexes, however the storage cuts its
  scans into pages and in whatever order the hash map of indexes is walked.
\<close>
theorem persisted_table_is_read_back:
  assumes "meta_laws env v" "open_txn h tx s" "mv_inv v (cs_world s)"
    and "storable t (ce_indexes env (ti_index_map t))"
    and "unused_ids (ti_database_id t) t (ce_indexes env (ti_index_map t)) (mv_rows v (cs_world s))"
  shows "\<exists>s1. PersistTableMeta env h (ti_database_id t) t s = Some (Inr (Inr ()), s1)
    \<and> GetTable env h (ti_database_id t) (ti_database_name t) (ti_table_id t) s1 = Some (Inr (Inr t), s1)"
proof -
  obtain w where w: "PersistTableMeta env h (ti_database_id t) t s = Some (Inr (Inr ()), s\<lparr>cs_world := w\<rparr>)" "mv_inv v w"
      "set (mv_rows v w) = overwrite (table_rows (ti_database_id t) t (ce_indexes env (ti_index_map t))) (set (mv_rows v (cs_world s)))"
    using PersistTableMeta_stores [OF assms(1,4)] assms(2,3) unfolding stores_def by blast
  have "GetTable env h (ti_database_id t) (ti_database_name t) (ti_table_id t) (s\<lparr>cs_world := w\<rparr>) = Some (Inr (Inr t), s\<lparr>cs_world := w\<rparr>)"
    by (rule GetTable_written [OF assms(1) _ _ assms(4) _ assms(5)]) (use assms(2) w(2,3) in simp_all)
  then show ?thesis using w(1) by blast
qed

subsection \<open>A storage that keeps a list\<close>

fun insert_row :: "cat_record \<Rightarrow> cat_record list \<Rightarrow> cat_record list" where
  "insert_row r [] = [r]"
| "insert_row r (x # xs) = (if row_group x \<noteq> row_group r \<or> row_number x < row_number r then x # insert_row r xs
     else if row_number x = row_number r then r # xs else r # x # xs)"

type_synonym list_query = "(cat_record \<Rightarrow> bool) \<times> cat_record option \<times> nat \<times> bool"

definition matching :: "k2_expression \<Rightarrow> cat_record \<Rightarrow> bool" where
  "matching e r = (\<exists>name x. e = eq_filter name (L_string x) \<and> field_named name r = Some (F_string x))"

fun query_rows :: "list_query \<Rightarrow> cat_record list \<Rightarrow> cat_record list" where
  "query_rows (f, rng, pos, d) w = drop pos (filter (\<lambda>r. (case rng of None \<Rightarrow> True | Some g \<Rightarrow> in_range g r) \<and> f r) w)"

definition list_adapter :: "(nat, 'w) adapter" where
  "list_adapter = \<lparr>ad_begin = (\<lambda>w. (Some 0, w)), ad_end = (\<lambda>t commit w. (Some 200, w)),
     ad_is2xxOK = (\<lambda>c. c div 100 = 2), ad_OperationNotAllowed = (\<lambda>c. c = 405)\<rparr>"

text \<open>It delivers one row in a page; \<open>ids\<close> is the order in which maps are walked.\<close>
definition list_env :: "string list \<Rightarrow> (list_query, nat, cat_record list) catalog_env" where
  "list_env ids = \<lparr>ce_adapter = list_adapter, ce_range_ends = (\<lambda>_. None),
     ce_createCollection = (\<lambda>_ _ _ w. (Inr 200, w)), ce_dropCollection = (\<lambda>_ w. (Inr 200, w)),
     ce_createSchema = (\<lambda>_ _ w. (Inr 200, w)), ce_getSchema = (\<lambda>_ n _ w. (Inr (200, meta_schema n), w)),
     ce_write = (\<lambda>_ r erase w. (Inr 200, if erase then filter (\<lambda>x. \<not> same_key x r) w else insert_row r w)),
     ce_read = (\<lambda>_ k w. case find (in_range k) w of None \<Rightarrow> (Inr (404, k), w) | Some r \<Rightarrow> (Inr (200, r), w)),
     ce_createScanRead = (\<lambda>_ _ w. (Inr (200, (\<lambda>_. True), None, 0, False), w)),
     ce_scanRead = (\<lambda>_ q w. let rs = query_rows q w; (f, rng, pos, d) = q in
       (Inr (200, take 1 rs, f, rng, pos + 1, length rs \<le> 1), w)),
     cq_setFilterExpression = (\<lambda>e (f, rng, pos, d). (matching e, rng, pos, d)),
     cq_setRange = (\<lambda>a b (f, rng, pos, d). (f, Some a, pos, d)),
     cq_serializeStart = (\<lambda>_ q. Inr q), cq_isDone = (\<lambda>(f, rng, pos, d). d), ce_is2xxOK = (\<lambda>c. c div 100 = 2),
     ce_cloneToOtherSchema = (\<lambda>coll sc r. r\<lparr>cr_collection := coll, cr_schema := ks_name sc\<rparr>),
     ce_indexes = (\<lambda>m. map (\<lambda>i. (i, the (m i))) (filter (\<lambda>i. m i \<noteq> None) ids))\<rparr>"

definition list_view :: "(list_query, cat_record list) meta_view" where
  "list_view = \<lparr>mv_rows = (\<lambda>w. w), mv_todo = query_rows, mv_left = (\<lambda>q w. length (query_rows q w)), mv_inv = sorted_wrt row_before\<rparr>"

lemma insert_row_set: "set (insert_row r w) \<subseteq> insert r (set w)"
  by (induction w) auto

lemma insert_row_sorted: "sorted_wrt row_before w \<Longrightarrow> sorted_wrt row_before (insert_row r w)"
proof (induction w)
  case (Cons x w)
  then show ?case using insert_row_set [of r w] by (auto simp: row_before_def)
qed simp

lemma insert_row_same: "sorted_wrt row_before w \<Longrightarrow> set (insert_row r w) = insert r {x \<in> set w. \<not> same_key x r}"
  by (induction w) (auto simp: row_before_def same_key_def)

lemma sorted_same_key:
  "sorted_wrt row_before w \<Longrightarrow> a \<in> set w \<Longrightarrow> b \<in> set w \<Longrightarrow> same_key a b \<Longrightarrow> a = b"
  by (induction w) (auto simp: row_before_def same_key_def)

lemma in_range_group:
  "in_range (buildRangeRecord coll sc o0 0 (Some i)) r \<Longrightarrow>
    row_group r = (coll, sc, [Some (F_int64 (ucast o0)), Some (F_int64 0), Some (F_string i)])"
  by (auto simp: in_range_def buildRangeRecord_def row_group_def numeral_3_eq_3)

lemma list_laws: "meta_laws (list_env ids) list_view"
proof -
  have "upsert_law (list_env ids) list_view"
    by (auto simp: upsert_law_def list_env_def list_view_def insert_row_sorted insert_row_same)
  moreover have "read_law (list_env ids) list_view"
    unfolding read_law_def
  proof (intro allI impI)
    fix t :: nat and i coll r w
    let ?k = "buildRangeRecord coll skv_schema_name_table_meta oid_table_meta 0 (Some i)"
    assume r: "mv_inv list_view w" "r \<in> set (mv_rows list_view w)" "in_range ?k r"
    then obtain x where x: "find (in_range ?k) w = Some x" "x \<in> set w" "in_range ?k x"
      by (cases "find (in_range ?k) w") (auto simp: find_None_iff find_Some_iff list_view_def)
    have "same_key x r" using in_range_group [OF x(3)] in_range_group [OF r(3)] by (simp add: same_key_def row_group_def row_number_def)
    with r x have "x = r" by (intro sorted_same_key [of w]) (simp_all add: list_view_def)
    then show "ce_read (list_env ids) t ?k w = (Inr (200, r), w)" using x(1) by (simp add: list_env_def)
  qed
  moreover have "matching (eq_filter name (L_string x)) r \<longleftrightarrow> field_named name r = Some (F_string x)" for name x r
    by (simp add: matching_def eq_filter_def)
  then have "query_law (list_env ids) list_view"
    by (simp add: query_law_def list_env_def list_view_def)
  moreover have "page_law (list_env ids) list_view"
    unfolding page_law_def
  proof (intro allI impI)
    fix t :: nat and q :: list_query and w
    obtain f rng pos d where q: "q = (f, rng, pos, d)" by (cases q)
    let ?rs = "query_rows q w" and ?q = "(f, rng, pos + 1, length (query_rows q w) \<le> 1)"
    have "query_rows ?q w = drop 1 ?rs" by (simp add: q add.commute)
    then have rest: "?rs = take 1 ?rs @ (if length ?rs \<le> 1 then [] else query_rows ?q w)"
      "\<not> length ?rs \<le> 1 \<longrightarrow> length (query_rows ?q w) < length ?rs" by auto
    have scan: "ce_scanRead (list_env ids) t q w = (Inr (200, take 1 ?rs, ?q), w)"
      by (simp add: list_env_def q Let_def del: query_rows.simps)
    have "cq_isDone (list_env ids) ?q = (length ?rs \<le> 1)" by (simp add: list_env_def)
    then show "\<exists>rs q1. ce_scanRead (list_env ids) t q w = (Inr (200, rs, q1), w)
       \<and> mv_todo list_view q w = rs @ (if cq_isDone (list_env ids) q1 then [] else mv_todo list_view q1 w)
       \<and> (\<not> cq_isDone (list_env ids) q1 \<longrightarrow> mv_left list_view q1 w < mv_left list_view q w)"
      unfolding list_view_def meta_view.simps using rest
      by (intro exI [of _ "take 1 ?rs"] exI [of _ ?q] conjI scan) simp_all
  qed
  ultimately show ?thesis by (simp add: meta_laws_def) (simp add: list_env_def list_view_def)
qed

definition example_index :: IndexInfo where
  "example_index = IndexInfo_make ''i'' 16385 (GetTableUuid 1 16385) (GetTableId 16384) 0 True False
     [\<lparr>ic_column_id = 1, ic_column_name = ''b'', ic_type = DT_INT64, ic_is_nullable = True, ic_is_hash = False, ic_is_range = True,
       ic_order = 1, ic_sorting_type = kAscending, ic_base_column_id = 2, ic_colexpr = None\<rparr>] INDEX_PERM_READ_WRITE_AND_DELETE"

definition example_indexed_table :: TableInfo where
  "example_indexed_table = add_secondary_index (GetTableId 16385) example_index example_catalog_table"

definition example_open_state :: "(nat, cat_record list) cat_state" where
  "example_open_state = \<lparr>cs_handlers = [initial_handler\<lparr>txn := Some 0, txn_in_progress := True\<rparr>], cs_world = []\<rparr>"

lemma example_ids_differ: "GetTableId 16384 \<noteq> GetTableId 16385"
  by (simp add: GetTableId_def)

lemma example_storable: "storable example_indexed_table (ce_indexes (list_env [GetTableId 16385]) (ti_index_map example_indexed_table))"
proof -
  have t: "ti_index_map example_indexed_table = [GetTableId 16385 \<mapsto> example_index]" "ti_table_id example_indexed_table = GetTableId 16384"
      "ti_schema example_indexed_table = ti_schema example_catalog_table"
    by (simp_all add: example_indexed_table_def add_secondary_index_def example_catalog_table_def TableInfo_make_def)
  have "table_ok example_indexed_table" using example_table_ok
    by (simp add: table_ok_def example_indexed_table_def add_secondary_index_def example_catalog_table_def TableInfo_make_def)
  moreover have "index_ok example_indexed_table (GetTableId 16385, example_index)"
    unfolding index_ok_def example_index_def t(2) prod.inject
    by (intro exI conjI) (rule refl | simp add: index_column_ok_def int32_ok_def)+
  moreover have "col_ids (ti_schema example_catalog_table) = [1, 2]"
    by (simp add: example_catalog_table_def TableInfo_make_def example_schema_def)
  ultimately show ?thesis using example_ids_differ by (simp add: storable_def t list_env_def)
qed

theorem persisted_table_is_read_back_witness:
  "\<exists>s1. PersistTableMeta (list_env [GetTableId 16385]) 0 ''db'' example_indexed_table example_open_state = Some (Inr (Inr ()), s1)
    \<and> GetTable (list_env [GetTableId 16385]) 0 ''db'' ''template1'' (GetTableId 16384) s1 = Some (Inr (Inr example_indexed_table), s1)"
proof -
  have "ti_database_id example_indexed_table = ''db''" "ti_database_name example_indexed_table = ''template1''"
      "ti_table_id example_indexed_table = GetTableId 16384"
    by (simp_all add: example_indexed_table_def add_secondary_index_def example_catalog_table_def TableInfo_make_def)
  with persisted_table_is_read_back [OF list_laws _ _ example_storable, of 0 0 example_open_state]
  show ?thesis by (simp add: open_txn_def example_open_state_def list_view_def unused_ids_def)
qed

end
