(* ===== verification/Spec2Isabelle.thy ===== *)
theory Spec2Isabelle
  imports K2pg_Status Entity_Ids K2_Codes Pg_Txn Thread_Pool Sql_Types Sql_Values Sql_Schema
    Pg_Expr Index_Table Adapter_Expr Adapter_Record Adapter_Ops Pg_Op Catalog_Records
    Catalog_Store Byte_Lists Varint Decimal_Num
begin

text \<open>
  Verification of the chogori SQL connector, the layer between a PostgreSQL backend
  and the K2 transactional key-value storage.  Paths below are relative to
  \<open>src/src/k2/connector\<close>.

  \<^bold>\<open>The program.\<close>  A backend calls the gate (\<open>pggate/pg_gate_api.cc\<close>,
  \<open>pg_gate_impl.cc\<close>) with statements over tables, values and expressions (\<open>entities/\<close>).
  A statement becomes read and write operations that the session hands to the adapter
  (\<open>pggate/k2_adapter.cc\<close>); the adapter turns them into records, scans and filters of the
  storage and runs them as tasks of a thread pool (\<open>k2_thread_pool.h\<close>) inside the
  transaction the handler (\<open>pg_txn_handler.cc\<close>) keeps for the session.  Errors travel
  as statuses (\<open>common/status.cc\<close>).  Numbers of unbounded size are stored in byte
  encodings whose order is the numerical one (\<open>common/type/\<close>).

  \<^bold>\<open>Conventions.\<close>  An operation that can fail an assertion or has undefined
  behaviour returns an option (\<open>'a checked\<close>), \<^term>\<open>None\<close> being that outcome; a
  \<open>Result\<close> or \<open>Status\<close> is a sum with the status code on the left (\<open>'a result\<close>); code
  that throws is an \<open>'a run\<close>, code that throws and talks to the storage an \<open>io\<close> over the
  state of the storage.  Machine integers are words.  Dictionaries are maps, vectors
  lists.  Loops are structurally recursive or have a termination proof; the client
  that fetches all rows of a scan is bounded by a number of calls, and the loop over the pages of
  a catalog scan is a partial function, proved to return when each page leaves less to
  read.  Code outside the repository (the storage client, the big number library, the
  random generator, the conversion functions the backend registers) is a parameter; what
  the proofs need of it is a named hypothesis (\<open>filter_laws\<close>, \<open>skv_laws\<close>, \<open>bn_laws\<close>, \<open>meta_laws\<close>) that a concrete
  instance is shown to satisfy.

  \<^bold>\<open>Theories.\<close>
  \<^item> \<^verbatim>\<open>Prelude\<close>, \<^verbatim>\<open>Byte_Lists\<close>: checked computations, the standard library functions used,
    byte strings as numbers and their order.
  \<^item> \<^verbatim>\<open>K2pg_Status\<close> (\<open>common/status.h\<close>, \<open>status.cc\<close>, \<open>k2pg_util.cc\<close>): statuses with
    their encoded error codes.  The byte run of error codes implements a finite map
    ordered by category; adding a code updates the map; the C functions read back
    what was put in.
  \<^item> \<^verbatim>\<open>Entity_Ids\<close> (\<open>entities/entity_ids.cc\<close>): oids packed in uuids; the parsers invert the
    packing (locale \<open>object_naming\<close>).
  \<^item> \<^verbatim>\<open>K2_Codes\<close>: translation of storage statuses.
  \<^item> \<^verbatim>\<open>Pg_Txn\<close> (\<open>pggate/pg_txn_handler.cc\<close>): the handler as a state machine over the
    adapter; an invariant of all runs (locale \<open>handler_predicate\<close>), the protocol of the
    requests sent, and that no transaction is left behind by a new one.
  \<^item> \<^verbatim>\<open>Thread_Pool\<close> (\<open>pggate/k2_thread_pool.h\<close>): workers, enqueue, wait and destructor as
    interleaved steps; tasks start in order, each runs once, none is forgotten; a
    run of the destructor that never ends.
  \<^item> \<^verbatim>\<open>Sql_Types\<close>, \<^verbatim>\<open>Sql_Values\<close>, \<^verbatim>\<open>Sql_Schema\<close>, \<^verbatim>\<open>Pg_Expr\<close>, \<^verbatim>\<open>Index_Table\<close> (\<open>entities/\<close>):
    types and their comparison (locale \<open>three_way_order\<close>), values from datums and their
    bounds, schemas with their lookup maps (locale \<open>schema_lookup\<close>) and the builder,
    expression trees, index and table descriptions.
  \<^item> \<^verbatim>\<open>Adapter_Expr\<close>, \<^verbatim>\<open>Adapter_Record\<close>, \<^verbatim>\<open>Adapter_Ops\<close> (\<open>pggate/k2_adapter.cc\<close>):
    conditions to filters, with their meaning kept; records and the bounds of scans;
    reads, writes and batches with every error path.
  \<^item> \<^verbatim>\<open>Pg_Op\<close> (\<open>pggate/pg_op.cc\<close>, \<open>pg_op_api.cc\<close>, \<open>RunAsync\<close> of \<open>pg_session.cc\<close>): operations
    with their requests, paging and results.  A scan that is executed and fetched to its end
    delivers the rows of the storage in order; batches of row ids deliver their rows; a failure
    status of an operation stays.  The laws of scans and reads are \<open>scan_laws\<close> and \<open>get_laws\<close>; the number of
    fetches is bounded by the number of rows plus one, which is enough because only the
    last page can be empty.
  \<^item> \<^verbatim>\<open>Catalog_Records\<close>, \<^verbatim>\<open>Catalog_Store\<close> (\<open>pggate/catalog/\<close>): the records that tables, indexes,
    databases and the cluster are stored as, and the handlers that write, read, copy and
    delete them inside transactions.  The types of row schemas agree with the literals of the
    adapter; a stored table is read back with its indexes.  The laws of the meta tables are
    \<open>meta_laws\<close>; \<open>list_env\<close> is a storage that satisfies them.
  \<^item> \<^verbatim>\<open>Varint\<close> (\<open>common/type/varint.cc\<close>): the comparable and the two's complement
    encodings, their round trips and order (locale \<open>comparable_codec\<close>).
  \<^item> \<^verbatim>\<open>Decimal_Num\<close> (\<open>common/type/decimal.cc\<close>): canonical decimals; comparison and addition are
    those of the rational numbers they denote; the text form, the comparable form and the
    serialised form are read back; \<^verbatim>\<open>Sql_Values\<close> composes it with the comparison of values.

  \<^bold>\<open>Not modelled.\<close>  The message queues to the reactor of the storage client and its start
  up (threads of a library outside the repository); the C wrappers of the gate, which
  only forward; logging, metrics and configuration; debug printing; conversion of
  decimals to and from floating point; the conversion of typed record fields into tuples of
  the backend; the PostgreSQL server itself.  The reference
  counts and the buffer layout of a status are abstracted to its contents.
\<close>

end
